(* ===== verification/Go_Prelude.thy ===== *)
theory Go_Prelude
  imports Main "HOL-Library.AList" "HOL-Library.Signed_Division" "HOL-Library.Char_ord"
    "HOL-Library.List_Lexorder" "HOL-Library.Word"
begin

text \<open>
  What the rest of the development uses of the Go language and of its standard library:
  64-bit signed integers with their wrap-around, truncating division, maps with their range
  loops, the binary search of package \<open>sort\<close> and the few functions of package \<open>strings\<close>
  that the sources call, with the lemmas the components share.

  A Go map is an association list with distinct keys. The order of the list stands for the
  order in which one \<open>range\<close> loop visits the entries; the language leaves that order open, so
  a statement about every list is a statement about every iteration order.
\<close>

named_theorems go_defs \<open>definitions of Go primitives, unfolded by the component proofs\<close>
named_theorems gomap_simps \<open>lookup equations of the map operations\<close>

section \<open>Integers of 64 bits\<close>

definition wrap64 :: "int \<Rightarrow> int" where
  "wrap64 x = (x + 2 ^ 63) mod 2 ^ 64 - 2 ^ 63"

definition int64 :: "int \<Rightarrow> bool" where
  "int64 x \<longleftrightarrow> - (2 ^ 63) \<le> x \<and> x < 2 ^ 63"

definition MinInt64 :: int where
  "MinInt64 = - (2 ^ 63)"

definition MaxInt64 :: int where
  "MaxInt64 = 2 ^ 63 - 1"

text \<open>Go's \<open>/\<close> and \<open>%\<close> on signed integers truncate towards zero. The only quotient that leaves
  the range, \<open>MinInt64 / -1\<close>, wraps. Division by zero is a run-time panic: every use below either
  divides by a positive constant or carries the panic as a value of its own.\<close>

definition go_div :: "int \<Rightarrow> int \<Rightarrow> int" where
  "go_div a b = wrap64 (a sdiv b)"

definition go_mod :: "int \<Rightarrow> int \<Rightarrow> int" where
  "go_mod a b = a smod b"

section \<open>Run-time panics and slices\<close>

text \<open>A Go run-time panic is a value: a fallible computation returns \<open>Inl p\<close> for the panic \<open>p\<close> and
  \<open>Inr x\<close> for the result \<open>x\<close>.\<close>

datatype panic =
    SliceBounds | IndexOutOfRange | DivideByZero | NilDereference
  | SendOnClosedChannel | CloseOfClosedChannel | MakeNegativeLength | ExplicitPanic string

definition go_slice :: "'a list \<Rightarrow> nat \<Rightarrow> nat \<Rightarrow> panic + 'a list" where
  "go_slice xs i j = (if i \<le> j \<and> j \<le> length xs then Inr (drop i (take j xs)) else Inl SliceBounds)"

definition go_index :: "'a list \<Rightarrow> nat \<Rightarrow> panic + 'a" where
  "go_index xs i = (if i < length xs then Inr (xs ! i) else Inl IndexOutOfRange)"

section \<open>Maps\<close>

type_synonym ('k, 'v) gomap = "('k \<times> 'v) list"

definition gm_ok :: "('k, 'v) gomap \<Rightarrow> bool" where
  "gm_ok m \<longleftrightarrow> distinct (map fst m)"

definition gm_get :: "('k, 'v) gomap \<Rightarrow> 'k \<Rightarrow> 'v option" where
  "gm_get m k = map_of m k"

definition gm_has :: "('k, 'v) gomap \<Rightarrow> 'k \<Rightarrow> bool" where
  "gm_has m k \<longleftrightarrow> gm_get m k \<noteq> None"

definition gm_put :: "('k, 'v) gomap \<Rightarrow> 'k \<Rightarrow> 'v \<Rightarrow> ('k, 'v) gomap" where
  "gm_put m k v = AList.update k v m"

definition gm_del :: "('k, 'v) gomap \<Rightarrow> 'k \<Rightarrow> ('k, 'v) gomap" where
  "gm_del m k = AList.delete k m"

text \<open>Reading a key of a map of strings without the comma-ok form gives the zero value.\<close>

definition gm_str :: "('k, string) gomap \<Rightarrow> 'k \<Rightarrow> string" where
  "gm_str m k = (case gm_get m k of Some v \<Rightarrow> v | None \<Rightarrow> [])"

text \<open>The loop \<open>for k, v := range extra { if _, ok := m[k]; !ok { m[k] = v } }\<close>, which the
  sources write out in several places.\<close>

fun gm_fill :: "('k, 'v) gomap \<Rightarrow> ('k \<times> 'v) list \<Rightarrow> ('k, 'v) gomap" where
  "gm_fill m [] = m"
| "gm_fill m ((k, v) # kvs) = gm_fill (if gm_has m k then m else gm_put m k v) kvs"

text \<open>The loop \<open>for k := range keys { delete(m, k) }\<close>.\<close>

fun gm_del_all :: "('k, 'v) gomap \<Rightarrow> 'k list \<Rightarrow> ('k, 'v) gomap" where
  "gm_del_all m [] = m"
| "gm_del_all m (k # ks) = gm_del_all (gm_del m k) ks"

text \<open>The loop \<open>for k := range m { if p(k) { delete(m, k) } }\<close>: it only deletes entries it has
  already reached.\<close>

definition gm_del_if :: "('k \<Rightarrow> bool) \<Rightarrow> ('k, 'v) gomap \<Rightarrow> ('k, 'v) gomap" where
  "gm_del_if p m = filter (\<lambda>(k, v). \<not> p k) m"

section \<open>Binary search of package sort\<close>

text \<open>\<open>sort.Search(n, f)\<close> of Go 1: \<open>i, j := 0, n\<close>, then the loop below.\<close>

function sort_search_loop :: "(nat \<Rightarrow> bool) \<Rightarrow> nat \<Rightarrow> nat \<Rightarrow> nat" where
  "sort_search_loop f i j =
     (if i < j then
        (let h = i + (j - i) div 2
         in if \<not> f h then sort_search_loop f (h + 1) j else sort_search_loop f i h)
      else i)"
  by pat_completeness auto
termination
  by (relation "measure (\<lambda>(f, i, j). j - i)") (auto simp: Let_def)

declare sort_search_loop.simps [simp del]

definition sort_search :: "nat \<Rightarrow> (nat \<Rightarrow> bool) \<Rightarrow> nat" where
  "sort_search n f = sort_search_loop f 0 n"

section \<open>Strings\<close>

definition has_prefix :: "string \<Rightarrow> string \<Rightarrow> bool" where
  "has_prefix s p \<longleftrightarrow> take (length p) s = p"

fun str_contains :: "string \<Rightarrow> string \<Rightarrow> bool" where
  "str_contains [] p = (p = [])"
| "str_contains (c # s) p = (has_prefix (c # s) p \<or> str_contains s p)"

fun str_join :: "string list \<Rightarrow> string \<Rightarrow> string" where
  "str_join [] sep = []"
| "str_join [x] sep = x"
| "str_join (x # xs) sep = x @ sep @ str_join xs sep"

text \<open>\<open>strconv.Itoa\<close> and the verb \<open>%d\<close>.\<close>

fun nat_str :: "nat \<Rightarrow> string" where
  "nat_str n = (if n < 10 then [char_of (48 + n)] else nat_str (n div 10) @ [char_of (48 + n mod 10)])"

definition itoa :: "int \<Rightarrow> string" where
  "itoa i = (if i < 0 then CHR ''-'' # nat_str (nat (- i)) else nat_str (nat i))"

declare nat_str.simps [simp del]

section \<open>Lemmas on 64-bit integers\<close>

lemma int64_wrap64 [simp, intro]: "int64 (wrap64 x)"
  using pos_mod_bound [of "2 ^ 64" "x + 2 ^ 63"] pos_mod_sign [of "2 ^ 64" "x + 2 ^ 63"]
  by (simp add: int64_def wrap64_def)

lemma wrap64_id [simp]: "int64 x \<Longrightarrow> wrap64 x = x"
  by (simp add: int64_def wrap64_def)

lemma wrap64_eq_iff: "wrap64 x = x \<longleftrightarrow> int64 x"
  by (metis int64_wrap64 wrap64_id)

lemma wrap64_add_left: "wrap64 (wrap64 x + y) = wrap64 (x + y)"
proof -
  have e1: "wrap64 x + y + 2 ^ 63 = (x + 2 ^ 63) mod 2 ^ 64 + y"
    by (simp add: wrap64_def)
  have e2: "x + y + 2 ^ 63 = x + 2 ^ 63 + y"
    by simp
  show ?thesis
    unfolding wrap64_def [of "wrap64 x + y"] wrap64_def [of "x + y"] e1 e2 mod_add_left_eq ..
qed

lemma div_pos_bounds:
  fixes a b :: int
  assumes "0 \<le> a" "0 < b"
  shows "0 \<le> a div b" "a div b \<le> a"
proof -
  show "0 \<le> a div b"
    using assms by (simp add: pos_imp_zdiv_nonneg_iff)
  have "a div b \<le> a div 1"
    using assms by (intro zdiv_mono2) auto
  then show "a div b \<le> a"
    by simp
qed

lemma sdiv_pos_bounds:
  fixes a b :: int
  assumes "0 < b"
  shows "0 \<le> a \<Longrightarrow> a sdiv b = a div b" "a \<le> 0 \<Longrightarrow> a sdiv b = - (- a div b)"
  using assms by (auto simp: signed_divide_int_def sgn_if)

lemma go_div_pos:
  assumes "int64 a" "0 < b"
  shows "go_div a b = a sdiv b"
proof -
  have "int64 (a sdiv b)"
  proof (cases "0 \<le> a")
    case True
    then show ?thesis
      using assms div_pos_bounds [of a b] by (auto simp: int64_def sdiv_pos_bounds)
  next
    case False
    then show ?thesis
      using assms div_pos_bounds [of "- a" b] by (auto simp: int64_def sdiv_pos_bounds)
  qed
  then show ?thesis
    by (simp add: go_div_def)
qed

section \<open>Lemmas on maps\<close>

lemma gm_get_Nil [simp]: "gm_get [] = (\<lambda>_. None)"
  by (simp add: gm_get_def fun_eq_iff)

lemma gm_ok_Nil [simp]: "gm_ok []"
  by (simp add: gm_ok_def)

lemma gm_get_Cons: "gm_get ((k, v) # m) = (gm_get m)(k \<mapsto> v)"
  by (simp add: gm_get_def fun_eq_iff)

lemma gm_get_put [gomap_simps]: "gm_get (gm_put m k v) = (gm_get m)(k \<mapsto> v)"
  by (simp add: gm_get_def gm_put_def fun_eq_iff update_conv)

lemma gm_get_del [gomap_simps]: "gm_get (gm_del m k) = (gm_get m)(k := None)"
  by (simp add: gm_get_def gm_del_def fun_eq_iff delete_conv)

lemma gm_ok_put [simp, intro]: "gm_ok m \<Longrightarrow> gm_ok (gm_put m k v)"
  by (simp add: gm_ok_def gm_put_def distinct_update)

lemma gm_ok_del [simp, intro]: "gm_ok m \<Longrightarrow> gm_ok (gm_del m k)"
  by (simp add: gm_ok_def gm_del_def distinct_delete)


lemma gm_get_Some_iff: "gm_ok m \<Longrightarrow> gm_get m k = Some v \<longleftrightarrow> (k, v) \<in> set m"
  by (simp add: gm_ok_def gm_get_def)

lemma list_all_update: "list_all P xs \<Longrightarrow> P x \<Longrightarrow> list_all P (xs[i := x])"
  using set_update_subset_insert [of xs i x] by (auto simp: list_all_iff)

lemma gm_has_iff: "gm_has m k \<longleftrightarrow> k \<in> dom (gm_get m)"
  by (auto simp: gm_has_def)

lemma dom_gm_get: "dom (gm_get m) = fst ` set m"
  unfolding gm_get_def [abs_def] by (rule dom_map_of_conv_image_fst)

lemma gm_get_fill [gomap_simps]: "gm_get (gm_fill m kvs) = map_of kvs ++ gm_get m"
  by (induction m kvs rule: gm_fill.induct)
    (auto simp: gomap_simps gm_has_def map_add_def fun_eq_iff split: option.splits)

lemma gm_ok_fill [intro]: "gm_ok m \<Longrightarrow> gm_ok (gm_fill m kvs)"
  by (induction m kvs rule: gm_fill.induct) auto

lemma gm_get_del_all [gomap_simps]: "gm_get (gm_del_all m ks) = gm_get m |` (- set ks)"
  by (induction m ks rule: gm_del_all.induct) (auto simp: gomap_simps restrict_map_def fun_eq_iff)

lemma gm_ok_del_all [intro]: "gm_ok m \<Longrightarrow> gm_ok (gm_del_all m ks)"
  by (induction m ks rule: gm_del_all.induct) auto

lemma gm_get_del_if [gomap_simps]: "gm_get (gm_del_if p m) = gm_get m |` {k. \<not> p k}"
  by (induction m) (auto simp: gm_del_if_def gm_get_def restrict_map_def fun_eq_iff)

lemma gm_ok_del_if [intro]: "gm_ok m \<Longrightarrow> gm_ok (gm_del_if p m)"
  unfolding gm_ok_def gm_del_if_def by (induction m) (auto simp: image_iff)

lemma gm_list_all: "gm_ok m \<Longrightarrow> list_all (\<lambda>(k, v). P k v) m \<longleftrightarrow> (\<forall>k v. gm_get m k = Some v \<longrightarrow> P k v)"
  by (auto simp: list_all_iff gm_get_Some_iff)

lemma gm_list_all_put:
  "gm_ok m \<Longrightarrow> list_all (\<lambda>(k, v). P k v) m \<Longrightarrow> P k v \<Longrightarrow> list_all (\<lambda>(k, v). P k v) (gm_put m k v)"
  by (simp add: gm_list_all gm_get_put)

lemma gm_list_all_del_if: "list_all (\<lambda>(k, v). P k v) m \<Longrightarrow> list_all (\<lambda>(k, v). P k v) (gm_del_if p m)"
  by (auto simp: list_all_iff gm_del_if_def)

text \<open>Maps with the same entries, whatever the order in which a range loop visits them.\<close>

definition gm_same :: "('k, 'v) gomap \<Rightarrow> ('k, 'v) gomap \<Rightarrow> bool" where
  "gm_same m n \<longleftrightarrow> gm_get m = gm_get n"

lemma gm_same_set: "gm_ok m \<Longrightarrow> gm_ok n \<Longrightarrow> gm_same m n \<Longrightarrow> set m = set n"
  by (metis gm_get_def gm_ok_def gm_same_def map_of_eq_Some_iff subrelI subset_antisym)

text \<open>The interface of a map, as the components use it, and its implementation above.\<close>

locale go_map =
  fixes get :: "'m \<Rightarrow> 'k \<Rightarrow> 'v option"
    and put :: "'m \<Rightarrow> 'k \<Rightarrow> 'v \<Rightarrow> 'm"
    and del :: "'m \<Rightarrow> 'k \<Rightarrow> 'm"
    and ok :: "'m \<Rightarrow> bool"
  assumes get_put: "ok m \<Longrightarrow> get (put m k v) = (get m)(k \<mapsto> v)"
    and get_del: "ok m \<Longrightarrow> get (del m k) = (get m)(k := None)"
    and ok_put: "ok m \<Longrightarrow> ok (put m k v)"
    and ok_del: "ok m \<Longrightarrow> ok (del m k)"
begin

lemma put_get_same: "ok m \<Longrightarrow> get (put m k v) k = Some v"
  by (simp add: get_put)

lemma put_other: "ok m \<Longrightarrow> k \<noteq> l \<Longrightarrow> get (put m k v) l = get m l"
  by (simp add: get_put)

lemma del_put: "ok m \<Longrightarrow> get (del (put m k v) k) = (get m)(k := None)"
  by (simp add: get_put get_del ok_put)

lemma fold_put:
  "ok m \<Longrightarrow> get (foldl (\<lambda>a (k, v). put a k v) m kvs) = get m ++ map_of (rev kvs)"
proof (induction kvs arbitrary: m)
  case (Cons kv kvs)
  then show ?case
    by (cases kv) (simp add: get_put ok_put map_add_def fun_eq_iff split: option.splits)
qed simp

lemma ok_fold_put: "ok m \<Longrightarrow> ok (foldl (\<lambda>a (k, v). put a k v) m kvs)"
  by (induction kvs arbitrary: m) (auto simp: ok_put)

end

interpretation gm: go_map gm_get gm_put gm_del gm_ok
  by unfold_locales (auto simp: gomap_simps)

section \<open>Lemmas on the binary search\<close>

lemma sort_search_loop_done [simp]: "sort_search_loop f j j = j"
  by (simp add: sort_search_loop.simps [of f j j])

lemma sort_search_loop_spec:
  assumes mono: "\<And>a b. a \<le> b \<Longrightarrow> b < n \<Longrightarrow> f a \<Longrightarrow> f b"
    and "i \<le> j" "j \<le> n" "\<And>k. k < i \<Longrightarrow> \<not> f k" "\<And>k. j \<le> k \<Longrightarrow> k < n \<Longrightarrow> f k"
  shows "sort_search_loop f i j \<le> n \<and> (\<forall>k < sort_search_loop f i j. \<not> f k) \<and>
    (\<forall>k. sort_search_loop f i j \<le> k \<and> k < n \<longrightarrow> f k)"
  using assms(2-)
proof (induction "j - i" arbitrary: i j rule: less_induct)
  case less
  let ?h = "i + (j - i) div 2"
  show ?case
  proof (cases "i < j")
    case True
    then have h: "i \<le> ?h" "?h < j" by auto
    show ?thesis
    proof (cases "f ?h")
      case True
      have "sort_search_loop f i ?h \<le> n \<and> (\<forall>k < sort_search_loop f i ?h. \<not> f k) \<and>
        (\<forall>k. sort_search_loop f i ?h \<le> k \<and> k < n \<longrightarrow> f k)"
        using less.prems h True by (intro less.hyps) (auto intro: mono [of ?h])
      with True \<open>i < j\<close> show ?thesis
        by (simp add: sort_search_loop.simps [of f i j] Let_def)
    next
      case False
      have "\<not> f k" if "k < ?h + 1" for k
        using that False h less.prems(2) mono [of k ?h] by auto
      then have "sort_search_loop f (?h + 1) j \<le> n \<and> (\<forall>k < sort_search_loop f (?h + 1) j. \<not> f k) \<and>
        (\<forall>k. sort_search_loop f (?h + 1) j \<le> k \<and> k < n \<longrightarrow> f k)"
        using less.prems h by (intro less.hyps) auto
      with False \<open>i < j\<close> show ?thesis
        by (simp add: sort_search_loop.simps [of f i j] Let_def)
    qed
  next
    case False
    with less.prems show ?thesis
      by simp
  qed
qed

lemma sort_search_spec:
  assumes "\<And>a b. a \<le> b \<Longrightarrow> b < n \<Longrightarrow> f a \<Longrightarrow> f b"
  shows "sort_search n f \<le> n" "k < sort_search n f \<Longrightarrow> \<not> f k"
    "sort_search n f \<le> k \<Longrightarrow> k < n \<Longrightarrow> f k"
  using sort_search_loop_spec [of n f 0 n] assms by (auto simp: sort_search_def)

lemma sort_search_le: "sort_search n f \<le> n"
proof -
  have "i \<le> j \<Longrightarrow> sort_search_loop f i j \<le> j" for i j
  proof (induction f i j rule: sort_search_loop.induct)
    case (1 f i j)
    then show ?case
      by (cases "i < j"; cases "f (i + (j - i) div 2)")
        (auto simp: sort_search_loop.simps [of f i j] Let_def intro: le_trans)
  qed
  then show ?thesis
    by (simp add: sort_search_def)
qed

text \<open>On a slice along which the predicate never turns false again, the search returns the length
  of the longest prefix on which it is false.\<close>

lemma sorted_wrt_imp_nth:
  assumes "sorted_wrt (\<lambda>x y. P x \<longrightarrow> P y) xs" "a \<le> b" "b < length xs" "P (xs ! a)"
  shows "P (xs ! b)"
proof (cases "a = b")
  case False
  with assms have "a < b" by simp
  then show ?thesis
    using assms sorted_wrt_nth_less [of "\<lambda>x y. P x \<longrightarrow> P y" xs a b] by blast
qed (use assms in simp)

lemma takeWhile_cut:
  assumes "s \<le> length xs \<and> (\<forall>k < s. \<not> P (xs ! k)) \<and> (\<forall>k. s \<le> k \<and> k < length xs \<longrightarrow> P (xs ! k))"
  shows "s = length (takeWhile (\<lambda>x. \<not> P x) xs)"
proof -
  have "takeWhile (\<lambda>x. \<not> P x) xs = take s xs"
  proof (rule takeWhile_eq_take_P_nth)
    show "\<And>i. i < s \<Longrightarrow> i < length xs \<Longrightarrow> \<not> P (xs ! i)" using assms by blast
    show "s < length xs \<Longrightarrow> \<not> \<not> P (xs ! s)" using assms by blast
  qed
  then show ?thesis
    using assms by simp
qed

lemma sort_search_takeWhile:
  assumes "sorted_wrt (\<lambda>x y. P x \<longrightarrow> P y) xs"
  shows "sort_search (length xs) (\<lambda>i. P (xs ! i)) = length (takeWhile (\<lambda>x. \<not> P x) xs)"
  unfolding sort_search_def
proof (rule takeWhile_cut, rule sort_search_loop_spec [where f = "\<lambda>i. P (xs ! i)"])
  show "P (xs ! b)" if "a \<le> b" "b < length xs" "P (xs ! a)" for a b
    using assms that by (rule sorted_wrt_imp_nth)
qed simp_all

lemma takeWhile_filter:
  "sorted_wrt (\<lambda>x y. P x \<longrightarrow> P y) xs \<Longrightarrow> takeWhile (\<lambda>x. \<not> P x) xs = filter (\<lambda>x. \<not> P x) xs"
  by (induction xs) (auto simp: filter_empty_conv)

lemma dropWhile_filter:
  "sorted_wrt (\<lambda>x y. P x \<longrightarrow> P y) xs \<Longrightarrow> dropWhile (\<lambda>x. \<not> P x) xs = filter P xs"
  by (induction xs) (auto intro: filter_True [symmetric])

lemma last_filter_upward:
  "sorted_wrt (\<lambda>x y. P x \<longrightarrow> P y) xs \<Longrightarrow> filter P xs \<noteq> [] \<Longrightarrow> last (filter P xs) = last xs"
  by (induction xs rule: rev_induct) (auto simp: sorted_wrt_append filter_empty_conv)

lemma take_sort_search:
  "sorted_wrt (\<lambda>x y. P x \<longrightarrow> P y) xs \<Longrightarrow>
     take (sort_search (length xs) (\<lambda>i. P (xs ! i))) xs = filter (\<lambda>x. \<not> P x) xs"
  by (metis sort_search_takeWhile takeWhile_eq_take takeWhile_filter)

lemma drop_sort_search:
  "sorted_wrt (\<lambda>x y. P x \<longrightarrow> P y) xs \<Longrightarrow>
     drop (sort_search (length xs) (\<lambda>i. P (xs ! i))) xs = filter P xs"
  by (simp add: sort_search_takeWhile dropWhile_eq_drop [symmetric] dropWhile_filter)

lemma sort_search_filter:
  "sorted_wrt (\<lambda>x y. P x \<longrightarrow> P y) xs \<Longrightarrow>
     sort_search (length xs) (\<lambda>i. P (xs ! i)) = length (filter (\<lambda>x. \<not> P x) xs)"
  by (simp add: sort_search_takeWhile takeWhile_filter)

lemma drop_length_filter:
  "sorted_wrt (\<lambda>x y. P x \<longrightarrow> P y) xs \<Longrightarrow> drop (length (filter (\<lambda>x. \<not> P x) xs)) xs = filter P xs"
  using drop_sort_search sort_search_filter by metis

section \<open>Lemmas on strings\<close>

lemma has_prefix_append: "has_prefix s p \<longleftrightarrow> (\<exists>t. s = p @ t)"
  unfolding has_prefix_def by (metis append_eq_conv_conj append_take_drop_id)

lemma has_prefix_self [simp]: "has_prefix (p @ t) p"
  by (simp add: has_prefix_def)

lemma str_contains_iff: "str_contains s p \<longleftrightarrow> (\<exists>a b. s = a @ p @ b)"
proof (induction s)
  case (Cons c s)
  have "(\<exists>a b. c # s = a @ p @ b) \<longleftrightarrow> (\<exists>b. c # s = p @ b) \<or> (\<exists>a b. s = a @ p @ b)"
    by (metis append_Cons append_Nil append_eq_Cons_conv)
  with Cons show ?case
    by (simp add: has_prefix_append)
qed auto

end
