(* ===== verification/Float64.thy ===== *)
theory Float64
  imports Complex_Main
begin

text \<open>
  The type \<open>float64\<close> of Go with the operations the sources use. A finite value is the rational number
  it denotes; the two zeros are one value, because no modelled code tells them apart (\<open>==\<close> identifies
  them, and nothing divides by or prints a zero). Comparisons follow IEEE 754: every comparison with a
  NaN is false. The arithmetic is that of IEEE 754 binary64: the exact result, rounded to the nearest
  representable value, ties to even, with gradual underflow and overflow to an infinity.

  The lemmas characterise the exponent of a positive rational, show that the rounding is monotone and
  evaluate it at a concrete number (\<open>rnd_eqI\<close>), so that a bound on an exact result carries over to the
  rounded one.
\<close>

text \<open>\<open>F_Inf True\<close> is plus infinity, \<open>F_Inf False\<close> minus infinity.\<close>

datatype float64 = F_NaN | F_Inf bool | F_Fin rat

definition f_zero :: float64 where
  "f_zero = F_Fin 0"

fun f_eq :: "float64 \<Rightarrow> float64 \<Rightarrow> bool" where
  "f_eq F_NaN y = False"
| "f_eq x F_NaN = False"
| "f_eq x y = (x = y)"

fun f_lt :: "float64 \<Rightarrow> float64 \<Rightarrow> bool" where
  "f_lt (F_Fin a) (F_Fin b) = (a < b)"
| "f_lt (F_Fin a) (F_Inf s) = s"
| "f_lt (F_Inf s) (F_Fin b) = (\<not> s)"
| "f_lt (F_Inf s) (F_Inf t) = (\<not> s \<and> t)"
| "f_lt x y = False"

definition f_le :: "float64 \<Rightarrow> float64 \<Rightarrow> bool" where
  "f_le x y \<longleftrightarrow> f_lt x y \<or> f_eq x y"

section \<open>Rounding\<close>

fun bit_length :: "nat \<Rightarrow> nat" where
  "bit_length n = (if n = 0 then 0 else Suc (bit_length (n div 2)))"

text \<open>The binary exponent of a positive rational.\<close>

definition f_exponent :: "rat \<Rightarrow> int" where
  "f_exponent x = (case quotient_of x of (p, q) \<Rightarrow>
     let e = int (bit_length (nat p)) - int (bit_length (nat q)) in
     if 2 powi e \<le> x then e else e - 1)"

text \<open>The nearest integer, ties to even.\<close>

definition rne :: "rat \<Rightarrow> int" where
  "rne r = (let f = \<lfloor>r\<rfloor>; d = r - of_int f in
     if d < 1 / 2 then f else if 1 / 2 < d then f + 1 else if even f then f else f + 1)"

text \<open>A positive number is rounded to a multiple of the unit in the last place of its binade: a significand of
  53 bits, exponents from \<open>-1022\<close>.\<close>

definition ulp :: "rat \<Rightarrow> rat" where
  "ulp x = 2 powi (max (- 1022) (f_exponent x) - 52)"

definition rnd_pos :: "rat \<Rightarrow> rat" where
  "rnd_pos x = of_int (rne (x / ulp x)) * ulp x"

definition rnd :: "rat \<Rightarrow> rat" where
  "rnd x = (if x = 0 then 0 else if 0 < x then rnd_pos x else - rnd_pos (- x))"

definition f_round :: "rat \<Rightarrow> float64" where
  "f_round x = (let r = rnd x in
     if r \<ge> 2 ^ 1024 then F_Inf True else if r \<le> - (2 ^ 1024) then F_Inf False else F_Fin r)"

section \<open>Arithmetic\<close>

fun f_neg :: "float64 \<Rightarrow> float64" where
  "f_neg F_NaN = F_NaN"
| "f_neg (F_Inf s) = F_Inf (\<not> s)"
| "f_neg (F_Fin a) = F_Fin (- a)"

fun f_add :: "float64 \<Rightarrow> float64 \<Rightarrow> float64" where
  "f_add (F_Fin a) (F_Fin b) = f_round (a + b)"
| "f_add (F_Inf s) (F_Inf t) = (if s = t then F_Inf s else F_NaN)"
| "f_add (F_Inf s) (F_Fin b) = F_Inf s"
| "f_add (F_Fin a) (F_Inf s) = F_Inf s"
| "f_add x y = F_NaN"

definition f_sub :: "float64 \<Rightarrow> float64 \<Rightarrow> float64" where
  "f_sub x y = f_add x (f_neg y)"

fun f_mul :: "float64 \<Rightarrow> float64 \<Rightarrow> float64" where
  "f_mul (F_Fin a) (F_Fin b) = f_round (a * b)"
| "f_mul (F_Inf s) (F_Inf t) = F_Inf (s = t)"
| "f_mul (F_Inf s) (F_Fin b) = (if b = 0 then F_NaN else F_Inf (s = (0 < b)))"
| "f_mul (F_Fin a) (F_Inf s) = (if a = 0 then F_NaN else F_Inf (s = (0 < a)))"
| "f_mul x y = F_NaN"

fun f_div :: "float64 \<Rightarrow> float64 \<Rightarrow> float64" where
  "f_div (F_Fin a) (F_Fin b) =
     (if b = 0 then (if a = 0 then F_NaN else F_Inf (0 < a)) else f_round (a / b))"
| "f_div (F_Fin a) (F_Inf s) = F_Fin 0"
| "f_div (F_Inf s) (F_Fin b) = F_Inf (s = (0 \<le> b))"
| "f_div x y = F_NaN"

text \<open>The conversion \<open>float64(i)\<close>, \<open>math.Ceil\<close>, and the conversion of a float to an integer, which the
  language only defines when the truncated value is in range.\<close>

definition f_of_int :: "int \<Rightarrow> float64" where
  "f_of_int i = f_round (of_int i)"

fun f_ceil :: "float64 \<Rightarrow> float64" where
  "f_ceil (F_Fin a) = F_Fin (of_int \<lceil>a\<rceil>)"
| "f_ceil x = x"

definition f_trunc :: "rat \<Rightarrow> int" where
  "f_trunc a = (if 0 \<le> a then \<lfloor>a\<rfloor> else \<lceil>a\<rceil>)"

fun f_to_int64 :: "float64 \<Rightarrow> int option" where
  "f_to_int64 (F_Fin a) =
     (if - (2 ^ 63) \<le> f_trunc a \<and> f_trunc a < 2 ^ 63 then Some (f_trunc a) else None)"
| "f_to_int64 x = None"

section \<open>Comparisons\<close>

lemma f_eq_refl_iff: "f_eq x x \<longleftrightarrow> x \<noteq> F_NaN"
  by (cases x) auto

lemma f_eq_iff: "f_eq x y \<longleftrightarrow> x = y \<and> x \<noteq> F_NaN"
  by (cases x; cases y) auto

lemma f_le_Fin [simp]: "f_le (F_Fin a) (F_Fin b) \<longleftrightarrow> a \<le> b"
  by (auto simp: f_le_def)

lemma f_le_NaN [simp]: "\<not> f_le F_NaN y" "\<not> f_le x F_NaN"
  by (cases x; cases y; simp add: f_le_def)+

section \<open>The exponent\<close>

declare bit_length.simps [simp del]

lemma bit_length_bounds: "0 < n \<Longrightarrow> 2 ^ (bit_length n - 1) \<le> n \<and> n < 2 ^ bit_length n"
proof (induction n rule: bit_length.induct)
  case (1 n)
  show ?case
  proof (cases "n div 2 = 0")
    case True
    then have "n = 1" using 1(2) by linarith
    then show ?thesis by (simp add: bit_length.simps)
  next
    case False
    then have ih: "2 ^ (bit_length (n div 2) - 1) \<le> n div 2" "n div 2 < 2 ^ bit_length (n div 2)"
      using 1 by auto
    have "bit_length (n div 2) \<noteq> 0"
      using False by (simp add: bit_length.simps [of "n div 2"])
    then have "2 ^ bit_length (n div 2) = (2 :: nat) * 2 ^ (bit_length (n div 2) - 1)"
      by (cases "bit_length (n div 2)") simp_all
    then show ?thesis
      using ih 1(2) by (simp add: bit_length.simps [of n]) linarith
  qed
qed

lemma bit_length_pos: "0 < n \<Longrightarrow> 0 < bit_length n"
  by (simp add: bit_length.simps)

lemma bit_length_bounds_rat:
  assumes "0 < p"
  shows "2 powi (int (bit_length (nat p)) - 1) \<le> (of_int p :: rat)"
    and "(of_int p :: rat) < 2 powi int (bit_length (nat p))"
proof -
  let ?b = "bit_length (nat p)"
  have b: "(2 :: nat) ^ (?b - 1) \<le> nat p" "nat p < 2 ^ ?b" "0 < ?b"
    using assms bit_length_bounds [of "nat p"] bit_length_pos [of "nat p"] by auto
  have "(2 :: int) ^ (?b - 1) \<le> p" "p < 2 ^ ?b"
    using b(1,2) assms by (simp_all add: nat_less_iff le_nat_iff)
  then have "(2 :: rat) ^ (?b - 1) \<le> of_int p" "of_int p < (2 :: rat) ^ ?b"
    by (metis of_int_le_iff of_int_numeral of_int_power) (metis \<open>p < 2 ^ ?b\<close> of_int_less_iff of_int_numeral of_int_power)
  moreover have "int ?b - 1 = int (?b - 1)"
    using b(3) by simp
  ultimately show "2 powi (int ?b - 1) \<le> (of_int p :: rat)" "(of_int p :: rat) < 2 powi int ?b"
    by (simp_all only: power_int_of_nat)
qed

lemma f_exponent_bounds:
  assumes "0 < x"
  shows "2 powi f_exponent x \<le> x \<and> x < 2 powi (f_exponent x + 1)"
proof -
  obtain p q where pq: "quotient_of x = (p, q)"
    by (cases "quotient_of x")
  then have x: "x = of_int p / of_int q" and q: "0 < q"
    using quotient_of_div quotient_of_denom_pos by auto
  then have p: "0 < p"
    using assms by (simp add: zero_less_divide_iff)
  define m n where "m = int (bit_length (nat p))" and "n = int (bit_length (nat q))"
  note P = bit_length_bounds_rat [OF p, folded m_def] and Q = bit_length_bounds_rat [OF q, folded n_def]
  have qpos: "(0 :: rat) < of_int q"
    using q by simp
  have "2 powi (m - n - 1) = (2 powi (m - 1) :: rat) / 2 powi n"
    by (simp add: power_int_diff)
  also have "\<dots> \<le> of_int p / of_int q"
    using P(1) Q(2) qpos p by (intro frac_le) auto
  finally have lo: "2 powi (m - n - 1) \<le> x"
    using x by simp
  have "of_int p / of_int q < (2 powi m :: rat) / 2 powi (n - 1)"
    using P Q qpos p by (intro frac_less) auto
  also have "\<dots> = 2 powi (m - n + 1)"
    by (simp add: power_int_diff power_int_add)
  finally have hi: "x < 2 powi (m - n + 1)"
    using x by simp
  show ?thesis
    using lo hi unfolding f_exponent_def pq by (auto simp: Let_def m_def n_def algebra_simps)
qed

lemma powi2_less_iff [simp]: "(2 :: rat) powi m < 2 powi n \<longleftrightarrow> m < n"
proof
  show "m < n" if "(2 :: rat) powi m < 2 powi n"
    using that power_int_increasing [of n m "2 :: rat"] by force
  show "(2 :: rat) powi m < 2 powi n" if "m < n"
    using that by (simp add: power_int_strict_increasing)
qed

lemma powi2_le_iff [simp]: "(2 :: rat) powi m \<le> 2 powi n \<longleftrightarrow> m \<le> n"
  using powi2_less_iff [of n m] by (simp only: linorder_not_less [symmetric])

lemma f_exponent_unique:
  assumes "0 < x" "2 powi e \<le> x" "x < 2 powi (e + 1)"
  shows "f_exponent x = e"
proof -
  note b = f_exponent_bounds [OF assms(1)]
  have "(2 :: rat) powi e < 2 powi (f_exponent x + 1)" "(2 :: rat) powi f_exponent x < 2 powi (e + 1)"
    using b assms by linarith+
  then show ?thesis
    unfolding powi2_less_iff by simp
qed

lemma f_exponent_mono:
  assumes "0 < x" "x \<le> y"
  shows "f_exponent x \<le> f_exponent y"
proof -
  have "(2 :: rat) powi f_exponent x < 2 powi (f_exponent y + 1)"
    using f_exponent_bounds [of x] f_exponent_bounds [of y] assms by linarith
  then show ?thesis
    by simp
qed

section \<open>Properties of the rounding\<close>

lemma rne_bounds: "\<lfloor>r\<rfloor> \<le> rne r" "rne r \<le> \<lfloor>r\<rfloor> + 1"
  by (simp_all add: rne_def Let_def)

lemma rne_mono:
  assumes "r \<le> s"
  shows "rne r \<le> rne s"
proof (cases "\<lfloor>r\<rfloor> = \<lfloor>s\<rfloor>")
  case True
  then show ?thesis
    using assms by (auto simp: rne_def Let_def)
next
  case False
  then have "\<lfloor>r\<rfloor> + 1 \<le> \<lfloor>s\<rfloor>"
    using floor_mono [OF assms] by linarith
  then show ?thesis
    using rne_bounds [of r] rne_bounds [of s] by linarith
qed

lemma rne_of_int [simp]: "rne (of_int k) = k"
  by (simp add: rne_def)

lemma rne_near:
  assumes "\<bar>r - of_int m\<bar> < 1 / 2"
  shows "rne r = m"
proof (cases "of_int m \<le> r")
  case True
  then have "\<lfloor>r\<rfloor> = m"
    using assms by (intro floor_unique) linarith+
  then show ?thesis
    using assms True by (simp add: rne_def)
next
  case False
  then have "\<lfloor>r\<rfloor> = m - 1"
    using assms by (intro floor_unique; simp only: of_int_diff of_int_1; linarith)
  then show ?thesis
    using assms False by (simp add: rne_def Let_def)
qed

lemma ulp_pos [simp]: "0 < ulp x"
  by (simp add: ulp_def zero_less_power_int)

lemma div_ulp_mono: "x \<le> y \<Longrightarrow> x / ulp z \<le> y / ulp z"
  by (rule divide_right_mono [OF _ order_less_imp_le [OF ulp_pos]])

lemma powi_div_ulp:
  assumes "m = max (- 1022) (f_exponent x)"
  shows "2 powi m / ulp x = of_int (2 ^ 52)" "2 powi (m + 1) / ulp x = of_int (2 ^ 53)"
  using assms by (simp_all add: ulp_def power_int_diff power_int_add)

lemma rnd_pos_le:
  assumes "0 < x"
  shows "rnd_pos x \<le> 2 powi (max (- 1022) (f_exponent x) + 1)"
proof -
  let ?m = "max (- 1022) (f_exponent x)"
  have "x \<le> 2 powi (f_exponent x + 1)"
    using f_exponent_bounds [OF assms] by simp
  also have "\<dots> \<le> 2 powi (?m + 1)"
    by simp
  finally have "x / ulp x \<le> 2 powi (?m + 1) / ulp x"
    by (rule div_ulp_mono)
  then have "rne (x / ulp x) \<le> 2 ^ 53"
    using rne_mono [of "x / ulp x" "of_int (2 ^ 53)"] powi_div_ulp(2) [OF refl, of x]
    by (simp only: rne_of_int)
  then have "of_int (rne (x / ulp x)) \<le> (2 powi (?m + 1) / ulp x :: rat)"
    unfolding powi_div_ulp(2) [OF refl] of_int_le_iff .
  then show ?thesis
    by (simp add: rnd_pos_def pos_le_divide_eq)
qed

lemma rnd_pos_ge:
  assumes "0 < x" "- 1022 \<le> f_exponent x"
  shows "2 powi f_exponent x \<le> rnd_pos x"
proof -
  have m: "f_exponent x = max (- 1022) (f_exponent x)"
    using assms(2) by simp
  have "2 powi f_exponent x / ulp x \<le> x / ulp x"
    using f_exponent_bounds [OF assms(1)] by (intro div_ulp_mono) simp
  then have "2 ^ 52 \<le> rne (x / ulp x)"
    using rne_mono [of "of_int (2 ^ 52)" "x / ulp x"] powi_div_ulp(1) [OF m]
    by (simp only: rne_of_int)
  then have "(2 powi f_exponent x / ulp x :: rat) \<le> of_int (rne (x / ulp x))"
    unfolding powi_div_ulp(1) [OF m] of_int_le_iff .
  then show ?thesis
    by (simp add: rnd_pos_def pos_divide_le_eq)
qed

lemma rnd_pos_mono:
  assumes "0 < x" "x \<le> y"
  shows "rnd_pos x \<le> rnd_pos y"
proof (cases "max (- 1022) (f_exponent x) = max (- 1022) (f_exponent y)")
  case True
  then have "ulp x = ulp y"
    by (simp add: ulp_def)
  then show ?thesis
    using rne_mono [OF div_ulp_mono [OF assms(2)], of y] by (simp add: rnd_pos_def)
next
  case False
  then have lt: "max (- 1022) (f_exponent x) < f_exponent y" "- 1022 \<le> f_exponent y"
    using f_exponent_mono [OF assms] by auto
  have "rnd_pos x \<le> 2 powi (max (- 1022) (f_exponent x) + 1)"
    using rnd_pos_le [OF assms(1)] .
  also have "\<dots> \<le> 2 powi f_exponent y"
    using lt(1) unfolding powi2_le_iff by linarith
  also have "\<dots> \<le> rnd_pos y"
    using rnd_pos_ge [of y] assms lt by simp
  finally show ?thesis .
qed

lemma rnd_pos_nonneg: "0 < x \<Longrightarrow> 0 \<le> rnd_pos x"
  using rne_mono [of "of_int 0" "x / ulp x"] ulp_pos [of x] unfolding rnd_pos_def rne_of_int
  by (simp add: order_less_imp_le)

lemma rnd_mono:
  assumes "x \<le> y"
  shows "rnd x \<le> rnd y"
proof -
  consider "0 < x" | "x \<le> 0" "0 \<le> y" | "y < 0"
    by linarith
  then show ?thesis
  proof cases
    case 1
    then show ?thesis
      using assms rnd_pos_mono [of x y] by (simp add: rnd_def)
  next
    case 2
    then show ?thesis
      using rnd_pos_nonneg [of y] rnd_pos_nonneg [of "- x"] by (auto simp: rnd_def)
  next
    case 3
    then show ?thesis
      using assms rnd_pos_mono [of "- y" "- x"] by (auto simp: rnd_def)
  qed
qed

lemma rnd_zero [simp]: "rnd 0 = 0"
  by (simp add: rnd_def)

text \<open>A dyadic number of at most 53 bits is representable.\<close>

lemma rnd_pos_dyadic:
  assumes "0 < m" "m < 2 ^ 53" "- 1074 \<le> k"
  shows "rnd_pos (of_int m * 2 powi k) = of_int m * 2 powi k"
proof -
  let ?x = "(of_int m * 2 powi k) :: rat"
  let ?e = "max (- 1022) (f_exponent ?x) - 52"
  have x: "0 < ?x"
    using assms(1) by simp
  have "(of_int m :: rat) < of_int (2 ^ 53)"
    using assms(2) by (simp only: of_int_less_iff)
  then have "?x < 2 powi (53 + k)"
    by (simp add: power_int_add)
  then have "(2 :: rat) powi f_exponent ?x < 2 powi (53 + k)"
    using f_exponent_bounds [OF x] by linarith
  then have "?e \<le> k"
    using assms(3) unfolding powi2_less_iff by linarith
  then have i: "2 powi (k - ?e) = (of_int (2 ^ nat (k - ?e)) :: rat)"
    by (simp only: power_int_nonneg_exp of_int_power of_int_numeral diff_ge_0_iff_ge)
  have u: "ulp ?x = 2 powi ?e"
    by (simp only: ulp_def)
  have d: "?x / ulp ?x = of_int (m * 2 ^ nat (k - ?e))"
    unfolding of_int_mult i [symmetric] u
    using power_int_diff [of "2 :: rat" k ?e] by simp
  show ?thesis
    unfolding rnd_pos_def d rne_of_int unfolding d [symmetric]
    using ulp_pos [of ?x] by (metis less_irrefl nonzero_divide_eq_eq)
qed

lemma rnd_dyadic:
  assumes "\<bar>m\<bar> < 2 ^ 53" "k \<le> 1074"
  shows "rnd (of_int m / 2 ^ k) = of_int m / 2 ^ k"
proof -
  have k: "x / 2 ^ k = x * 2 powi (- int k)" for x :: rat
    by (simp add: power_int_minus divide_inverse)
  have "rnd_pos (of_int n * 2 powi (- int k)) = of_int n * 2 powi (- int k)" if "0 < n" "n < 2 ^ 53" for n
    using rnd_pos_dyadic [OF that, of "- int k"] assms(2) by simp
  from this [of m] this [of "- m"] have "rnd_pos (of_int n * 2 powi (- int k)) = of_int n * 2 powi (- int k)"
      if "n = \<bar>m\<bar>" "m \<noteq> 0" for n
    using that assms(1) by (cases "0 < m") auto
  moreover have "(0 :: rat) < 2 powi (- int k)" "\<not> (2 :: rat) powi (- int k) < 0"
    using zero_less_power_int [of "2 :: rat" "- int k"] by (simp_all only: not_less less_imp_le)
  ultimately show ?thesis
    unfolding k rnd_def
    by (cases "0 < m"; cases "m = 0") (simp_all add: zero_less_mult_iff abs_if)
qed

lemma rnd_dyadic_up:
  assumes "\<bar>m\<bar> < 2 ^ 53"
  shows "rnd (of_int m * 2 ^ k) = of_int m * 2 ^ k"
proof -
  have p: "rnd_pos (of_int n * 2 ^ k) = of_int n * 2 ^ k" if "0 < n" "n < 2 ^ 53" for n
    using rnd_pos_dyadic [OF that, of "int k"] by (simp add: power_int_of_nat)
  show ?thesis
    using p [of m] p [of "- m"] assms by (cases "m = 0"; cases "0 < m") (simp_all add: rnd_def zero_less_mult_iff)
qed

text \<open>The value of the rounding at a concrete positive number.\<close>

lemma rnd_eqI:
  assumes "2 powi e \<le> x" "x < 2 powi (e + 1)" "- 1022 \<le> e"
    and "\<bar>x / 2 powi (e - 52) - of_int m\<bar> < 1 / 2"
  shows "rnd x = of_int m * 2 powi (e - 52)"
proof -
  have x: "0 < x"
    using assms(1) zero_less_power_int [of "2 :: rat" e] by linarith
  then have "ulp x = 2 powi (e - 52)"
    using f_exponent_unique [OF x assms(1,2)] assms(3) by (simp add: ulp_def)
  then show ?thesis
    using x rne_near [OF assms(4)] by (simp add: rnd_def rnd_pos_def)
qed

section \<open>Interval bounds in units of \<open>2\<^sup>-\<^sup>5\<^sup>0\<close>\<close>

text \<open>An exact result between representable numbers of the finite range rounds to a finite value between them.\<close>

lemma f_round_bounds:
  assumes "a \<le> x" "x \<le> b" "rnd a = a" "rnd b = b" "- (2 ^ 1024) < a" "b < 2 ^ 1024"
  shows "\<exists>r. f_round x = F_Fin r \<and> a \<le> r \<and> r \<le> b"
proof -
  have "a \<le> rnd x" "rnd x \<le> b"
    using rnd_mono [OF assms(1)] rnd_mono [OF assms(2)] assms(3,4) by auto
  then show ?thesis
    using assms(5,6) by (auto simp: f_round_def Let_def)
qed

definition f_btw :: "int \<Rightarrow> float64 \<Rightarrow> int \<Rightarrow> bool" where
  "f_btw a x b \<longleftrightarrow> (\<exists>r. x = F_Fin r \<and> of_int a / 2 ^ 50 \<le> r \<and> r \<le> of_int b / 2 ^ 50)"

lemma f_btw_round:
  assumes "of_int a / 2 ^ 50 \<le> x" "x \<le> of_int b / 2 ^ 50" "\<bar>a\<bar> < 2 ^ 53" "\<bar>b\<bar> < 2 ^ 53"
  shows "f_btw a (f_round x) b"
proof -
  have big: "\<bar>of_int m / 2 ^ 50\<bar> < (2 ^ 1024 :: rat)" if "\<bar>m\<bar> < 2 ^ 53" for m
  proof -
    have "\<bar>of_int m :: rat\<bar> < of_int (2 ^ 53)"
      using that by (simp only: of_int_abs [symmetric] of_int_less_iff)
    then have "\<bar>of_int m / 2 ^ 50\<bar> < (2 ^ 53 :: rat)"
      by simp
    also have "\<dots> < 2 ^ 1024"
      by (rule power_strict_increasing) simp_all
    finally show ?thesis .
  qed
  show ?thesis
    unfolding f_btw_def using big [OF assms(3)] big [OF assms(4)]
    by (intro f_round_bounds assms(1,2) rnd_dyadic assms(3,4)) (simp_all only: abs_less_iff, simp_all)
qed

lemma f_btw_add:
  assumes "f_btw a x b" "f_btw c y d" "\<bar>a + c\<bar> < 2 ^ 53" "\<bar>b + d\<bar> < 2 ^ 53"
  shows "f_btw (a + c) (f_add x y) (b + d)"
proof -
  obtain r s where "x = F_Fin r" "of_int a / 2 ^ 50 \<le> r" "r \<le> of_int b / 2 ^ 50"
      "y = F_Fin s" "of_int c / 2 ^ 50 \<le> s" "s \<le> of_int d / 2 ^ 50"
    using assms(1,2) unfolding f_btw_def by blast
  then show ?thesis
    using f_btw_round [of "a + c" "r + s" "b + d"] assms(3,4) by (simp add: add_divide_distrib)
qed

lemma f_btw_neg: "f_btw a x b \<Longrightarrow> f_btw (- b) (f_neg x) (- a)"
  by (auto simp: f_btw_def)

lemma f_btw_sub:
  "f_btw a x b \<Longrightarrow> f_btw c y d \<Longrightarrow> \<bar>a - d\<bar> < 2 ^ 53 \<Longrightarrow> \<bar>b - c\<bar> < 2 ^ 53 \<Longrightarrow>
     f_btw (a - d) (f_sub x y) (b - c)"
  using f_btw_add [OF _ f_btw_neg, of a x b c y d] by (simp add: f_sub_def)

lemma unit_mono: "a \<le> b \<Longrightarrow> (of_int a :: rat) / 2 ^ 50 \<le> of_int b / 2 ^ 50"
  by (simp add: divide_right_mono)

lemma f_btw_less:
  assumes "f_btw a x b" "f_btw c y d" "b < c"
  shows "f_lt x y"
proof -
  have "(of_int b :: rat) / 2 ^ 50 < of_int c / 2 ^ 50"
    using assms(3) by (simp add: divide_strict_right_mono)
  then show ?thesis
    using assms(1,2) by (auto simp: f_btw_def)
qed

lemma f_btw_mono:
  assumes "f_btw a x b" "c \<le> a" "b \<le> d"
  shows "f_btw c x d"
  using assms(1) unit_mono [OF assms(2)] unit_mono [OF assms(3)]
  unfolding f_btw_def by (elim exE) (auto intro: order_trans)

end
