(* ===== verification/Model_Types.thy ===== *)
theory Model_Types
  imports Go_Prelude Float64 "HOL-Library.Multiset"
begin

unbundle bit_operations_syntax

text \<open>
  The data of package \<open>github.com/prometheus/common/model\<close> (vendored under
  \<open>src/vendor/github.com/prometheus/common/model\<close>) that the program's own packages pass around:
  times, sample pairs, label sets and the two FNV-1a fingerprints of a label set. Names of label
  sets are strings of bytes. The fingerprints are shown to depend on the entries of a label set
  only, never on the order in which a range loop visits them.
\<close>

section \<open>Times\<close>

type_synonym Time = int
type_synonym Duration = int

definition Earliest :: Time where
  "Earliest = MinInt64"

definition Latest :: Time where
  "Latest = MaxInt64"

definition time_Before :: "Time \<Rightarrow> Time \<Rightarrow> bool" where
  "time_Before t u \<longleftrightarrow> t < u"

definition time_After :: "Time \<Rightarrow> Time \<Rightarrow> bool" where
  "time_After t u \<longleftrightarrow> t > u"

text \<open>A \<open>time.Duration\<close> counts nanoseconds, a \<open>model.Time\<close> milliseconds.\<close>

definition time_Add :: "Time \<Rightarrow> Duration \<Rightarrow> Time" where
  "time_Add t d = wrap64 (t + go_div d 1000000)"

definition time_Sub :: "Time \<Rightarrow> Time \<Rightarrow> Duration" where
  "time_Sub t u = wrap64 (wrap64 (t - u) * 1000000)"

definition TimeFromUnixNano :: "int \<Rightarrow> Time" where
  "TimeFromUnixNano t = go_div t 1000000"

section \<open>Label sets, samples and streams\<close>

type_synonym LabelName = string
type_synonym LabelValue = string
type_synonym LabelSet = "(LabelName, LabelValue) gomap"

record SamplePair =
  sp_Timestamp :: Time
  sp_Value :: float64

record Sample =
  s_Metric :: LabelSet
  s_Value :: float64
  s_Timestamp :: Time

record SampleStream =
  ss_Metric :: LabelSet
  ss_Values :: "SamplePair list"

definition ZeroSamplePair :: SamplePair where
  "ZeroSamplePair = \<lparr>sp_Timestamp = Earliest, sp_Value = f_zero\<rparr>"

text \<open>Go's \<open>==\<close> on sample pairs compares the fields, the value as a float.\<close>

definition sp_eq :: "SamplePair \<Rightarrow> SamplePair \<Rightarrow> bool" where
  "sp_eq p q \<longleftrightarrow> sp_Timestamp p = sp_Timestamp q \<and> f_eq (sp_Value p) (sp_Value q)"

definition labelset_Clone :: "LabelSet \<Rightarrow> LabelSet" where
  "labelset_Clone ls = foldl (\<lambda>acc (nm, vl). gm_put acc nm vl) [] ls"

section \<open>Fingerprints\<close>

type_synonym Fingerprint = "64 word"

definition hashNew :: "64 word" where
  "hashNew = 14695981039346656037"

definition hashAddByte :: "64 word \<Rightarrow> 64 word \<Rightarrow> 64 word" where
  "hashAddByte h b = (h XOR b) * 1099511628211"

fun hashAdd :: "64 word \<Rightarrow> string \<Rightarrow> 64 word" where
  "hashAdd h [] = h"
| "hashAdd h (c # s) = hashAdd (hashAddByte h (of_char c)) s"

definition SeparatorByte :: "64 word" where
  "SeparatorByte = 255"

fun fingerprint_loop :: "LabelSet \<Rightarrow> LabelName list \<Rightarrow> 64 word \<Rightarrow> 64 word" where
  "fingerprint_loop ls [] h = h"
| "fingerprint_loop ls (nm # nms) h =
     fingerprint_loop ls nms
       (hashAddByte (hashAdd (hashAddByte (hashAdd h nm) SeparatorByte) (gm_str ls nm))
         SeparatorByte)"

definition labelset_Fingerprint :: "LabelSet \<Rightarrow> Fingerprint" where
  "labelset_Fingerprint ls =
     (if ls = [] then hashNew else fingerprint_loop ls (sort (map fst ls)) hashNew)"

definition fastfp_entry :: "LabelName \<times> LabelValue \<Rightarrow> 64 word \<Rightarrow> 64 word" where
  "fastfp_entry kv result =
     result XOR hashAdd (hashAddByte (hashAdd hashNew (fst kv)) SeparatorByte) (snd kv)"

definition labelset_FastFingerprint :: "LabelSet \<Rightarrow> Fingerprint" where
  "labelset_FastFingerprint ls = (if ls = [] then hashNew else fold fastfp_entry ls 0)"

section \<open>Lemmas\<close>

lemmas time_defs = time_Before_def time_After_def Earliest_def Latest_def

lemma Earliest_le: "int64 t \<Longrightarrow> Earliest \<le> t"
  by (simp add: int64_def Earliest_def MinInt64_def)

lemma le_Latest: "int64 t \<Longrightarrow> t \<le> Latest"
  by (simp add: int64_def Latest_def MaxInt64_def)

lemma sp_eq_Zero_iff: "sp_eq p ZeroSamplePair \<longleftrightarrow> p = ZeroSamplePair"
  by (cases p) (auto simp: sp_eq_def ZeroSamplePair_def f_eq_iff f_zero_def)

lemma map_of_rev_ok: "gm_ok m \<Longrightarrow> map_of (rev m) = map_of m"
  unfolding gm_ok_def by (rule ext) (metis map_of_eqI map_of_inject_set distinct_rev rev_map set_rev)

lemma gm_get_Clone [gomap_simps]: "gm_ok ls \<Longrightarrow> gm_get (labelset_Clone ls) = gm_get ls"
  using gm.fold_put [of "[]" ls] by (simp add: labelset_Clone_def map_of_rev_ok gm_get_def [abs_def])

lemma gm_ok_Clone [simp, intro]: "gm_ok (labelset_Clone ls)"
  unfolding labelset_Clone_def by (rule gm.ok_fold_put) simp

lemma gm_ok_mset:
  assumes "gm_ok m" "gm_ok n" "gm_same m n"
  shows "mset m = mset n"
proof -
  have "distinct m" "distinct n"
    using assms by (auto simp: gm_ok_def distinct_map)
  then show ?thesis
    using gm_same_set [OF assms] by (simp add: set_eq_iff_mset_eq_distinct)
qed

text \<open>The fast fingerprint XORs the hashes of the entries, so the order of the range loop does not
  matter; the slow one sorts the names first.\<close>

lemma fastfp_entry_commute: "fastfp_entry x \<circ> fastfp_entry y = fastfp_entry y \<circ> fastfp_entry x"
  by (simp add: fun_eq_iff fastfp_entry_def ac_simps)

lemma FastFingerprint_same:
  assumes "gm_ok m" "gm_ok n" "gm_same m n"
  shows "labelset_FastFingerprint m = labelset_FastFingerprint n"
proof -
  have ms: "mset m = mset n"
    by (rule gm_ok_mset [OF assms])
  then have "fold fastfp_entry m = fold fastfp_entry n"
    by (intro fold_multiset_equiv) (simp_all add: fastfp_entry_commute)
  moreover have "m = [] \<longleftrightarrow> n = []"
    using ms by auto
  ultimately show ?thesis
    by (simp add: labelset_FastFingerprint_def)
qed

lemma fingerprint_loop_same:
  "gm_same m n \<Longrightarrow> fingerprint_loop m nms h = fingerprint_loop n nms h"
  by (induction nms arbitrary: h) (simp_all add: gm_str_def gm_same_def)

lemma Fingerprint_same:
  assumes "gm_ok m" "gm_ok n" "gm_same m n"
  shows "labelset_Fingerprint m = labelset_Fingerprint n"
proof -
  have ms: "mset m = mset n"
    by (rule gm_ok_mset [OF assms])
  then have "mset (map fst m) = mset (map fst n)"
    by simp
  then have "sort (map fst m) = sort (map fst n)"
    by (metis mset_sort properties_for_sort sorted_sort)
  moreover have "m = [] \<longleftrightarrow> n = []"
    using ms by auto
  ultimately show ?thesis
    using fingerprint_loop_same [OF assms(3)] by (simp add: labelset_Fingerprint_def)
qed

text \<open>Both fingerprints are functions of the content of a label set: the interface the sharding of
  the queue manager and the fan-in of query results rely on.\<close>

locale label_hash =
  fixes hash :: "LabelSet \<Rightarrow> 64 word"
  assumes hash_same: "gm_ok m \<Longrightarrow> gm_ok n \<Longrightarrow> gm_same m n \<Longrightarrow> hash m = hash n"
begin

lemma hash_Clone: "gm_ok m \<Longrightarrow> hash (labelset_Clone m) = hash m"
  by (rule hash_same) (auto simp: gm_same_def gomap_simps)

lemma shard_stable:
  "gm_ok m \<Longrightarrow> gm_ok n \<Longrightarrow> gm_same m n \<Longrightarrow> hash m mod k = hash n mod k"
  using hash_same by metis

end

interpretation slow: label_hash labelset_Fingerprint
  by unfold_locales (rule Fingerprint_same)

interpretation fast: label_hash labelset_FastFingerprint
  by unfold_locales (rule FastFingerprint_same)

end
