(* ===== verification/Series_Iterator.thy ===== *)
theory Series_Iterator
  imports Model_Types
begin

text \<open>
  The interface \<open>local.SeriesIterator\<close>, as a record of its methods, its contract as a locale, and
  the implementation \<open>sampleStreamIterator\<close> of \<open>src/storage/remote/iterator.go\<close>, which serves the
  samples of one time series out of a slice by binary search.

  \<open>it_Metric\<close> is the label set that \<open>it.Metric().Metric\<close> denotes.
\<close>

record Interval =
  OldestInclusive :: Time
  NewestInclusive :: Time

record SeriesIterator =
  it_ValueAtOrBeforeTime :: "Time \<Rightarrow> SamplePair"
  it_RangeValues :: "Interval \<Rightarrow> panic + SamplePair list"
  it_Metric :: "panic + LabelSet"

section \<open>The iterator over a sample stream\<close>

definition ssi_ValueAtOrBeforeTime :: "SampleStream \<Rightarrow> Time \<Rightarrow> SamplePair" where
  "ssi_ValueAtOrBeforeTime ss ts =
     (let i = sort_search (length (ss_Values ss))
                (\<lambda>n. time_After (sp_Timestamp (ss_Values ss ! n)) ts)
      in if i = 0 then ZeroSamplePair else ss_Values ss ! (i - 1))"

definition ssi_RangeValues :: "SampleStream \<Rightarrow> Interval \<Rightarrow> panic + SamplePair list" where
  "ssi_RangeValues ss iv =
     (let n = length (ss_Values ss);
          start = sort_search n
            (\<lambda>i. \<not> time_Before (sp_Timestamp (ss_Values ss ! i)) (OldestInclusive iv));
          end = sort_search n
            (\<lambda>i. time_After (sp_Timestamp (ss_Values ss ! i)) (NewestInclusive iv))
      in if start = n then Inr [] else go_slice (ss_Values ss) start end)"

definition sampleStreamIterator :: "SampleStream \<Rightarrow> SeriesIterator" where
  "sampleStreamIterator ss =
     \<lparr>it_ValueAtOrBeforeTime = ssi_ValueAtOrBeforeTime ss,
      it_RangeValues = ssi_RangeValues ss,
      it_Metric = Inr (ss_Metric ss)\<rparr>"

section \<open>What a series iterator promises\<close>

definition in_interval :: "Interval \<Rightarrow> SamplePair \<Rightarrow> bool" where
  "in_interval iv p \<longleftrightarrow> OldestInclusive iv \<le> sp_Timestamp p \<and> sp_Timestamp p \<le> NewestInclusive iv"

text \<open>The last sample at or before a time, and the pseudo zero pair where there is none.\<close>

definition last_at :: "SamplePair list \<Rightarrow> Time \<Rightarrow> SamplePair" where
  "last_at vs t =
     (let ws = filter (\<lambda>p. sp_Timestamp p \<le> t) vs in if ws = [] then ZeroSamplePair else last ws)"

definition time_sorted :: "SamplePair list \<Rightarrow> bool" where
  "time_sorted vs \<longleftrightarrow> sorted_wrt (\<lambda>p q. sp_Timestamp p < sp_Timestamp q) vs"

text \<open>A well-formed stream: timestamps strictly increase and stay strictly between the two
  sentinels \<open>Earliest\<close> and \<open>Latest\<close>.\<close>

definition stream_ok :: "SamplePair list \<Rightarrow> bool" where
  "stream_ok vs \<longleftrightarrow> time_sorted vs \<and>
     list_all (\<lambda>p. Earliest < sp_Timestamp p \<and> sp_Timestamp p < Latest) vs"

definition ordered :: "Interval \<Rightarrow> bool" where
  "ordered iv \<longleftrightarrow> OldestInclusive iv \<le> NewestInclusive iv"

section \<open>Lemmas on streams\<close>

lemma time_sorted_Nil [simp]: "time_sorted []"
  by (simp add: time_sorted_def)

lemma time_sorted_filter [intro]: "time_sorted vs \<Longrightarrow> time_sorted (filter P vs)"
  by (simp add: time_sorted_def sorted_wrt_filter)

lemma stream_ok_filter [intro]: "stream_ok vs \<Longrightarrow> stream_ok (filter P vs)"
  by (auto simp: stream_ok_def list_all_iff)

lemma time_sorted_imp:
  assumes "time_sorted vs" "\<And>p q. sp_Timestamp p < sp_Timestamp q \<Longrightarrow> P p \<Longrightarrow> P q"
  shows "sorted_wrt (\<lambda>p q. P p \<longrightarrow> P q) vs"
  using assms(1) unfolding time_sorted_def
  by (rule sorted_wrt_mono_rel [rotated]) (use assms(2) in blast)

lemma filter_interval:
  "filter (in_interval iv) vs =
     filter (\<lambda>p. OldestInclusive iv \<le> sp_Timestamp p)
       (filter (\<lambda>p. sp_Timestamp p \<le> NewestInclusive iv) vs)"
  by (simp add: in_interval_def [abs_def] conj_commute)

lemma time_sorted_last: "time_sorted vs \<Longrightarrow> p \<in> set vs \<Longrightarrow> sp_Timestamp p \<le> sp_Timestamp (last vs)"
  by (induction vs rule: rev_induct) (auto simp: time_sorted_def sorted_wrt_append)

lemma last_at_cases:
  obtains "last_at vs t = ZeroSamplePair" "\<And>p. p \<in> set vs \<Longrightarrow> t < sp_Timestamp p"
  | "last_at vs t \<in> set vs" "sp_Timestamp (last_at vs t) \<le> t"
proof (cases "filter (\<lambda>p. sp_Timestamp p \<le> t) vs = []")
  case True
  then show ?thesis
    using that(1) by (auto simp: last_at_def filter_empty_conv not_le)
next
  case False
  then have "last_at vs t \<in> set (filter (\<lambda>p. sp_Timestamp p \<le> t) vs)"
    by (simp add: last_at_def Let_def del: set_filter)
  then show ?thesis
    using that(2) by auto
qed

lemma last_at_ge:
  assumes "time_sorted vs" "p \<in> set vs" "sp_Timestamp p \<le> t"
  shows "sp_Timestamp p \<le> sp_Timestamp (last_at vs t)"
proof -
  let ?ws = "filter (\<lambda>p. sp_Timestamp p \<le> t) vs"
  have "p \<in> set ?ws" "time_sorted ?ws"
    using assms by auto
  moreover from this have "last_at vs t = last ?ws"
    by (auto simp: last_at_def Let_def filter_empty_conv)
  ultimately show ?thesis
    using time_sorted_last [of ?ws p] by simp
qed

lemma last_at_mono:
  assumes "stream_ok vs" "t \<le> u"
  shows "sp_Timestamp (last_at vs t) \<le> sp_Timestamp (last_at vs u)"
proof (cases rule: last_at_cases [of vs t])
  case 1
  moreover have "Earliest \<le> sp_Timestamp (last_at vs u)"
    using assms(1) by (cases rule: last_at_cases [of vs u])
      (auto simp: ZeroSamplePair_def stream_ok_def list_all_iff)
  ultimately show ?thesis
    by (simp add: ZeroSamplePair_def)
next
  case 2
  then show ?thesis
    using assms by (intro last_at_ge) (auto simp: stream_ok_def)
qed

section \<open>The contract\<close>

locale series_iterator =
  fixes value_at :: "'it \<Rightarrow> Time \<Rightarrow> SamplePair"
    and range_values :: "'it \<Rightarrow> Interval \<Rightarrow> panic + SamplePair list"
    and samples :: "'it \<Rightarrow> SamplePair list"
    and ok :: "'it \<Rightarrow> bool"
  assumes samples_ok: "ok it \<Longrightarrow> stream_ok (samples it)"
    and value_at: "ok it \<Longrightarrow> value_at it t = last_at (samples it) t"
    and range_values: "ok it \<Longrightarrow> ordered iv \<Longrightarrow>
      range_values it iv = Inr (filter (in_interval iv) (samples it))"
begin

text \<open>The two methods agree: the value at the end of a non-empty range is the range's last.\<close>

lemma value_at_end:
  assumes "ok it" "ordered iv" "range_values it iv = Inr vs" "vs \<noteq> []"
  shows "value_at it (NewestInclusive iv) = last vs"
proof -
  let ?ws = "filter (\<lambda>p. sp_Timestamp p \<le> NewestInclusive iv) (samples it)"
  have vs: "vs = filter (\<lambda>p. OldestInclusive iv \<le> sp_Timestamp p) ?ws"
    using range_values [OF assms(1,2)] assms(3) filter_interval by simp
  have "time_sorted ?ws"
    using samples_ok [OF assms(1)] by (auto simp: stream_ok_def)
  then have "last vs = last ?ws"
    unfolding vs using assms(4) vs by (intro last_filter_upward time_sorted_imp) auto
  moreover have "?ws \<noteq> []"
    using assms(4) vs by (metis filter.simps(1))
  ultimately show ?thesis
    using value_at [OF assms(1)] by (simp add: last_at_def Let_def)
qed

text \<open>A larger range extends a smaller one: the values of the inner interval are the values of the
  outer interval that lie in it.\<close>

lemma range_values_sub:
  assumes "ok it" "ordered iv" "ordered jv"
    and "OldestInclusive jv \<le> OldestInclusive iv" "NewestInclusive iv \<le> NewestInclusive jv"
    and "range_values it jv = Inr vs"
  shows "range_values it iv = Inr (filter (in_interval iv) vs)"
proof -
  have "filter (in_interval iv) (samples it) = filter (in_interval iv) (filter (in_interval jv) (samples it))"
    using assms(4,5) by (auto simp: in_interval_def intro!: filter_cong)
  then show ?thesis
    using range_values [OF assms(1,2)] range_values [OF assms(1,3)] assms(6) by simp
qed

lemma range_values_sorted:
  "ok it \<Longrightarrow> ordered iv \<Longrightarrow> range_values it iv = Inr vs \<Longrightarrow> stream_ok vs"
  using range_values samples_ok by auto

lemma value_at_mono:
  assumes "ok it" "t \<le> u"
  shows "sp_Timestamp (value_at it t) \<le> sp_Timestamp (value_at it u)"
  using assms samples_ok value_at last_at_mono by simp

end

section \<open>The sample stream iterator keeps the contract\<close>

lemma ssi_value_correct:
  assumes "time_sorted (ss_Values ss)"
  shows "ssi_ValueAtOrBeforeTime ss t = last_at (ss_Values ss) t"
proof -
  let ?vs = "ss_Values ss" and ?P = "\<lambda>p. time_After (sp_Timestamp p) t"
  let ?i = "sort_search (length ?vs) (\<lambda>n. ?P (?vs ! n))"
  have "sorted_wrt (\<lambda>p q. ?P p \<longrightarrow> ?P q) ?vs"
    using assms by (rule time_sorted_imp) (simp add: time_After_def)
  then have tk: "take ?i ?vs = filter (\<lambda>p. sp_Timestamp p \<le> t) ?vs"
    using take_sort_search [of ?P ?vs] by (simp add: time_After_def not_less)
  have "?i \<le> length ?vs"
    by (rule sort_search_le)
  then show ?thesis
    unfolding ssi_ValueAtOrBeforeTime_def last_at_def Let_def tk [symmetric]
    by (auto simp: last_conv_nth)
qed

lemma ssi_bounds:
  assumes "time_sorted vs"
  shows "sort_search (length vs) (\<lambda>i. \<not> time_Before (sp_Timestamp (vs ! i)) t) =
      length (filter (\<lambda>p. sp_Timestamp p < t) vs)"
    and "sort_search (length vs) (\<lambda>i. time_After (sp_Timestamp (vs ! i)) t) =
      length (filter (\<lambda>p. sp_Timestamp p \<le> t) vs)"
  using sort_search_filter [of "\<lambda>p. \<not> time_Before (sp_Timestamp p) t" vs]
    sort_search_filter [of "\<lambda>p. time_After (sp_Timestamp p) t" vs]
    time_sorted_imp [OF assms, of "\<lambda>p. \<not> time_Before (sp_Timestamp p) t"]
    time_sorted_imp [OF assms, of "\<lambda>p. time_After (sp_Timestamp p) t"]
  by (auto simp: time_Before_def time_After_def not_less not_le)

lemma filter_le_take:
  assumes "time_sorted vs"
  shows "take (length (filter (\<lambda>p. sp_Timestamp p \<le> t) vs)) vs = filter (\<lambda>p. sp_Timestamp p \<le> t) vs"
  using take_sort_search [of "\<lambda>p. time_After (sp_Timestamp p) t" vs]
    time_sorted_imp [OF assms, of "\<lambda>p. time_After (sp_Timestamp p) t"] ssi_bounds(2) [OF assms, of t]
  by (auto simp: time_After_def not_less)

lemma ssi_range_correct:
  assumes "time_sorted (ss_Values ss)" "ordered iv"
  shows "ssi_RangeValues ss iv = Inr (filter (in_interval iv) (ss_Values ss))"
proof -
  let ?vs = "ss_Values ss" and ?o = "OldestInclusive iv" and ?n = "NewestInclusive iv"
  let ?ws = "filter (\<lambda>p. sp_Timestamp p \<le> ?n) ?vs"
  have pre: "filter (\<lambda>p. sp_Timestamp p < ?o) ?ws = filter (\<lambda>p. sp_Timestamp p < ?o) ?vs"
    using assms(2) by (auto simp: ordered_def intro!: filter_cong)
  have dr: "drop (length (filter (\<lambda>p. sp_Timestamp p < ?o) ?ws)) ?ws = filter (in_interval iv) ?vs"
    using drop_length_filter [of "\<lambda>p. ?o \<le> sp_Timestamp p" ?ws] filter_interval [of iv ?vs]
      time_sorted_imp [OF time_sorted_filter [OF assms(1)], of "\<lambda>p. ?o \<le> sp_Timestamp p"]
    by (simp add: not_le)
  have le: "length (filter (\<lambda>p. sp_Timestamp p < ?o) ?vs) \<le> length ?ws"
    using pre length_filter_le by metis
  show ?thesis
  proof (cases "length (filter (\<lambda>p. sp_Timestamp p < ?o) ?vs) = length ?vs")
    case True
    then have "\<forall>p \<in> set ?vs. sp_Timestamp p < ?o"
      by (metis (lifting) length_filter_less less_irrefl)
    then have "filter (in_interval iv) ?vs = []"
      by (auto simp: filter_empty_conv in_interval_def)
    with True show ?thesis
      by (simp add: ssi_RangeValues_def ssi_bounds [OF assms(1)])
  next
    case False
    with le show ?thesis
      using dr [unfolded pre]
      by (simp add: ssi_RangeValues_def ssi_bounds [OF assms(1)] go_slice_def filter_le_take [OF assms(1)])
  qed
qed

interpretation ssi: series_iterator ssi_ValueAtOrBeforeTime ssi_RangeValues ss_Values
  "\<lambda>ss. stream_ok (ss_Values ss)"
  by unfold_locales (auto simp: stream_ok_def ssi_value_correct ssi_range_correct)


section \<open>Iterators behind the interface\<close>

text \<open>What an interface value promises: the samples it holds are what it returns for the interval
  that covers all times, and its methods answer from them.\<close>

definition full_interval :: Interval where
  "full_interval = \<lparr>OldestInclusive = Earliest, NewestInclusive = Latest\<rparr>"

definition it_samples :: "SeriesIterator \<Rightarrow> SamplePair list" where
  "it_samples it = (case it_RangeValues it full_interval of Inr vs \<Rightarrow> vs | Inl _ \<Rightarrow> [])"

definition it_ok :: "SeriesIterator \<Rightarrow> bool" where
  "it_ok it \<longleftrightarrow> stream_ok (it_samples it) \<and>
     (\<forall>t. it_ValueAtOrBeforeTime it t = last_at (it_samples it) t) \<and>
     (\<forall>iv. ordered iv \<longrightarrow> it_RangeValues it iv = Inr (filter (in_interval iv) (it_samples it)))"

interpretation iface: series_iterator it_ValueAtOrBeforeTime it_RangeValues it_samples it_ok
  by unfold_locales (auto simp: it_ok_def)

lemma ordered_full [simp]: "ordered full_interval"
  by (simp add: ordered_def full_interval_def Earliest_def Latest_def MinInt64_def MaxInt64_def)

lemma filter_full_interval: "stream_ok vs \<Longrightarrow> filter (in_interval full_interval) vs = vs"
  by (auto simp: stream_ok_def list_all_iff in_interval_def full_interval_def intro!: filter_True)

lemma it_samples_stream [simp]:
  "stream_ok (ss_Values ss) \<Longrightarrow> it_samples (sampleStreamIterator ss) = ss_Values ss"
  by (simp add: it_samples_def sampleStreamIterator_def ssi.range_values filter_full_interval)

lemma it_ok_stream [simp]: "stream_ok (ss_Values ss) \<Longrightarrow> it_ok (sampleStreamIterator ss)"
  unfolding it_ok_def by (simp, simp add: sampleStreamIterator_def ssi.value_at ssi.range_values)

end
