(* ===== verification/Fanin.thy ===== *)
theory Fanin
  imports Series_Iterator "HOL-Library.Sublist"
begin

text \<open>
  Package \<open>fanin\<close> (\<open>src/storage/fanin/fanin.go\<close>): one query is sent to the local storage and to every
  remote endpoint, and the series of the answers are merged by fingerprint. \<open>mergeSamples\<close> merges two
  slices, \<open>mergeIterator\<close> merges one local and several remote iterators of a series, and \<open>query\<close> groups
  the iterators of all answers.

  \<open>query\<close> starts one goroutine per remote. Here a schedule, a list of goroutine numbers, says which
  goroutine merges its next iterator; a goroutine's step is one round of the loop in
  \<open>mergeIterators\<close>. The theory \<open>Fanin_Race\<close> takes that round apart.
\<close>

section \<open>Merging samples\<close>

function mergeSamples_loop ::
  "SamplePair list \<Rightarrow> SamplePair list \<Rightarrow> nat \<Rightarrow> nat \<Rightarrow> SamplePair list \<Rightarrow> SamplePair list" where
  "mergeSamples_loop a b i j result =
     (if i < length a \<and> j < length b then
        (if sp_Timestamp (a ! i) < sp_Timestamp (b ! j)
         then mergeSamples_loop a b (i + 1) j (result @ [a ! i])
         else if sp_Timestamp (a ! i) > sp_Timestamp (b ! j)
         then mergeSamples_loop a b i (j + 1) (result @ [b ! j])
         else mergeSamples_loop a b (i + 1) (j + 1) (result @ [a ! i]))
      else result @ drop i a @ drop j b)"
  by pat_completeness auto
termination
  by (relation "measure (\<lambda>(a, b, i, j, result). (length a - i) + (length b - j))") auto

declare mergeSamples_loop.simps [simp del]

definition mergeSamples :: "SamplePair list \<Rightarrow> SamplePair list \<Rightarrow> SamplePair list" where
  "mergeSamples a b = mergeSamples_loop a b 0 0 []"

section \<open>The merging iterator\<close>

record mergeIterator =
  mit_local :: "SeriesIterator option"
  mit_remote :: "SeriesIterator list"

fun mit_latest_loop :: "Time \<Rightarrow> SamplePair \<Rightarrow> SeriesIterator list \<Rightarrow> SamplePair" where
  "mit_latest_loop t latest [] = latest"
| "mit_latest_loop t latest (it # its) =
     (let v = it_ValueAtOrBeforeTime it t
      in mit_latest_loop t
           (if time_After (sp_Timestamp v) (sp_Timestamp latest) then v else latest) its)"

definition mit_ValueAtOrBeforeTime :: "mergeIterator \<Rightarrow> Time \<Rightarrow> SamplePair" where
  "mit_ValueAtOrBeforeTime mit t =
     (let latest = (case mit_local mit of None \<Rightarrow> ZeroSamplePair
                    | Some it \<Rightarrow> it_ValueAtOrBeforeTime it t)
      in if sp_eq latest ZeroSamplePair then mit_latest_loop t latest (mit_remote mit) else latest)"

fun mit_range_loop ::
  "Interval \<Rightarrow> Time \<Rightarrow> SamplePair list \<Rightarrow> SeriesIterator list \<Rightarrow> panic + SamplePair list" where
  "mit_range_loop iv remoteCutoff vals [] = Inr vals"
| "mit_range_loop iv remoteCutoff vals (it # its) =
     (case it_RangeValues it iv of
        Inl p \<Rightarrow> Inl p
      | Inr vs \<Rightarrow>
          (let n = sort_search (length vs)
                     (\<lambda>i. \<not> time_Before (sp_Timestamp (vs ! i)) remoteCutoff)
           in mit_range_loop iv remoteCutoff (mergeSamples vals (take n vs)) its))"

definition mit_RangeValues :: "mergeIterator \<Rightarrow> Interval \<Rightarrow> panic + SamplePair list" where
  "mit_RangeValues mit iv =
     (case mit_local mit of
        None \<Rightarrow> mit_range_loop iv Latest [] (mit_remote mit)
      | Some it \<Rightarrow>
          (case it_RangeValues it iv of
             Inl p \<Rightarrow> Inl p
           | Inr vals \<Rightarrow>
               mit_range_loop iv (if length vals > 0 then sp_Timestamp (vals ! 0) else Latest)
                 vals (mit_remote mit)))"

definition mit_Metric :: "mergeIterator \<Rightarrow> panic + LabelSet" where
  "mit_Metric mit =
     (case mit_local mit of
        Some it \<Rightarrow> it_Metric it
      | None \<Rightarrow> (case go_index (mit_remote mit) 0 of Inl p \<Rightarrow> Inl p | Inr it \<Rightarrow> it_Metric it))"

text \<open>\<open>Close\<close> closes the local iterator, if there is one, and then the remote ones: the calls it
  makes, in order.\<close>

definition mit_Close :: "mergeIterator \<Rightarrow> SeriesIterator list" where
  "mit_Close mit = (case mit_local mit of None \<Rightarrow> [] | Some it \<Rightarrow> [it]) @ mit_remote mit"

text \<open>A merging iterator behind the interface \<open>local.SeriesIterator\<close>.\<close>

definition mit_iterator :: "mergeIterator \<Rightarrow> SeriesIterator" where
  "mit_iterator mit =
     \<lparr>it_ValueAtOrBeforeTime = mit_ValueAtOrBeforeTime mit,
      it_RangeValues = mit_RangeValues mit,
      it_Metric = mit_Metric mit\<rparr>"

section \<open>Grouping iterators by fingerprint\<close>

type_synonym fpmap = "(Fingerprint, mergeIterator) gomap"

definition it_fp :: "SeriesIterator \<Rightarrow> panic + Fingerprint" where
  "it_fp it = (case it_Metric it of Inl p \<Rightarrow> Inl p | Inr m \<Rightarrow> Inr (labelset_Fingerprint m))"

definition merge_one :: "fpmap \<Rightarrow> SeriesIterator \<Rightarrow> panic + fpmap" where
  "merge_one fpToIt it =
     (case it_fp it of
        Inl p \<Rightarrow> Inl p
      | Inr fp \<Rightarrow>
          (case gm_get fpToIt fp of
             None \<Rightarrow> Inr (gm_put fpToIt fp \<lparr>mit_local = None, mit_remote = [it]\<rparr>)
           | Some fpIts \<Rightarrow>
               Inr (gm_put fpToIt fp (fpIts\<lparr>mit_remote := mit_remote fpIts @ [it]\<rparr>))))"

fun mergeIterators :: "fpmap \<Rightarrow> SeriesIterator list \<Rightarrow> panic + fpmap" where
  "mergeIterators fpToIt [] = Inr fpToIt"
| "mergeIterators fpToIt (it # its) =
     (case merge_one fpToIt it of Inl p \<Rightarrow> Inl p | Inr m \<Rightarrow> mergeIterators m its)"

fun local_its_loop :: "fpmap \<Rightarrow> SeriesIterator list \<Rightarrow> panic + fpmap" where
  "local_its_loop fpToIt [] = Inr fpToIt"
| "local_its_loop fpToIt (it # its) =
     (case it_fp it of
        Inl p \<Rightarrow> Inl p
      | Inr fp \<Rightarrow>
          local_its_loop (gm_put fpToIt fp \<lparr>mit_local = Some it, mit_remote = []\<rparr>) its)"

text \<open>One step per scheduler choice. \<open>Inr None\<close>: the schedule ends while goroutines still have
  iterators to merge, so \<open>wg.Wait()\<close> has not returned.\<close>

fun run_goroutines :: "nat list \<Rightarrow> fpmap \<Rightarrow> SeriesIterator list list \<Rightarrow> panic + fpmap option" where
  "run_goroutines [] m gs = (if list_all (\<lambda>its. its = []) gs then Inr (Some m) else Inr None)"
| "run_goroutines (g # sched) m gs =
     (if g < length gs then
        (case gs ! g of
           [] \<Rightarrow> run_goroutines sched m gs
         | it # its \<Rightarrow>
             (case merge_one m it of
                Inl p \<Rightarrow> Inl p
              | Inr m' \<Rightarrow> run_goroutines sched m' (gs[g := its])))
      else run_goroutines sched m gs)"

section \<open>Queriers\<close>

record 'q fquerier =
  fq_local :: 'q
  fq_remotes :: "'q list"

definition remote_its :: "('q \<Rightarrow> 'e + SeriesIterator list) \<Rightarrow> 'q \<Rightarrow> SeriesIterator list" where
  "remote_its qFn q = (case qFn q of Inl err \<Rightarrow> [] | Inr its \<Rightarrow> its)"

definition fanin_query ::
  "bool \<Rightarrow> nat list \<Rightarrow> ('q \<Rightarrow> 'e + SeriesIterator list) \<Rightarrow> 'q fquerier \<Rightarrow>
     panic + ('e + SeriesIterator list) option" where
  "fanin_query local_only sched qFn q =
     (case qFn (fq_local q) of
        Inl err \<Rightarrow> Inr (Some (Inl err))
      | Inr localIts \<Rightarrow>
          if length (fq_remotes q) = 0 \<or> local_only then Inr (Some (Inr localIts))
          else (case local_its_loop [] localIts of
                  Inl p \<Rightarrow> Inl p
                | Inr m0 \<Rightarrow>
                    (case run_goroutines sched m0 (map (remote_its qFn) (fq_remotes q)) of
                       Inl p \<Rightarrow> Inl p
                     | Inr None \<Rightarrow> Inr None
                     | Inr (Some m) \<Rightarrow> Inr (Some (Inr (map (\<lambda>(fp, mit). mit_iterator mit) m))))))"

text \<open>\<open>Close\<close> closes the local querier and then the remotes, and returns the first error.\<close>

fun close_all :: "('q \<Rightarrow> 'e option) \<Rightarrow> 'q list \<Rightarrow> 'e option" where
  "close_all cl [] = None"
| "close_all cl (q # qs) = (case cl q of Some err \<Rightarrow> Some err | None \<Rightarrow> close_all cl qs)"

definition fanin_Close :: "('q \<Rightarrow> 'e option) \<Rightarrow> 'q option \<Rightarrow> 'q list \<Rightarrow> 'e option" where
  "fanin_Close cl local_q remotes =
     (case local_q of
        Some q \<Rightarrow> (case cl q of Some err \<Rightarrow> Some err | None \<Rightarrow> close_all cl remotes)
      | None \<Rightarrow> close_all cl remotes)"

section \<open>Merging samples is a merge of timed maps\<close>

text \<open>The reference merge, by recursion on the two slices, and the map from timestamps to values that
  a slice stands for.\<close>

fun merge_ts :: "SamplePair list \<Rightarrow> SamplePair list \<Rightarrow> SamplePair list" where
  "merge_ts [] b = b"
| "merge_ts a [] = a"
| "merge_ts (x # a) (y # b) =
     (if sp_Timestamp x < sp_Timestamp y then x # merge_ts a (y # b)
      else if sp_Timestamp x > sp_Timestamp y then y # merge_ts (x # a) b
      else x # merge_ts a b)"

definition stream_map :: "SamplePair list \<Rightarrow> Time \<rightharpoonup> float64" where
  "stream_map vs = map_of (map (\<lambda>p. (sp_Timestamp p, sp_Value p)) vs)"

lemma merge_ts_Nil2 [simp]: "merge_ts a [] = a"
  by (cases a) auto

lemma mergeSamples_loop_eq:
  "mergeSamples_loop a b i j result = result @ merge_ts (drop i a) (drop j b)"
proof (induction a b i j result rule: mergeSamples_loop.induct)
  case (1 a b i j result)
  show ?case
  proof (cases "i < length a \<and> j < length b")
    case True
    then have "drop i a = a ! i # drop (i + 1) a" "drop j b = b ! j # drop (j + 1) b"
      by (simp_all add: Cons_nth_drop_Suc)
    with True 1 show ?thesis
      by (simp add: mergeSamples_loop.simps [of a b i j result])
  next
    case False
    then have "drop i a = [] \<or> drop j b = []"
      by auto
    with False show ?thesis
      by (auto simp: mergeSamples_loop.simps [of a b i j result])
  qed
qed

lemma mergeSamples_merge_ts: "mergeSamples a b = merge_ts a b"
  by (simp add: mergeSamples_def mergeSamples_loop_eq)

lemma merge_ts_eq_Nil [simp]: "merge_ts a b = [] \<longleftrightarrow> a = [] \<and> b = []"
  by (induction a b rule: merge_ts.induct) auto

lemma set_merge_ts_subset: "set (merge_ts a b) \<subseteq> set a \<union> set b"
  by (induction a b rule: merge_ts.induct) auto

lemma timestamps_merge_ts: "sp_Timestamp ` set (merge_ts a b) = sp_Timestamp ` set a \<union> sp_Timestamp ` set b"
  by (induction a b rule: merge_ts.induct) auto

lemma time_sorted_Cons:
  "time_sorted (x # vs) \<longleftrightarrow> (\<forall>p \<in> set vs. sp_Timestamp x < sp_Timestamp p) \<and> time_sorted vs"
  by (simp add: time_sorted_def)

lemma time_sorted_merge_ts: "time_sorted a \<Longrightarrow> time_sorted b \<Longrightarrow> time_sorted (merge_ts a b)"
proof (induction a b rule: merge_ts.induct)
  case (3 x a y b)
  then show ?case
    by (fastforce simp: time_sorted_Cons dest!: set_merge_ts_subset [THEN subsetD])
qed auto

lemma stream_map_Nil [simp]: "stream_map [] = Map.empty"
  by (simp add: stream_map_def)

lemma stream_map_Cons [simp]: "stream_map (p # vs) = (stream_map vs)(sp_Timestamp p \<mapsto> sp_Value p)"
  by (simp add: stream_map_def)

lemma dom_stream_map: "dom (stream_map vs) = sp_Timestamp ` set vs"
  by (simp add: stream_map_def dom_map_of_conv_image_fst image_image)

lemma stream_map_None: "stream_map vs t = None \<longleftrightarrow> (\<forall>p \<in> set vs. sp_Timestamp p \<noteq> t)"
  by (induction vs) auto

lemma stream_map_merge_ts:
  "time_sorted a \<Longrightarrow> time_sorted b \<Longrightarrow> stream_map (merge_ts a b) = stream_map b ++ stream_map a"
proof (induction a b rule: merge_ts.induct)
  case (3 x a y b)
  have nx: "stream_map a (sp_Timestamp x) = None" and ny: "stream_map b (sp_Timestamp y) = None"
    and yx: "sp_Timestamp y < sp_Timestamp x \<Longrightarrow> stream_map a (sp_Timestamp y) = None"
    using 3(4,5) by (auto simp: time_sorted_Cons stream_map_None)
  show ?case
    using 3 nx ny yx by (auto simp: time_sorted_Cons map_add_def fun_eq_iff split: option.splits)
qed auto


text \<open>A sorted slice is determined by the map it stands for, so equations between slices can be proved
  as equations between maps.\<close>

lemma stream_ext:
  "time_sorted a \<Longrightarrow> time_sorted b \<Longrightarrow> stream_map a = stream_map b \<Longrightarrow> a = b"
proof (induction a arbitrary: b)
  case Nil
  then show ?case
    by (cases b) (simp_all del: fun_upd_apply, metis map_upd_nonempty)
next
  case (Cons x a)
  have "stream_map b \<noteq> Map.empty"
    using Cons.prems(3) by (metis stream_map_Cons map_upd_nonempty)
  then obtain y b' where b: "b = y # b'"
    by (cases b) auto
  have dom: "insert (sp_Timestamp x) (sp_Timestamp ` set a) = insert (sp_Timestamp y) (sp_Timestamp ` set b')"
    using arg_cong [OF Cons.prems(3), of dom] unfolding b dom_stream_map by simp
  have lt: "\<forall>p \<in> set a. sp_Timestamp x < sp_Timestamp p" "\<forall>p \<in> set b'. sp_Timestamp y < sp_Timestamp p"
    using Cons.prems(1,2) b by (auto simp: time_sorted_Cons)
  have ts: "sp_Timestamp x = sp_Timestamp y"
    using dom lt by (metis (no_types, lifting) imageE insertCI insertE less_asym)
  have "sp_Value x = sp_Value y"
    using fun_cong [OF Cons.prems(3), of "sp_Timestamp x"] ts b by simp
  then have xy: "x = y"
    using ts by simp
  have "stream_map a (sp_Timestamp x) = None" "stream_map b' (sp_Timestamp x) = None"
    using lt ts by (auto simp: stream_map_None)
  then have "stream_map a = stream_map b'"
    using Cons.prems(3) unfolding b xy stream_map_Cons by (metis fun_upd_idem fun_upd_upd)
  then show ?case
    using Cons b xy by (auto simp: time_sorted_Cons)
qed

lemma stream_map_filter:
  "stream_map (filter (\<lambda>p. Q (sp_Timestamp p)) vs) = stream_map vs |` {t. Q t}"
  by (induction vs) (auto simp: restrict_map_def fun_eq_iff)

lemma stream_map_append: "stream_map (a @ b) = stream_map b ++ stream_map a"
  by (simp add: stream_map_def)

lemma restrict_map_add: "(m ++ n) |` A = m |` A ++ n |` A"
  by (auto simp: restrict_map_def map_add_def fun_eq_iff)

lemma filter_merge_ts:
  assumes "time_sorted a" "time_sorted b"
  shows "filter (\<lambda>p. Q (sp_Timestamp p)) (merge_ts a b) =
    merge_ts (filter (\<lambda>p. Q (sp_Timestamp p)) a) (filter (\<lambda>p. Q (sp_Timestamp p)) b)"
  using assms
  by (intro stream_ext)
    (auto simp: time_sorted_merge_ts stream_map_merge_ts stream_map_filter restrict_map_add time_sorted_filter)

lemma merge_ts_before:
  assumes "time_sorted (a @ vals)" "time_sorted x"
    and "\<forall>p \<in> set x. \<forall>q \<in> set vals. sp_Timestamp p < sp_Timestamp q"
  shows "merge_ts (a @ vals) x = merge_ts a x @ vals"
proof (rule stream_ext)
  have a: "time_sorted a" "time_sorted vals" "\<forall>p \<in> set a. \<forall>q \<in> set vals. sp_Timestamp p < sp_Timestamp q"
    using assms(1) by (auto simp: time_sorted_def sorted_wrt_append)
  show "time_sorted (merge_ts (a @ vals) x)"
    using assms by (simp add: time_sorted_merge_ts)
  have "\<forall>p \<in> set (merge_ts a x). \<forall>q \<in> set vals. sp_Timestamp p < sp_Timestamp q"
    using assms(3) a(3) set_merge_ts_subset [of a x] by blast
  then show "time_sorted (merge_ts a x @ vals)"
    using time_sorted_merge_ts [OF a(1) assms(2)] a(2) by (auto simp: time_sorted_def sorted_wrt_append)
  have "dom (stream_map vals) \<inter> dom (stream_map x) = {}"
    using assms(3) by (force simp: dom_stream_map)
  then have "stream_map x ++ stream_map vals = stream_map vals ++ stream_map x"
    by (metis map_add_comm inf_commute)
  then show "stream_map (merge_ts (a @ vals) x) = stream_map (merge_ts a x @ vals)"
    using assms a by (simp add: stream_map_merge_ts stream_map_append)
qed

subsection \<open>Merging many streams\<close>

definition merge_streams :: "SamplePair list \<Rightarrow> SamplePair list list \<Rightarrow> SamplePair list" where
  "merge_streams vs ss = foldl merge_ts vs ss"

lemma merge_streams_simps [simp]:
  "merge_streams vs [] = vs"
  "merge_streams vs (x # ss) = merge_streams (merge_ts vs x) ss"
  by (simp_all add: merge_streams_def)

lemma time_sorted_merge_streams [intro]:
  "time_sorted vs \<Longrightarrow> list_all time_sorted ss \<Longrightarrow> time_sorted (merge_streams vs ss)"
  by (induction ss arbitrary: vs) (auto simp: time_sorted_merge_ts)

lemma set_merge_streams: "set (merge_streams vs ss) \<subseteq> set vs \<union> \<Union> (set ` set ss)"
proof (induction ss arbitrary: vs)
  case (Cons x ss)
  then show ?case
    using set_merge_ts_subset [of vs x] by fastforce
qed simp

lemma stream_ok_merge_streams:
  "stream_ok vs \<Longrightarrow> list_all stream_ok ss \<Longrightarrow> stream_ok (merge_streams vs ss)"
  using set_merge_streams [of vs ss] time_sorted_merge_streams [of vs ss]
  unfolding stream_ok_def list_all_iff by blast

lemma filter_merge_streams:
  "time_sorted vs \<Longrightarrow> list_all time_sorted ss \<Longrightarrow>
     filter (\<lambda>p. Q (sp_Timestamp p)) (merge_streams vs ss) =
     merge_streams (filter (\<lambda>p. Q (sp_Timestamp p)) vs) (map (filter (\<lambda>p. Q (sp_Timestamp p))) ss)"
  by (induction ss arbitrary: vs) (auto simp: filter_merge_ts time_sorted_merge_ts)

lemma merge_streams_before:
  "time_sorted (a @ vals) \<Longrightarrow> list_all time_sorted ss \<Longrightarrow>
     list_all (\<lambda>x. \<forall>p \<in> set x. \<forall>q \<in> set vals. sp_Timestamp p < sp_Timestamp q) ss \<Longrightarrow>
     merge_streams (a @ vals) ss = merge_streams a ss @ vals"
proof (induction ss arbitrary: a)
  case (Cons x ss)
  have eq: "merge_ts (a @ vals) x = merge_ts a x @ vals"
    using Cons.prems by (intro merge_ts_before) auto
  have "time_sorted (merge_ts a x @ vals)"
    using Cons.prems unfolding eq [symmetric] by (simp add: time_sorted_merge_ts)
  then show ?case
    using Cons eq by simp
qed simp

text \<open>The merge of streams that agree where they overlap: its map is the union of the maps, whatever
  the order of the streams.\<close>

definition agree :: "SamplePair list \<Rightarrow> SamplePair list \<Rightarrow> bool" where
  "agree a b \<longleftrightarrow> (\<forall>p \<in> set a. \<forall>q \<in> set b. sp_Timestamp p = sp_Timestamp q \<longrightarrow> p = q)"

lemma set_merge_ts_agree: "agree a b \<Longrightarrow> set (merge_ts a b) = set a \<union> set b"
  by (induction a b rule: merge_ts.induct) (auto simp: agree_def)

lemma agree_merge_ts: "agree a c \<Longrightarrow> agree b c \<Longrightarrow> agree (merge_ts a b) c"
  using set_merge_ts_subset [of a b] unfolding agree_def by blast

lemma set_merge_streams_agree:
  "list_all (agree vs) ss \<Longrightarrow> (\<And>a b. a \<in> set ss \<Longrightarrow> b \<in> set ss \<Longrightarrow> agree a b) \<Longrightarrow>
     set (merge_streams vs ss) = set vs \<union> \<Union> (set ` set ss)"
proof (induction ss arbitrary: vs)
  case (Cons x ss)
  have "list_all (agree (merge_ts vs x)) ss"
    using Cons.prems by (auto simp: list_all_iff intro!: agree_merge_ts)
  then show ?case
    using Cons by (auto simp: set_merge_ts_agree)
qed simp

lemma time_sorted_set_unique:
  "time_sorted a \<Longrightarrow> time_sorted b \<Longrightarrow> set a = set b \<Longrightarrow> a = b"
proof -
  assume ab: "time_sorted a" "time_sorted b" "set a = set b"
  have "distinct (map sp_Timestamp c)" if "time_sorted c" for c
    using that by (induction c) (auto simp: time_sorted_Cons)
  then have "stream_map a t = Some v \<longleftrightarrow> stream_map b t = Some v" for t v
    using ab by (simp add: stream_map_def map_of_eq_Some_iff o_def image_iff)
  then have "stream_map a = stream_map b"
    by (metis ext option.exhaust)
  then show ?thesis
    using ab stream_ext by blast
qed


section \<open>The merging iterator\<close>

lemma take_cutoff:
  assumes "time_sorted vs"
  shows "take (sort_search (length vs) (\<lambda>i. \<not> time_Before (sp_Timestamp (vs ! i)) t)) vs =
    filter (\<lambda>p. sp_Timestamp p < t) vs"
  using take_sort_search [of "\<lambda>p. \<not> time_Before (sp_Timestamp p) t" vs]
    time_sorted_imp [OF assms, of "\<lambda>p. \<not> time_Before (sp_Timestamp p) t"]
  by (auto simp: time_Before_def not_le)

lemma mit_range_loop_eq:
  assumes "list_all it_ok its" "ordered iv"
  shows "mit_range_loop iv cutoff vals its =
    Inr (merge_streams vals
      (map (\<lambda>it. filter (\<lambda>p. in_interval iv p \<and> sp_Timestamp p < cutoff) (it_samples it)) its))"
  using assms(1)
proof (induction its arbitrary: vals)
  case (Cons it its)
  have r: "it_RangeValues it iv = Inr (filter (in_interval iv) (it_samples it))"
    using Cons.prems assms(2) iface.range_values by simp
  have srt: "time_sorted (filter (in_interval iv) (it_samples it))"
    using Cons.prems iface.samples_ok by (auto simp: stream_ok_def)
  show ?case
    using Cons by (simp add: r Let_def take_cutoff [OF srt] mergeSamples_merge_ts conj_commute)
qed simp

definition remote_samples :: "mergeIterator \<Rightarrow> SamplePair list" where
  "remote_samples mit = merge_streams [] (map it_samples (mit_remote mit))"

definition mit_ok :: "mergeIterator \<Rightarrow> bool" where
  "mit_ok mit \<longleftrightarrow> list_all it_ok (mit_remote mit) \<and>
     (case mit_local mit of None \<Rightarrow> True | Some it \<Rightarrow> it_ok it)"

lemma remote_sorted: "list_all it_ok its \<Longrightarrow> list_all time_sorted (map it_samples its)"
  using iface.samples_ok by (auto simp: list_all_iff stream_ok_def)

lemma remote_streams_ok: "list_all it_ok its \<Longrightarrow> list_all stream_ok (map it_samples its)"
  using iface.samples_ok by (auto simp: list_all_iff)

lemma remote_samples_ok: "mit_ok mit \<Longrightarrow> stream_ok (remote_samples mit)"
  unfolding remote_samples_def mit_ok_def
  by (intro stream_ok_merge_streams remote_streams_ok) (auto simp: stream_ok_def)

lemma merge_cut:
  assumes "mit_ok mit"
  shows "merge_streams [] (map (\<lambda>it. filter (\<lambda>p. in_interval iv p \<and> sp_Timestamp p < cutoff) (it_samples it))
      (mit_remote mit)) =
    filter (\<lambda>p. in_interval iv p \<and> sp_Timestamp p < cutoff) (remote_samples mit)"
  using filter_merge_streams [of "[]" "map it_samples (mit_remote mit)"
      "\<lambda>t. OldestInclusive iv \<le> t \<and> t \<le> NewestInclusive iv \<and> t < cutoff"]
    remote_sorted [of "mit_remote mit"] assms
  by (simp add: remote_samples_def mit_ok_def in_interval_def o_def conj_assoc)

text \<open>Without local samples in the interval, the range is the interval of the merged remotes.\<close>

lemma mit_range_remote:
  assumes "mit_ok mit" "ordered iv" "mit_local mit = None"
  shows "mit_RangeValues mit iv = Inr (filter (in_interval iv) (remote_samples mit))"
proof -
  have "filter (\<lambda>p. in_interval iv p \<and> sp_Timestamp p < Latest) (remote_samples mit) =
      filter (in_interval iv) (remote_samples mit)"
    using remote_samples_ok [OF assms(1)] by (intro filter_cong) (auto simp: stream_ok_def list_all_iff)
  then show ?thesis
    using assms merge_cut [OF assms(1), of iv Latest]
    by (simp add: mit_RangeValues_def mit_range_loop_eq mit_ok_def)
qed

lemma mit_range_local:
  assumes "mit_ok mit" "ordered iv" "mit_local mit = Some it"
    and "it_RangeValues it iv = Inr (v # vals)"
  shows "mit_RangeValues mit iv =
    Inr (filter (\<lambda>p. in_interval iv p \<and> sp_Timestamp p < sp_Timestamp v) (remote_samples mit) @ v # vals)"
proof -
  let ?f = "\<lambda>it. filter (\<lambda>p. in_interval iv p \<and> sp_Timestamp p < sp_Timestamp v) (it_samples it)"
  have oks: "list_all it_ok (mit_remote mit)" "it_ok it"
    using assms(1,3) by (auto simp: mit_ok_def)
  have srt: "time_sorted (v # vals)"
    using iface.range_values_sorted [OF oks(2) assms(2,4)] by (simp add: stream_ok_def)
  have "list_all time_sorted (map ?f (mit_remote mit))"
    using remote_sorted [OF oks(1)] by (auto simp: list_all_iff)
  moreover have "list_all (\<lambda>x. \<forall>p \<in> set x. \<forall>q \<in> set (v # vals). sp_Timestamp p < sp_Timestamp q)
      (map ?f (mit_remote mit))"
    using srt by (auto simp: list_all_iff time_sorted_Cons)
  ultimately have "merge_streams ([] @ v # vals) (map ?f (mit_remote mit)) =
      merge_streams [] (map ?f (mit_remote mit)) @ v # vals"
    using srt by (intro merge_streams_before) auto
  then show ?thesis
    using assms oks merge_cut [OF assms(1), of iv "sp_Timestamp v"]
    by (simp add: mit_RangeValues_def mit_range_loop_eq)
qed

lemma last_merge_ts:
  "time_sorted a \<Longrightarrow> time_sorted b \<Longrightarrow> a \<noteq> [] \<Longrightarrow> b \<noteq> [] \<Longrightarrow>
     last (merge_ts a b) = (if sp_Timestamp (last b) > sp_Timestamp (last a) then last b else last a)"
proof (induction a b rule: merge_ts.induct)
  case (3 x a y b)
  show ?case
    using 3 by (cases "a = []"; cases "b = []")
      (auto simp: time_sorted_Cons dest!: bspec [OF _ last_in_set])
qed auto

lemma last_at_merge_ts:
  assumes "stream_ok a" "stream_ok b"
  shows "last_at (merge_ts a b) t =
    (if sp_Timestamp (last_at b t) > sp_Timestamp (last_at a t) then last_at b t else last_at a t)"
proof -
  let ?f = "filter (\<lambda>p. sp_Timestamp p \<le> t)"
  have srt: "time_sorted a" "time_sorted b"
    using assms by (auto simp: stream_ok_def)
  have f: "?f (merge_ts a b) = merge_ts (?f a) (?f b)"
    using filter_merge_ts [OF srt, of "\<lambda>u. u \<le> t"] by simp
  have early: "Earliest < sp_Timestamp (last (?f c))" if "stream_ok c" "?f c \<noteq> []" for c
    using that last_in_set [OF that(2)] by (auto simp: stream_ok_def list_all_iff)
  show ?thesis
  proof (cases "?f a = [] \<or> ?f b = []")
    case True
    then show ?thesis
      using early [OF assms(1)] early [OF assms(2)]
      by (auto simp: last_at_def Let_def f ZeroSamplePair_def)
  next
    case False
    then show ?thesis
      using False srt last_merge_ts [of "?f a" "?f b"] by (auto simp: last_at_def Let_def f time_sorted_filter)
  qed
qed

lemma mit_latest_loop_eq:
  "stream_ok vs \<Longrightarrow> list_all it_ok its \<Longrightarrow>
     mit_latest_loop t (last_at vs t) its = last_at (merge_streams vs (map it_samples its)) t"
proof (induction its arbitrary: vs)
  case (Cons it its)
  have ok: "it_ok it" "stream_ok (it_samples it)"
    using Cons.prems iface.samples_ok by auto
  have "stream_ok (merge_ts vs (it_samples it))"
    using stream_ok_merge_streams [of vs "[it_samples it]"] Cons.prems(1) ok by simp
  then show ?case
    using Cons.IH [of "merge_ts vs (it_samples it)"] Cons.prems(2)
      last_at_merge_ts [OF Cons.prems(1) ok(2), of t]
    by (simp add: iface.value_at [OF ok(1)] time_After_def Let_def)
qed simp

lemma mit_latest_remote:
  assumes "mit_ok mit"
  shows "mit_latest_loop t ZeroSamplePair (mit_remote mit) = last_at (remote_samples mit) t"
proof -
  have "last_at [] t = ZeroSamplePair"
    by (simp add: last_at_def)
  then show ?thesis
    using mit_latest_loop_eq [of "[]" "mit_remote mit" t] assms
    by (simp add: mit_ok_def remote_samples_def stream_ok_def)
qed


lemma mit_value_eq:
  assumes "mit_ok mit"
  shows "mit_ValueAtOrBeforeTime mit t =
    (case mit_local mit of
       None \<Rightarrow> last_at (remote_samples mit) t
     | Some it \<Rightarrow> (if last_at (it_samples it) t = ZeroSamplePair then last_at (remote_samples mit) t
                  else last_at (it_samples it) t))"
  using assms mit_latest_remote [OF assms]
  by (auto simp: mit_ValueAtOrBeforeTime_def Let_def sp_eq_Zero_iff mit_ok_def iface.value_at split: option.splits)

text \<open>With remote iterators only, the merging iterator is again a series iterator, over the merge of
  the remote streams: the contract is closed under merging.\<close>

interpretation merged: series_iterator mit_ValueAtOrBeforeTime mit_RangeValues remote_samples
  "\<lambda>mit. mit_ok mit \<and> mit_local mit = None"
  by unfold_locales (auto simp: remote_samples_ok mit_range_remote mit_value_eq)

lemma mit_iterator_ok:
  assumes "mit_ok mit" "mit_local mit = None"
  shows "it_ok (mit_iterator mit)" "it_samples (mit_iterator mit) = remote_samples mit"
proof -
  have "filter (in_interval full_interval) (remote_samples mit) = remote_samples mit"
    using remote_samples_ok [OF assms(1)] by (rule filter_full_interval)
  then show s: "it_samples (mit_iterator mit) = remote_samples mit"
    using assms merged.range_values [of mit full_interval] by (simp add: it_samples_def mit_iterator_def)
  show "it_ok (mit_iterator mit)"
    unfolding it_ok_def s using assms merged.samples_ok [of mit] merged.value_at [of mit] merged.range_values [of mit]
    by (simp add: mit_iterator_def)
qed

section \<open>Grouping\<close>

text \<open>What the map holds for a fingerprint after the iterators of \<open>hist\<close> have been merged, in that order,
  into the map \<open>m0\<close>.\<close>

definition grouped :: "fpmap \<Rightarrow> SeriesIterator list \<Rightarrow> Fingerprint \<Rightarrow> mergeIterator option" where
  "grouped m0 hist fp =
     (let rs = filter (\<lambda>it. it_fp it = Inr fp) hist
      in case gm_get m0 fp of
           Some mit \<Rightarrow> Some (mit\<lparr>mit_remote := mit_remote mit @ rs\<rparr>)
         | None \<Rightarrow> if rs = [] then None else Some \<lparr>mit_local = None, mit_remote = rs\<rparr>)"

definition has_fp :: "SeriesIterator \<Rightarrow> bool" where
  "has_fp it \<longleftrightarrow> (case it_fp it of Inl _ \<Rightarrow> False | Inr _ \<Rightarrow> True)"

lemma grouped_Nil [simp]: "grouped m [] = gm_get m"
  by (rule ext) (auto simp: grouped_def split: option.splits)

lemma merge_one_grouped:
  assumes "gm_get m = grouped m0 hist" "has_fp it"
  obtains m' where "merge_one m it = Inr m'" "gm_get m' = grouped m0 (hist @ [it])"
proof -
  from assms(2) obtain fp where fp: "it_fp it = Inr fp"
    by (auto simp: has_fp_def split: sum.splits)
  have "\<exists>m'. merge_one m it = Inr m' \<and> gm_get m' = grouped m0 (hist @ [it])"
    by (cases "gm_get m fp"; cases "gm_get m0 fp")
      (use fp assms(1) in \<open>auto simp: merge_one_def gomap_simps grouped_def fun_eq_iff Let_def
         split: option.splits if_splits\<close>)
  then show ?thesis
    using that by blast
qed

lemma gm_ok_merge_one: "gm_ok m \<Longrightarrow> merge_one m it = Inr m' \<Longrightarrow> gm_ok m'"
  by (auto simp: merge_one_def split: sum.splits option.splits)

lemma mset_concat_step:
  "g < length gs \<Longrightarrow> gs ! g = x # xs \<Longrightarrow> mset (concat gs) = add_mset x (mset (concat (gs[g := xs])))"
proof (induction gs arbitrary: g)
  case (Cons a gs)
  then show ?case
    by (cases g) auto
qed simp

lemma subseq_step:
  assumes "g < length gs" "gs ! g = x # xs" "\<forall>ys \<in> set (gs[g := xs]). subseq ys rest"
  shows "\<forall>ys \<in> set gs. subseq ys (x # rest)"
proof
  fix ys
  assume "ys \<in> set gs"
  then obtain k where k: "k < length gs" "ys = gs ! k"
    by (auto simp: in_set_conv_nth)
  have "(gs[g := xs]) ! k \<in> set (gs[g := xs])"
    using k by (intro nth_mem) simp
  then have "subseq ((gs[g := xs]) ! k) rest"
    using assms(3) by blast
  then show "subseq ys (x # rest)"
    using assms k by (cases "k = g") auto
qed

text \<open>Every complete schedule merges all iterators, in an order that keeps the order of each goroutine,
  and never panics.\<close>

lemma run_goroutines_spec:
  assumes "list_all (list_all has_fp) gs" "gm_get m = grouped m0 hist"
    "gm_ok m" "run_goroutines sched m gs = r"
  shows "r = Inr None \<or>
    (\<exists>m' rest. r = Inr (Some m') \<and> gm_ok m' \<and> gm_get m' = grouped m0 (hist @ rest) \<and>
       mset rest = mset (concat gs) \<and> (\<forall>its \<in> set gs. subseq its rest))"
  using assms
proof (induction sched m gs arbitrary: hist rule: run_goroutines.induct)
  case (1 m gs)
  show ?case
  proof (cases "list_all (\<lambda>its. its = []) gs")
    case True
    then have "concat gs = []" "\<forall>its \<in> set gs. subseq its []"
      by (auto simp: list_all_iff)
    with True 1 show ?thesis
      by (intro disjI2 exI [of _ m] exI [of _ "[]"]) simp
  next
    case False
    with 1 show ?thesis
      by simp
  qed
next
  case (2 g sched m gs)
  show ?case
  proof (cases "g < length gs \<and> gs ! g \<noteq> []")
    case False
    then show ?thesis
      using 2 by (cases "g < length gs") (auto split: list.splits)
  next
    case True
    then obtain it its where g: "g < length gs" "gs ! g = it # its"
      by (meson neq_Nil_conv)
    have "list_all has_fp (gs ! g)"
      using 2(4) g(1) by (simp add: list_all_length)
    then have fps: "has_fp it" "list_all has_fp its"
      using g(2) by auto
    obtain m' where m': "merge_one m it = Inr m'" "gm_get m' = grouped m0 (hist @ [it])"
      using merge_one_grouped [OF 2(5) fps(1)] .
    have ok': "gm_ok m'"
      using gm_ok_merge_one [OF 2(6) m'(1)] .
    have fps': "list_all (list_all has_fp) (gs[g := its])"
      using 2(4) fps(2) by (auto simp: list_all_iff dest!: set_update_subset_insert [THEN subsetD])
    have "run_goroutines sched m' (gs[g := its]) = r"
      using 2(7) g m'(1) by simp
    then have "r = Inr None \<or>
      (\<exists>m'' rest. r = Inr (Some m'') \<and> gm_ok m'' \<and> gm_get m'' = grouped m0 ((hist @ [it]) @ rest) \<and>
       mset rest = mset (concat (gs[g := its])) \<and> (\<forall>xs \<in> set (gs[g := its]). subseq xs rest))"
      using 2(2) [OF g(1) g(2) m'(1) fps' m'(2) ok'] by blast
    then show ?thesis
    proof (elim disjE exE conjE)
      fix m'' rest
      assume *: "r = Inr (Some m'')" "gm_ok m''" "gm_get m'' = grouped m0 ((hist @ [it]) @ rest)"
        "mset rest = mset (concat (gs[g := its]))" "\<forall>xs \<in> set (gs[g := its]). subseq xs rest"
      then show ?thesis
        using mset_concat_step [OF g] subseq_step [OF g *(5)]
        by (intro disjI2 exI [of _ m''] exI [of _ "it # rest"]) simp
    qed simp
  qed
qed


text \<open>A schedule that gives every goroutine as many steps as it has iterators completes.\<close>

lemma run_goroutines_complete:
  assumes "list_all (list_all has_fp) gs" "\<forall>g < length gs. length (gs ! g) \<le> count_list sched g"
  shows "\<exists>m'. run_goroutines sched m gs = Inr (Some m')"
  using assms
proof (induction sched m gs rule: run_goroutines.induct)
  case (1 m gs)
  then show ?case
    by (auto simp: list_all_length)
next
  case (2 g sched m gs)
  show ?case
  proof (cases "g < length gs \<and> gs ! g \<noteq> []")
    case False
    have "\<forall>k < length gs. length (gs ! k) \<le> count_list sched k"
      using 2(5) False by (metis count_list.simps(2) le0 list.size(3))
    then show ?thesis
      using 2 False by (cases "g < length gs") (auto split: list.splits)
  next
    case True
    then obtain it its where g: "g < length gs" "gs ! g = it # its"
      by (meson neq_Nil_conv)
    have "list_all has_fp (gs ! g)"
      using 2(4) g(1) by (simp add: list_all_length)
    then have fps: "has_fp it" "list_all has_fp its"
      using g(2) by auto
    obtain m' where m': "merge_one m it = Inr m'"
      using merge_one_grouped [of m m "[]" it] fps(1) by auto
    have "list_all (list_all has_fp) (gs[g := its])"
      using 2(4) fps(2) by (auto simp: list_all_iff dest!: set_update_subset_insert [THEN subsetD])
    moreover have "\<forall>k < length (gs[g := its]). length ((gs[g := its]) ! k) \<le> count_list sched k"
    proof (intro allI impI)
      fix k
      assume "k < length (gs[g := its])"
      then show "length ((gs[g := its]) ! k) \<le> count_list sched k"
        using 2(5) g by (cases "k = g") (auto dest!: spec [of _ k])
    qed
    ultimately show ?thesis
      using 2(2) [OF g m'] g m' by simp
  qed
qed

lemma local_its_loop_spec:
  assumes "list_all has_fp its" "gm_ok m"
  shows "\<exists>m'. local_its_loop m its = Inr m' \<and> gm_ok m' \<and>
    (\<forall>fp. gm_get m' fp =
       (let ls = filter (\<lambda>it. it_fp it = Inr fp) its
        in if ls = [] then gm_get m fp else Some \<lparr>mit_local = Some (last ls), mit_remote = []\<rparr>))"
  using assms
proof (induction m its rule: local_its_loop.induct)
  case (2 m it its)
  then obtain fp where fp: "it_fp it = Inr fp"
    by (auto simp: has_fp_def split: sum.splits)
  let ?m = "gm_put m fp \<lparr>mit_local = Some it, mit_remote = []\<rparr>"
  obtain m' where m': "local_its_loop ?m its = Inr m'" "gm_ok m'"
    "\<And>f. gm_get m' f = (let ls = filter (\<lambda>it. it_fp it = Inr f) its
        in if ls = [] then gm_get ?m f else Some \<lparr>mit_local = Some (last ls), mit_remote = []\<rparr>)"
    using 2 fp by auto
  then show ?case
    using fp by (auto simp: gomap_simps Let_def)
qed simp

text \<open>The final map of a query, fingerprint by fingerprint.\<close>

definition query_entry :: "SeriesIterator list \<Rightarrow> SeriesIterator list \<Rightarrow> Fingerprint \<Rightarrow> mergeIterator option" where
  "query_entry localIts hist fp =
     (let ls = filter (\<lambda>it. it_fp it = Inr fp) localIts; rs = filter (\<lambda>it. it_fp it = Inr fp) hist
      in if ls = [] \<and> rs = [] then None
         else Some \<lparr>mit_local = (if ls = [] then None else Some (last ls)), mit_remote = rs\<rparr>)"

definition all_remote_its :: "('q \<Rightarrow> 'e + SeriesIterator list) \<Rightarrow> 'q fquerier \<Rightarrow> SeriesIterator list" where
  "all_remote_its qFn q = concat (map (remote_its qFn) (fq_remotes q))"

lemma fanin_query_map:
  assumes "qFn (fq_local q) = Inr localIts" "fq_remotes q \<noteq> []"
    and "list_all has_fp localIts" "list_all has_fp (all_remote_its qFn q)"
    and "fanin_query False sched qFn q = Inr (Some r)"
  obtains m hist where "r = Inr (map (\<lambda>(fp, mit). mit_iterator mit) m)" "gm_ok m"
    "gm_get m = query_entry localIts hist" "mset hist = mset (all_remote_its qFn q)"
proof -
  obtain m0 where m0: "local_its_loop [] localIts = Inr m0" "gm_ok m0"
    "\<And>fp. gm_get m0 fp = (let ls = filter (\<lambda>it. it_fp it = Inr fp) localIts
        in if ls = [] then None else Some \<lparr>mit_local = Some (last ls), mit_remote = []\<rparr>)"
    using local_its_loop_spec [OF assms(3), of "[]"] by (auto simp: Let_def)
  let ?gs = "map (remote_its qFn) (fq_remotes q)"
  have fps: "list_all (list_all has_fp) ?gs"
    using assms(4) by (auto simp: all_remote_its_def list_all_iff)
  obtain m where m: "run_goroutines sched m0 ?gs = Inr (Some m)"
    "r = Inr (map (\<lambda>(fp, mit). mit_iterator mit) m)"
    using assms(1,2,5) m0(1) by (auto simp: fanin_query_def split: sum.splits option.splits)
  then obtain hist where h: "gm_ok m" "gm_get m = grouped m0 hist" "mset hist = mset (concat ?gs)"
    using run_goroutines_spec [OF fps _ m0(2) m(1), of m0 "[]"] by auto
  have "gm_get m = query_entry localIts hist"
    using m0(3) by (auto simp: h(2) fun_eq_iff grouped_def query_entry_def Let_def)
  then show ?thesis
    using that [of m hist] m h by (simp add: all_remote_its_def)
qed

lemma query_entry_fp:
  "query_entry localIts hist fp = Some mit \<Longrightarrow> it_fp (mit_iterator mit) = Inr fp"
proof -
  assume e: "query_entry localIts hist fp = Some mit"
  let ?ls = "filter (\<lambda>it. it_fp it = Inr fp) localIts" and ?rs = "filter (\<lambda>it. it_fp it = Inr fp) hist"
  show ?thesis
  proof (cases "?ls = []")
    case False
    then have "last ?ls \<in> set ?ls" by (rule last_in_set)
    with e False show ?thesis
      by (auto simp: query_entry_def Let_def mit_iterator_def it_fp_def mit_Metric_def)
  next
    case True
    with e have rs: "?rs \<noteq> []" "mit = \<lparr>mit_local = None, mit_remote = ?rs\<rparr>"
      by (auto simp: query_entry_def Let_def split: if_splits)
    then have "?rs ! 0 \<in> set ?rs" by (metis length_greater_0_conv nth_mem)
    with rs show ?thesis
      by (auto simp: mit_iterator_def it_fp_def mit_Metric_def go_index_def)
  qed
qed


lemma query_entry_dom:
  "query_entry localIts hist fp \<noteq> None \<longleftrightarrow> Inr fp \<in> it_fp ` (set localIts \<union> set hist)"
  by (auto simp: query_entry_def Let_def filter_empty_conv image_iff eq_commute [of "Inr fp"])

lemma mit_range_no_local:
  assumes "mit_ok mit" "ordered iv" "mit_local mit = Some it" "it_RangeValues it iv = Inr []"
  shows "mit_RangeValues mit iv = Inr (filter (in_interval iv) (remote_samples mit))"
proof -
  let ?mit = "mit\<lparr>mit_local := None\<rparr>"
  have "mit_RangeValues mit iv = mit_RangeValues ?mit iv"
    using assms(3,4) by (simp add: mit_RangeValues_def)
  moreover have "mit_ok ?mit"
    using assms(1) by (simp add: mit_ok_def)
  ultimately show ?thesis
    using mit_range_remote [of ?mit iv] assms(2) by (simp add: remote_samples_def)
qed

text \<open>The samples of the local iterator in an interval.\<close>

definition local_values :: "mergeIterator \<Rightarrow> Interval \<Rightarrow> SamplePair list" where
  "local_values mit iv =
     (case mit_local mit of None \<Rightarrow> [] | Some it \<Rightarrow> filter (in_interval iv) (it_samples it))"

lemma mit_range_eq:
  assumes "mit_ok mit" "ordered iv"
  shows "mit_RangeValues mit iv =
    Inr (filter (\<lambda>p. in_interval iv p \<and>
        (if local_values mit iv = [] then True else sp_Timestamp p < sp_Timestamp (hd (local_values mit iv))))
      (remote_samples mit) @ local_values mit iv)"
proof (cases "mit_local mit")
  case None
  then show ?thesis
    using mit_range_remote [OF assms] by (simp add: local_values_def)
next
  case (Some it)
  then have "it_RangeValues it iv = Inr (local_values mit iv)"
    using assms by (simp add: mit_ok_def local_values_def iface.range_values)
  then show ?thesis
    using mit_range_no_local [OF assms Some] mit_range_local [OF assms Some]
    by (cases "local_values mit iv") auto
qed

text \<open>Two merging iterators over the same local iterator and over remote iterators that agree where
  they overlap answer alike, whatever the order of the remotes.\<close>

lemma remote_samples_perm:
  assumes "mset (mit_remote m1) = mset (mit_remote m2)" "mit_ok m1" "mit_ok m2"
    and "\<forall>a \<in> set (mit_remote m1). \<forall>b \<in> set (mit_remote m1). agree (it_samples a) (it_samples b)"
  shows "remote_samples m1 = remote_samples m2"
proof -
  have set_eq: "set (mit_remote m2) = set (mit_remote m1)"
    using assms(1) by (metis set_mset_mset)
  have un: "set (remote_samples m) = \<Union> (set ` it_samples ` set (mit_remote m1))"
    if "set (mit_remote m) = set (mit_remote m1)" for m
    unfolding remote_samples_def
    using assms(4) that by (subst set_merge_streams_agree) (auto simp: agree_def list_all_iff)
  show ?thesis
    using remote_samples_ok [OF assms(2)] remote_samples_ok [OF assms(3)] un [of m1] un [OF set_eq]
    by (intro time_sorted_set_unique) (auto simp: stream_ok_def)
qed

lemma mit_perm:
  assumes "mset (mit_remote m1) = mset (mit_remote m2)" "mit_local m1 = mit_local m2"
    "mit_ok m1" "mit_ok m2"
    and "\<forall>a \<in> set (mit_remote m1). \<forall>b \<in> set (mit_remote m1). agree (it_samples a) (it_samples b)"
  shows "mit_ValueAtOrBeforeTime m1 t = mit_ValueAtOrBeforeTime m2 t"
    "ordered iv \<Longrightarrow> mit_RangeValues m1 iv = mit_RangeValues m2 iv"
proof -
  have rs: "remote_samples m1 = remote_samples m2"
    using remote_samples_perm assms by blast
  show "mit_ValueAtOrBeforeTime m1 t = mit_ValueAtOrBeforeTime m2 t"
    unfolding mit_value_eq [OF assms(3)] mit_value_eq [OF assms(4)] rs assms(2) ..
  have "local_values m1 iv = local_values m2 iv"
    using assms(2) by (simp add: local_values_def)
  then show "ordered iv \<Longrightarrow> mit_RangeValues m1 iv = mit_RangeValues m2 iv"
    by (simp add: mit_range_eq [OF assms(3)] mit_range_eq [OF assms(4)] rs)
qed

section \<open>Properties\<close>

text \<open>C10. \<open>mergeSamples\<close> merges two slices sorted by timestamp: the result is sorted, and read as a map
  from timestamps to values it is the union of the two, the first slice winning where both have a
  sample.\<close>

theorem mergeSamples_correct:
  assumes "time_sorted a" "time_sorted b"
  shows "time_sorted (mergeSamples a b) \<and> stream_map (mergeSamples a b) = stream_map b ++ stream_map a"
  using assms by (simp add: mergeSamples_merge_ts time_sorted_merge_ts stream_map_merge_ts)

text \<open>The sample pair at a time with a whole number as its value, for the closed instances.\<close>

definition sp_at :: "int \<Rightarrow> int \<Rightarrow> SamplePair" where
  "sp_at t v = \<lparr>sp_Timestamp = t, sp_Value = F_Fin (of_int v)\<rparr>"

theorem mergeSamples_correct_witness:
  "time_sorted (mergeSamples [sp_at 1 10, sp_at 3 30] [sp_at 1 11, sp_at 2 20]) \<and>
   stream_map (mergeSamples [sp_at 1 10, sp_at 3 30] [sp_at 1 11, sp_at 2 20]) 1 = Some (F_Fin 10)"
proof -
  have "time_sorted [sp_at 1 10, sp_at 3 30]" "time_sorted [sp_at 1 11, sp_at 2 20]"
    by (simp_all add: time_sorted_def sp_at_def)
  from mergeSamples_correct [OF this] show ?thesis
    by (simp add: sp_at_def)
qed

text \<open>C6. The range of a merging iterator: all local samples of the interval, preceded by exactly those
  samples of the merged remote streams in the interval that are older than the first of them (all of
  them when there is no local sample in the interval). In particular an ordered interval never
  panics.\<close>

theorem mit_RangeValues_correct:
  assumes "mit_ok mit" "ordered iv"
  shows "mit_RangeValues mit iv =
    Inr (filter (\<lambda>p. in_interval iv p \<and>
        (if local_values mit iv = [] then True else sp_Timestamp p < sp_Timestamp (hd (local_values mit iv))))
      (remote_samples mit) @ local_values mit iv)"
  using assms by (rule mit_range_eq)

definition stream_of :: "(int \<times> int) list \<Rightarrow> SampleStream" where
  "stream_of tvs = \<lparr>ss_Metric = [], ss_Values = map (\<lambda>(t, v). sp_at t v) tvs\<rparr>"

definition it_of :: "(int \<times> int) list \<Rightarrow> SeriesIterator" where
  "it_of tvs = sampleStreamIterator (stream_of tvs)"

definition mit_ex :: mergeIterator where
  "mit_ex = \<lparr>mit_local = Some (it_of [(5, 50), (7, 70)]),
     mit_remote = [it_of [(2, 20), (6, 60)], it_of [(1, 10), (2, 21)]]\<rparr>"

lemmas ex_defs = stream_of_def it_of_def sp_at_def stream_ok_def time_sorted_def
  Earliest_def Latest_def MinInt64_def MaxInt64_def

lemma ex_streams_ok:
  "stream_ok (ss_Values (stream_of [(5, 50), (7, 70)]))"
  "stream_ok (ss_Values (stream_of [(2, 20), (6, 60)]))"
  "stream_ok (ss_Values (stream_of [(1, 10), (2, 21)]))"
  by (simp_all add: ex_defs)

lemma mit_ex_ok: "mit_ok mit_ex"
  using ex_streams_ok by (simp add: mit_ok_def mit_ex_def it_of_def)

theorem mit_RangeValues_correct_witness:
  "mit_RangeValues mit_ex \<lparr>OldestInclusive = 1, NewestInclusive = 9\<rparr> =
     Inr [sp_at 1 10, sp_at 2 20, sp_at 5 50, sp_at 7 70]"
proof -
  have o: "ordered \<lparr>OldestInclusive = 1, NewestInclusive = 9\<rparr>"
    by (simp add: ordered_def)
  show ?thesis
    unfolding mit_RangeValues_correct [OF mit_ex_ok o]
    using ex_streams_ok
    by (simp add: mit_ex_def remote_samples_def local_values_def it_of_def)
      (simp add: stream_of_def in_interval_def sp_at_def)
qed

end
