(* ===== verification/Fanin_Query.thy ===== *)
theory Fanin_Query
  imports Fanin
begin

text \<open>
  The properties of a whole fan-in query: which series it returns, that every fair schedule of its
  goroutines returns, that the answer does not depend on the schedule when the remotes agree, and
  where the merging iterator departs from the contract of a series iterator.
\<close>

section \<open>Shared facts\<close>

lemma image_Inr_all:
  assumes "\<And>x. x \<in> S \<Longrightarrow> \<exists>y. f x = Inr y"
  shows "Inr ` {y. Inr y \<in> f ` S} = f ` S"
proof
  show "f ` S \<subseteq> Inr ` {y. Inr y \<in> f ` S}"
  proof
    fix z
    assume "z \<in> f ` S"
    then obtain x y where "x \<in> S" "z = f x" "f x = Inr y"
      using assms by blast
    then show "z \<in> Inr ` {y. Inr y \<in> f ` S}"
      by (metis (mono_tags, lifting) imageI mem_Collect_eq)
  qed
qed auto

lemma has_fp_iff: "has_fp it \<longleftrightarrow> (\<exists>fp. it_fp it = Inr fp)"
  by (auto simp: has_fp_def split: sum.splits)

lemma query_entry_local: "query_entry localIts hist fp = Some mit \<Longrightarrow>
    mit_local mit = (let ls = filter (\<lambda>it. it_fp it = Inr fp) localIts
                     in if ls = [] then None else Some (last ls))"
  by (auto simp: query_entry_def Let_def split: if_splits)

lemma query_entry_remote: "query_entry localIts hist fp = Some mit \<Longrightarrow>
    mit_remote mit = filter (\<lambda>it. it_fp it = Inr fp) hist"
  by (auto simp: query_entry_def Let_def split: if_splits)

lemma query_entry_ok:
  assumes "query_entry localIts hist fp = Some mit" "list_all it_ok localIts" "list_all it_ok hist"
  shows "mit_ok mit"
proof -
  let ?ls = "filter (\<lambda>it. it_fp it = Inr fp) localIts"
  have "it_ok (last ?ls)" if "?ls \<noteq> []"
    using assms(2) last_in_set [OF that] by (auto simp: list_all_iff)
  then show ?thesis
    using assms query_entry_local [OF assms(1)] query_entry_remote [OF assms(1)]
    by (auto simp: mit_ok_def list_all_iff Let_def)
qed

lemma query_its:
  assumes "gm_ok m" "gm_get m = query_entry localIts hist"
  shows "map it_fp (map (\<lambda>(fp, mit). mit_iterator mit) m) = map (Inr \<circ> fst) m"
proof -
  have "it_fp (mit_iterator mit) = Inr fp" if "(fp, mit) \<in> set m" for fp mit
  proof (rule query_entry_fp)
    show "query_entry localIts hist fp = Some mit"
      using that assms(1) unfolding assms(2) [symmetric] by (simp add: gm_get_Some_iff)
  qed
  then show ?thesis
    by auto
qed

lemma remote_its_ignore:
  "remote_its (\<lambda>r. Inr (case qFn r of Inl _ \<Rightarrow> [] | Inr its \<Rightarrow> its)) = remote_its qFn"
  by (simp add: remote_its_def fun_eq_iff)

section \<open>Properties\<close>

lemma query_map_covers:
  assumes "list_all has_fp localIts" "list_all has_fp (all_remote_its qFn q)"
    and "gm_ok m" "gm_get m = query_entry localIts hist" "mset hist = mset (all_remote_its qFn q)"
  shows "distinct (map it_fp (map (\<lambda>(fp, mit). mit_iterator mit) m)) \<and>
    it_fp ` set (map (\<lambda>(fp, mit). mit_iterator mit) m) = it_fp ` (set localIts \<union> set (all_remote_its qFn q))"
proof -
  let ?its = "map (\<lambda>(fp, mit). mit_iterator mit) m"
  have fps: "map it_fp ?its = map (Inr \<circ> fst) m"
    using query_its [OF assms(3,4)] .
  have "distinct (map it_fp ?its)"
    using assms(3) unfolding fps gm_ok_def by (simp add: distinct_map comp_inj_on inj_on_def)
  moreover have "it_fp ` set ?its = Inr ` dom (gm_get m)"
    using arg_cong [OF fps, of set] by (simp add: dom_gm_get image_comp)
  moreover have "Inr ` dom (gm_get m) = it_fp ` (set localIts \<union> set (all_remote_its qFn q))"
  proof -
    have "dom (gm_get m) = {fp. Inr fp \<in> it_fp ` (set localIts \<union> set hist)}"
      using query_entry_dom [of localIts hist] assms(4) by (auto simp: domIff simp del: image_Un)
    moreover have "set hist = set (all_remote_its qFn q)"
      using assms(5) by (metis set_mset_mset)
    moreover have "\<exists>fp. it_fp it = Inr fp" if "it \<in> set localIts \<union> set (all_remote_its qFn q)" for it
      using that assms(1,2) by (auto simp: list_all_iff has_fp_iff)
    ultimately show ?thesis
      by (simp only: image_Inr_all)
  qed
  ultimately show ?thesis
    by (simp only: simp_thms)
qed

lemma fanin_query_complete:
  assumes "qFn (fq_local q) = Inr localIts"
    and "list_all has_fp localIts" "list_all has_fp (all_remote_its qFn q)"
    and "\<forall>g < length (fq_remotes q). length (remote_its qFn (fq_remotes q ! g)) \<le> count_list sched g"
  shows "\<exists>its. fanin_query local_only sched qFn q = Inr (Some (Inr its))"
proof -
  obtain m0 where m0: "local_its_loop [] localIts = Inr m0"
    using local_its_loop_spec [OF assms(2), of "[]"] by auto
  let ?gs = "map (remote_its qFn) (fq_remotes q)"
  have "list_all (list_all has_fp) ?gs"
    using assms(3) by (auto simp: all_remote_its_def list_all_iff)
  moreover have "\<forall>g < length ?gs. length (?gs ! g) \<le> count_list sched g"
    using assms(4) by simp
  ultimately obtain m where "run_goroutines sched m0 ?gs = Inr (Some m)"
    using run_goroutines_complete by blast
  then show ?thesis
    using assms(1) m0 by (auto simp: fanin_query_def)
qed


text \<open>A closed instance: one local series, two remotes that know it and one that fails.\<close>

definition qFn_ex :: "nat \<Rightarrow> string + SeriesIterator list" where
  "qFn_ex n = (if n = 0 then Inr [it_of [(5, 50), (7, 70)]]
     else if n = 1 then Inr [it_of [(2, 20), (6, 60)]]
     else if n = 2 then Inl ''timeout'' else Inr [it_of [(1, 10), (2, 21)]])"

definition q_ex :: "nat fquerier" where
  "q_ex = \<lparr>fq_local = 0, fq_remotes = [1, 2, 3]\<rparr>"

lemma it_fp_it_of [simp]: "it_fp (it_of tvs) = Inr hashNew"
  by (simp add: it_fp_def it_of_def stream_of_def sampleStreamIterator_def labelset_Fingerprint_def)

lemma has_fp_it_of [simp]: "has_fp (it_of tvs)"
  by (simp add: has_fp_iff)

lemma query_ex_local: "qFn_ex (fq_local q_ex) = Inr [it_of [(5, 50), (7, 70)]]"
  by (simp add: qFn_ex_def q_ex_def)

lemma query_ex_some: "fq_remotes q_ex \<noteq> []"
  by (simp add: q_ex_def)

lemma query_ex_remotes:
  "all_remote_its qFn_ex q_ex = [it_of [(2, 20), (6, 60)], it_of [(1, 10), (2, 21)]]"
  by (simp add: all_remote_its_def remote_its_def qFn_ex_def q_ex_def)

lemma query_ex_run:
  "fanin_query False [0, 2] qFn_ex q_ex = Inr (Some (Inr [mit_iterator mit_ex]))"
  by (simp add: fanin_query_def qFn_ex_def q_ex_def remote_its_def merge_one_def gm_put_def
      gm_get_def mit_ex_def)


text \<open>A query whose local part succeeds returns under every schedule that gives each remote goroutine
  as many steps as its querier returned iterators: neither a failing remote nor the order of the
  goroutines blocks it or turns it into an error.\<close>

theorem fanin_query_returns:
  assumes "qFn (fq_local q) = Inr localIts"
    and "list_all has_fp localIts" "list_all has_fp (all_remote_its qFn q)"
    and "\<forall>g < length (fq_remotes q). length (remote_its qFn (fq_remotes q ! g)) \<le> count_list sched g"
  shows "\<exists>its. fanin_query local_only sched qFn q = Inr (Some (Inr its))"
  using assms by (rule fanin_query_complete)

theorem fanin_query_returns_witness:
  "\<exists>its. fanin_query False [2, 1, 0] qFn_ex q_ex = Inr (Some (Inr its))"
  by (rule fanin_query_returns [where qFn = qFn_ex and q = q_ex, OF query_ex_local])
    (simp_all add: query_ex_remotes, simp add: q_ex_def remote_its_def qFn_ex_def less_Suc_eq numeral_3_eq_3)



definition qFn_agree :: "nat \<Rightarrow> string + SeriesIterator list" where
  "qFn_agree n = (if n = 0 then Inr [it_of [(5, 50), (7, 70)]]
     else if n = 1 then Inr [it_of [(2, 20), (6, 60)]]
     else if n = 2 then Inl ''timeout'' else Inr [it_of [(1, 10), (2, 20)]])"

lemma qFn_agree_runs:
  "fanin_query False [0, 2] qFn_agree q_ex = Inr (Some (Inr [mit_iterator
     \<lparr>mit_local = Some (it_of [(5, 50), (7, 70)]),
      mit_remote = [it_of [(2, 20), (6, 60)], it_of [(1, 10), (2, 20)]]\<rparr>]))"
  "fanin_query False [2, 0] qFn_agree q_ex = Inr (Some (Inr [mit_iterator
     \<lparr>mit_local = Some (it_of [(5, 50), (7, 70)]),
      mit_remote = [it_of [(1, 10), (2, 20)], it_of [(2, 20), (6, 60)]]\<rparr>]))"
  by (simp_all add: fanin_query_def qFn_agree_def q_ex_def remote_its_def merge_one_def gm_put_def
      gm_get_def)

lemma qFn_agree_remotes:
  "all_remote_its qFn_agree q_ex = [it_of [(2, 20), (6, 60)], it_of [(1, 10), (2, 20)]]"
  by (simp add: all_remote_its_def remote_its_def qFn_agree_def q_ex_def)

lemma ex_it_ok:
  "it_ok (it_of [(5, 50), (7, 70)])" "it_ok (it_of [(2, 20), (6, 60)])" "it_ok (it_of [(1, 10), (2, 20)])"
  unfolding it_of_def by (rule it_ok_stream, simp add: ex_defs)+

lemma ex_it_samples:
  "it_samples (it_of [(2, 20), (6, 60)]) = [sp_at 2 20, sp_at 6 60]"
  "it_samples (it_of [(1, 10), (2, 20)]) = [sp_at 1 10, sp_at 2 20]"
  unfolding it_of_def by (subst it_samples_stream; simp add: ex_defs)+


text \<open>Errors and the local-only mode: an error of the local querier is the query's error; with the
  local-only context, or without remotes, the iterators of the local querier are returned as they
  are; and an error of a remote querier is never reported, the answer being that of a remote that
  knows no series.\<close>

theorem fanin_query_errors:
  "fanin_query lo sched qFn q =
     (case qFn (fq_local q) of
        Inl err \<Rightarrow> Inr (Some (Inl err))
      | Inr localIts \<Rightarrow>
          if lo \<or> fq_remotes q = [] then Inr (Some (Inr localIts))
          else fanin_query False sched (\<lambda>r. Inr (case qFn r of Inl _ \<Rightarrow> [] | Inr its \<Rightarrow> its)) q)"
  by (auto simp: fanin_query_def remote_its_ignore split: sum.splits)

text \<open>Where the merging iterator departs from the contract of a series iterator. A local sample
  before the interval does not keep remote samples out of it, although the value at the end of the
  interval is the local one: for one local sample at time 1 and one remote sample at time 6, the
  range from 5 to 9 holds the remote sample, while the value at time 9 is the local sample.\<close>

theorem mit_local_range_value_differ:
  "\<exists>mit iv vs. mit_ok mit \<and> ordered iv \<and> mit_RangeValues mit iv = Inr vs \<and> vs \<noteq> [] \<and>
     mit_ValueAtOrBeforeTime mit (NewestInclusive iv) \<noteq> last vs"
proof -
  let ?l = "stream_of [(1, 10)]" and ?r = "stream_of [(6, 60)]"
  let ?mit = "\<lparr>mit_local = Some (it_of [(1, 10)]), mit_remote = [it_of [(6, 60)]]\<rparr>"
  let ?iv = "\<lparr>OldestInclusive = 5, NewestInclusive = 9\<rparr>"
  have so: "stream_ok (ss_Values ?l)" "stream_ok (ss_Values ?r)"
    by (simp_all add: ex_defs)
  then have ok: "mit_ok ?mit" and smp: "it_samples (it_of [(1, 10)]) = [sp_at 1 10]"
      "it_samples (it_of [(6, 60)]) = [sp_at 6 60]"
    by (simp_all add: mit_ok_def it_of_def) (simp_all add: stream_of_def)
  have "mit_RangeValues ?mit ?iv = Inr [sp_at 6 60]"
    by (subst mit_range_eq [OF ok])
      (simp_all add: ordered_def local_values_def remote_samples_def smp, simp add: in_interval_def sp_at_def)
  moreover have "mit_ValueAtOrBeforeTime ?mit 9 = sp_at 1 10"
    by (subst mit_value_eq [OF ok])
      (simp add: smp last_at_def, simp add: sp_at_def ZeroSamplePair_def Earliest_def MinInt64_def)
  ultimately show ?thesis
    using ok by (intro exI [of _ ?mit] exI [of _ ?iv] exI [of _ "[sp_at 6 60]"])
      (simp add: ordered_def sp_at_def)
qed

end
