(* ===== verification/Fanin_Race.thy ===== *)
theory Fanin_Race
  imports Fanin_Query
begin

text \<open>
  The goroutines of \<open>fanin.query\<close> share the map \<open>fpToIt\<close> without a lock. Here a round of the loop in
  \<open>mergeIterators\<close> is the two accesses it makes: the lookup \<open>fpIts, ok := fpToIt[fp]\<close> and the write that
  depends on it. The map holds pointers, so the merging iterators live in a heap. The step relation
  interleaves the accesses of all goroutines.
\<close>

datatype racepc = Look | Create Fingerprint | Extend Fingerprint nat

record goroutine =
  todo :: "SeriesIterator list"
  rpc :: racepc

record race_state =
  heap :: "mergeIterator list"
  fptab :: "(Fingerprint, nat) gomap"
  gors :: "goroutine list"

text \<open>The goroutine looks its next iterator up: it found nothing (\<open>miss\<close>) or a pointer (\<open>hit\<close>). Then it
  stores a new merging iterator (\<open>create\<close>) or appends to the one that the map holds by then
  (\<open>extend\<close>), reading the slice through the pointer it had found.\<close>

inductive race_step :: "race_state \<Rightarrow> race_state \<Rightarrow> bool" where
  miss: "\<lbrakk>g < length (gors s); gors s ! g = \<lparr>todo = it # its, rpc = Look\<rparr>; it_fp it = Inr fp;
      gm_get (fptab s) fp = None\<rbrakk> \<Longrightarrow>
    race_step s (s\<lparr>gors := (gors s)[g := \<lparr>todo = it # its, rpc = Create fp\<rparr>]\<rparr>)"
| hit: "\<lbrakk>g < length (gors s); gors s ! g = \<lparr>todo = it # its, rpc = Look\<rparr>; it_fp it = Inr fp;
      gm_get (fptab s) fp = Some a\<rbrakk> \<Longrightarrow>
    race_step s (s\<lparr>gors := (gors s)[g := \<lparr>todo = it # its, rpc = Extend fp a\<rparr>]\<rparr>)"
| create: "\<lbrakk>g < length (gors s); gors s ! g = \<lparr>todo = it # its, rpc = Create fp\<rparr>\<rbrakk> \<Longrightarrow>
    race_step s (s\<lparr>heap := heap s @ [\<lparr>mit_local = None, mit_remote = [it]\<rparr>],
      fptab := gm_put (fptab s) fp (length (heap s)),
      gors := (gors s)[g := \<lparr>todo = its, rpc = Look\<rparr>]\<rparr>)"
| extend: "\<lbrakk>g < length (gors s); gors s ! g = \<lparr>todo = it # its, rpc = Extend fp a\<rparr>;
      gm_get (fptab s) fp = Some b; a < length (heap s); b < length (heap s)\<rbrakk> \<Longrightarrow>
    race_step s (s\<lparr>heap := (heap s)[b := (heap s ! b)\<lparr>mit_remote := mit_remote (heap s ! a) @ [it]\<rparr>],
      gors := (gors s)[g := \<lparr>todo = its, rpc = Look\<rparr>]\<rparr>)"

inductive_cases race_step_cases: "race_step s t"

definition race_start :: "SeriesIterator list list \<Rightarrow> race_state" where
  "race_start gs = \<lparr>heap = [], fptab = [], gors = map (\<lambda>its. \<lparr>todo = its, rpc = Look\<rparr>) gs\<rparr>"

definition race_finished :: "race_state \<Rightarrow> bool" where
  "race_finished s \<longleftrightarrow> list_all (\<lambda>g. todo g = [] \<and> rpc g = Look) (gors s)"

text \<open>The iterators that the map reaches for a fingerprint.\<close>

definition race_remote :: "race_state \<Rightarrow> Fingerprint \<Rightarrow> SeriesIterator list" where
  "race_remote s fp = (case gm_get (fptab s) fp of None \<Rightarrow> [] | Some a \<Rightarrow> mit_remote (heap s ! a))"

section \<open>The invariant\<close>

text \<open>Whatever the interleaving, the map only ever holds iterators of the right fingerprint that some
  remote returned, and its pointers stay inside the heap.\<close>

definition cell_ok :: "SeriesIterator set \<Rightarrow> mergeIterator \<Rightarrow> bool" where
  "cell_ok S m \<longleftrightarrow> mit_remote m \<noteq> [] \<and> set (mit_remote m) \<subseteq> S \<and>
     (\<forall>it \<in> set (mit_remote m). it_fp it = it_fp (hd (mit_remote m)))"

definition ptr_ok :: "mergeIterator list \<Rightarrow> Fingerprint \<Rightarrow> nat \<Rightarrow> bool" where
  "ptr_ok h fp a \<longleftrightarrow> a < length h \<and> it_fp (hd (mit_remote (h ! a))) = Inr fp"

definition pc_ok :: "mergeIterator list \<Rightarrow> goroutine \<Rightarrow> bool" where
  "pc_ok h g = (case rpc g of
       Look \<Rightarrow> True
     | Create fp \<Rightarrow> todo g \<noteq> [] \<and> it_fp (hd (todo g)) = Inr fp
     | Extend fp a \<Rightarrow> todo g \<noteq> [] \<and> it_fp (hd (todo g)) = Inr fp \<and> ptr_ok h fp a)"

definition race_inv :: "SeriesIterator set \<Rightarrow> race_state \<Rightarrow> bool" where
  "race_inv S s \<longleftrightarrow>
     (\<forall>fp a. gm_get (fptab s) fp = Some a \<longrightarrow> ptr_ok (heap s) fp a) \<and>
     (\<forall>m \<in> set (heap s). cell_ok S m) \<and>
     (\<forall>g \<in> set (gors s). set (todo g) \<subseteq> S \<and> pc_ok (heap s) g)"

lemma cell_ok_append:
  assumes "cell_ok S m" "it \<in> S" "it_fp (hd (mit_remote m)) = Inr fp" "it_fp it = Inr fp"
  shows "cell_ok S (m'\<lparr>mit_remote := mit_remote m @ [it]\<rparr>)"
proof -
  have "\<forall>i \<in> set (mit_remote m). it_fp i = Inr fp" and ne: "mit_remote m \<noteq> []" "set (mit_remote m) \<subseteq> S"
    using assms(1,3) unfolding cell_ok_def by metis+
  then have "\<forall>i \<in> set (mit_remote m @ [it]). it_fp i = Inr fp"
    using assms(4) by simp
  moreover have "hd (mit_remote m @ [it]) = hd (mit_remote m)"
    using ne by simp
  ultimately show ?thesis
    using assms(2,3) ne unfolding cell_ok_def by simp
qed

lemma pc_ok_mono:
  "pc_ok h g \<Longrightarrow> (\<And>fp a. ptr_ok h fp a \<Longrightarrow> ptr_ok h' fp a) \<Longrightarrow> pc_ok h' g"
  by (auto simp: pc_ok_def split: racepc.splits)

lemma race_inv_update:
  assumes "race_inv S s" "g < length (gors s)" "set (todo g') \<subseteq> S" "pc_ok h' g'"
    and "\<And>fp a. ptr_ok (heap s) fp a \<Longrightarrow> ptr_ok h' fp a"
    and "\<And>fp a. gm_get t' fp = Some a \<Longrightarrow> ptr_ok h' fp a"
    and "\<And>m. m \<in> set h' \<Longrightarrow> cell_ok S m"
  shows "race_inv S (s\<lparr>heap := h', fptab := t', gors := (gors s)[g := g']\<rparr>)"
proof -
  have "set (todo x) \<subseteq> S \<and> pc_ok h' x" if "x \<in> set ((gors s)[g := g'])" for x
    using set_update_subset_insert [THEN subsetD, OF that] assms(1,3,4) pc_ok_mono [OF _ assms(5)]
    by (auto simp: race_inv_def)
  then show ?thesis
    using assms(6,7) by (simp add: race_inv_def)
qed

lemma race_inv_todo:
  assumes "race_inv S s" "g < length (gors s)" "gors s ! g = \<lparr>todo = xs, rpc = p\<rparr>"
  shows "set xs \<subseteq> S" "pc_ok (heap s) \<lparr>todo = xs, rpc = p\<rparr>"
proof -
  have "set (todo (gors s ! g)) \<subseteq> S \<and> pc_ok (heap s) (gors s ! g)"
    using assms(1) nth_mem [OF assms(2)] unfolding race_inv_def by blast
  then show "set xs \<subseteq> S" "pc_ok (heap s) \<lparr>todo = xs, rpc = p\<rparr>"
    using assms(3) by simp_all
qed

lemma race_step_inv:
  assumes "race_step s t" "race_inv S s"
  shows "race_inv S t"
  using assms
proof (cases rule: race_step.cases)
  case (miss g it its fp)
  have "set (it # its) \<subseteq> S"
    using race_inv_todo(1) [OF assms(2) miss(2,3)] .
  then show ?thesis
    using race_inv_update [OF assms(2) miss(2), of "\<lparr>todo = it # its, rpc = Create fp\<rparr>" "heap s" "fptab s"]
      assms(2) miss by (auto simp: race_inv_def pc_ok_def)
next
  case (hit g it its fp a)
  have "set (it # its) \<subseteq> S"
    using race_inv_todo(1) [OF assms(2) hit(2,3)] .
  then show ?thesis
    using race_inv_update [OF assms(2) hit(2), of "\<lparr>todo = it # its, rpc = Extend fp a\<rparr>" "heap s" "fptab s"]
      assms(2) hit by (auto simp: race_inv_def pc_ok_def)
next
  case (create g it its fp)
  have g: "set (it # its) \<subseteq> S" "it_fp it = Inr fp"
    using race_inv_todo [OF assms(2) create(2,3)] by (auto simp: pc_ok_def)
  let ?h = "heap s @ [\<lparr>mit_local = None, mit_remote = [it]\<rparr>]"
  have mono: "ptr_ok ?h fp a" if "ptr_ok (heap s) fp a" for fp a
    using that by (auto simp: ptr_ok_def nth_append)
  have new: "ptr_ok ?h fp (length (heap s))"
    using g by (simp add: ptr_ok_def)
  have tab: "ptr_ok ?h f a" if "gm_get (gm_put (fptab s) fp (length (heap s))) f = Some a" for f a
    using that new assms(2) mono by (auto simp: gomap_simps race_inv_def split: if_splits)
  show ?thesis
    unfolding create(1)
    using g assms(2) by (intro race_inv_update [OF assms(2) create(2)] mono tab)
      (auto simp: race_inv_def pc_ok_def cell_ok_def)
next
  case (extend g it its fp a b)
  have g: "set (it # its) \<subseteq> S" "it_fp it = Inr fp" "ptr_ok (heap s) fp a"
    using race_inv_todo [OF assms(2) extend(2,3)] by (auto simp: pc_ok_def)
  have b: "ptr_ok (heap s) fp b"
    using assms(2) extend by (auto simp: race_inv_def)
  let ?c = "(heap s ! b)\<lparr>mit_remote := mit_remote (heap s ! a) @ [it]\<rparr>"
  have ca: "cell_ok S (heap s ! a)"
    using assms(2) extend by (auto simp: race_inv_def)
  then have cell: "cell_ok S ?c"
    using g by (intro cell_ok_append) (auto simp: ptr_ok_def)
  have "mit_remote (heap s ! a) \<noteq> []"
    using ca by (simp add: cell_ok_def)
  then have hd: "it_fp (hd (mit_remote ?c)) = Inr fp"
    using g(3) by (simp add: ptr_ok_def)
  have mono: "ptr_ok ((heap s)[b := ?c]) f x" if "ptr_ok (heap s) f x" for f x
  proof (cases "x = b")
    case True
    then have "f = fp"
      using that b by (simp add: ptr_ok_def)
    then show ?thesis
      using True b hd unfolding ptr_ok_def by (metis length_list_update nth_list_update_eq)
  next
    case False
    then show ?thesis
      using that by (simp add: ptr_ok_def)
  qed
  have cells: "cell_ok S m" if "m \<in> set ((heap s)[b := ?c])" for m
    using set_update_subset_insert [THEN subsetD, OF that] assms(2) cell by (auto simp: race_inv_def)
  have "race_inv S (s\<lparr>heap := (heap s)[b := ?c], fptab := fptab s,
      gors := (gors s)[g := \<lparr>todo = its, rpc = Look\<rparr>]\<rparr>)"
    using g assms(2) by (intro race_inv_update [OF assms(2) extend(2)] mono cells)
      (auto simp: race_inv_def pc_ok_def)
  then show ?thesis
    using extend(1) by simp
qed

lemma race_reachable_inv:
  assumes "race_step\<^sup>*\<^sup>* (race_start gs) s"
  shows "race_inv (\<Union> (set ` set gs)) s"
  using assms
proof (induction rule: rtranclp_induct)
  case base
  show ?case
    by (auto simp: race_inv_def race_start_def pc_ok_def)
next
  case (step s t)
  then show ?case
    using race_step_inv by blast
qed

section \<open>What the interleavings guarantee and what they lose\<close>

text \<open>Whatever the interleaving of the goroutines' accesses, the shared map only ever reaches
  iterators that some remote returned, each of them under the fingerprint of its own series.\<close>

theorem race_remote_sound:
  assumes "race_step\<^sup>*\<^sup>* (race_start gs) s" "it \<in> set (race_remote s fp)"
  shows "it_fp it = Inr fp \<and> (\<exists>its \<in> set gs. it \<in> set its)"
proof -
  let ?S = "\<Union> (set ` set gs)"
  obtain a where a: "gm_get (fptab s) fp = Some a" "it \<in> set (mit_remote (heap s ! a))"
    using assms(2) by (cases "gm_get (fptab s) fp") (simp_all add: race_remote_def)
  have inv: "race_inv ?S s"
    using race_reachable_inv [OF assms(1)] .
  then have ptr: "ptr_ok (heap s) fp a"
    using a(1) unfolding race_inv_def by blast
  then have "cell_ok ?S (heap s ! a)"
    using inv nth_mem [of a "heap s"] unfolding race_inv_def ptr_ok_def by blast
  then have "it_fp it = it_fp (hd (mit_remote (heap s ! a)))" "it \<in> ?S"
    using a(2) unfolding cell_ok_def by blast+
  then show ?thesis
    using ptr by (auto simp: ptr_ok_def)
qed

definition race_it1 :: SeriesIterator where
  "race_it1 = it_of [(1, 10)]"

definition race_it2 :: SeriesIterator where
  "race_it2 = it_of [(2, 20)]"

lemma race_it_fp: "it_fp race_it1 = Inr hashNew" "it_fp race_it2 = Inr hashNew"
  by (simp_all add: race_it1_def race_it2_def it_fp_it_of)

definition race_lost :: race_state where
  "race_lost = \<lparr>heap = [\<lparr>mit_local = None, mit_remote = [race_it1]\<rparr>, \<lparr>mit_local = None, mit_remote = [race_it2]\<rparr>],
     fptab = gm_put (gm_put [] hashNew 0) hashNew 1,
     gors = [\<lparr>todo = [], rpc = Look\<rparr>, \<lparr>todo = [], rpc = Look\<rparr>]\<rparr>"

text \<open>Both goroutines look the series up before either stores it.\<close>

lemma race_lost_reachable: "race_step\<^sup>*\<^sup>* (race_start [[race_it1], [race_it2]]) race_lost"
proof -
  define g1 where "g1 p = \<lparr>todo = [race_it1], rpc = p\<rparr>" for p
  define g2 where "g2 p = \<lparr>todo = [race_it2], rpc = p\<rparr>" for p
  define g0 where "g0 = \<lparr>todo = ([] :: SeriesIterator list), rpc = Look\<rparr>"
  define m where "m it = \<lparr>mit_local = None, mit_remote = [it]\<rparr>" for it
  let ?s0 = "\<lparr>heap = [], fptab = [], gors = [g1 Look, g2 Look]\<rparr>"
  let ?s1 = "\<lparr>heap = [], fptab = [], gors = [g1 (Create hashNew), g2 Look]\<rparr>"
  let ?s2 = "\<lparr>heap = [], fptab = [], gors = [g1 (Create hashNew), g2 (Create hashNew)]\<rparr>"
  let ?s3 = "\<lparr>heap = [m race_it1], fptab = gm_put [] hashNew 0, gors = [g0, g2 (Create hashNew)]\<rparr>"
  let ?s4 = "\<lparr>heap = [m race_it1, m race_it2], fptab = gm_put (gm_put [] hashNew 0) hashNew 1, gors = [g0, g0]\<rparr>"
  note d = g1_def g2_def g0_def m_def
  have 1: "race_step ?s0 ?s1"
    using race_step.miss [of 0 ?s0 race_it1 "[]" hashNew] by (simp add: d race_it_fp gm_get_def)
  have 2: "race_step ?s1 ?s2"
    using race_step.miss [of 1 ?s1 race_it2 "[]" hashNew] by (simp add: d race_it_fp gm_get_def)
  have 3: "race_step ?s2 ?s3"
    using race_step.create [of 0 ?s2 race_it1 "[]" hashNew] by (simp add: d)
  have 4: "race_step ?s3 ?s4"
    using race_step.create [of 1 ?s3 race_it2 "[]" hashNew] by (simp add: d)
  have "race_step\<^sup>*\<^sup>* ?s0 ?s4"
    using 1 2 3 4 by (meson converse_rtranclp_into_rtranclp rtranclp.rtrancl_refl)
  then show ?thesis
    by (simp add: race_start_def race_lost_def d)
qed

theorem race_remote_sound_witness:
  "it_fp race_it2 = Inr hashNew \<and> (\<exists>its \<in> set [[race_it1], [race_it2]]. race_it2 \<in> set its)"
  by (rule race_remote_sound [OF race_lost_reachable])
    (simp add: race_remote_def race_lost_def gomap_simps)

text \<open>C38. A lost update: two remotes return the same series, both goroutines finish, and yet the map
  reaches only the second remote's iterator. The samples of the first are missing from the answer.\<close>

theorem race_lost_update:
  "\<exists>s. race_step\<^sup>*\<^sup>* (race_start [[race_it1], [race_it2]]) s \<and> race_finished s \<and>
     it_fp race_it1 = Inr hashNew \<and> race_it1 \<notin> set (race_remote s hashNew)"
proof (intro exI conjI)
  show "race_step\<^sup>*\<^sup>* (race_start [[race_it1], [race_it2]]) race_lost"
    by (rule race_lost_reachable)
  show "race_finished race_lost"
    by (simp add: race_finished_def race_lost_def)
  show "it_fp race_it1 = Inr hashNew"
    by (rule race_it_fp)
  have "it_samples race_it1 \<noteq> it_samples race_it2"
    unfolding race_it1_def race_it2_def it_of_def
    by (simp add: it_samples_stream ex_defs)
  then show "race_it1 \<notin> set (race_remote race_lost hashNew)"
    by (auto simp: race_remote_def race_lost_def gomap_simps)
qed

end
