(* ===== verification/Label_Matcher.thy ===== *)
theory Label_Matcher
  imports Go_Prelude Model_Types
begin

text \<open>
  Label matchers (\<open>src/storage/metric/matcher.go\<close>): the match types, the constructor with its
  compiled regular expression and its cardinality score, \<open>Match\<close>, \<open>Filter\<close> and the rendering. A
  compiled regular expression is its \<open>MatchString\<close> method; \<open>regexp.Compile\<close> and the quoting verb
  \<open>%q\<close> are parameters. The score is computed in \<open>float64\<close> arithmetic.

  The lemmas show what a constructed matcher matches and that the score orders matchers as its
  comment says: a matcher that matches the empty string is last, and the match types before it never
  overlap.
\<close>

section \<open>The model\<close>

text \<open>\<open>MatchType\<close> is an \<open>int\<close>; a value other than the four constants makes the code panic.\<close>

datatype MatchType = Equal | NotEqual | RegexMatch | RegexNoMatch | OtherMatchType int

definition MatchType_String :: "MatchType \<Rightarrow> panic + string" where
  "MatchType_String m = (case m of
       Equal \<Rightarrow> Inr ''=''
     | NotEqual \<Rightarrow> Inr ''!=''
     | RegexMatch \<Rightarrow> Inr ''=~''
     | RegexNoMatch \<Rightarrow> Inr ''!~''
     | OtherMatchType _ \<Rightarrow> Inl (ExplicitPanic ''unknown match type''))"

record LabelMatcher =
  lm_Type :: MatchType
  lm_Name :: LabelName
  lm_Value :: LabelValue
  lm_re :: "(string \<Rightarrow> bool) option"
  lm_score :: float64

definition matcher_Match :: "LabelMatcher \<Rightarrow> LabelValue \<Rightarrow> panic + bool" where
  "matcher_Match m v = (case lm_Type m of
       Equal \<Rightarrow> Inr (lm_Value m = v)
     | NotEqual \<Rightarrow> Inr (lm_Value m \<noteq> v)
     | RegexMatch \<Rightarrow> (case lm_re m of None \<Rightarrow> Inl NilDereference | Some re \<Rightarrow> Inr (re v))
     | RegexNoMatch \<Rightarrow> (case lm_re m of None \<Rightarrow> Inl NilDereference | Some re \<Rightarrow> Inr (\<not> re v))
     | OtherMatchType _ \<Rightarrow> Inl (ExplicitPanic ''invalid match type''))"

definition InstanceLabel :: LabelName where "InstanceLabel = ''instance''"
definition JobLabel :: LabelName where "JobLabel = ''job''"
definition BucketLabel :: LabelName where "BucketLabel = ''le''"
definition QuantileLabel :: LabelName where "QuantileLabel = ''quantile''"
definition MetricNameLabel :: LabelName where "MetricNameLabel = ''__name__''"

text \<open>A decimal constant of the source is the \<open>float64\<close> nearest to it.\<close>

definition f_lit :: "rat \<Rightarrow> float64" where
  "f_lit x = f_round x"

definition lengthCorrection :: "LabelMatcher \<Rightarrow> float64" where
  "lengthCorrection m = f_mul (f_lit (1 / 10))
     (f_sub (F_Fin 1) (f_div (F_Fin 1) (f_of_int (int (length (lm_Name m) + length (lm_Value m) + 1)))))"

text \<open>The two switches of \<open>calculateScore\<close> on the match type and on the name of the label.\<close>

definition score_by_type :: "LabelMatcher \<Rightarrow> float64" where
  "score_by_type m = (case lm_Type m of
       Equal \<Rightarrow> f_sub (f_lit (3 / 10)) (lengthCorrection m)
     | RegexMatch \<Rightarrow> f_sub (f_lit (6 / 10)) (lengthCorrection m)
     | RegexNoMatch \<Rightarrow> f_add (f_lit (8 / 10)) (lengthCorrection m)
     | NotEqual \<Rightarrow> f_add (f_lit (9 / 10)) (lengthCorrection m)
     | OtherMatchType _ \<Rightarrow> lm_score m)"

definition score_by_name :: "LabelMatcher \<Rightarrow> float64 \<Rightarrow> float64" where
  "score_by_name m score =
     (if lm_Name m = InstanceLabel then f_sub score (f_lit (2 / 10))
      else if lm_Name m = JobLabel then f_add score (f_lit (1 / 10))
      else if lm_Name m = BucketLabel \<or> lm_Name m = QuantileLabel then f_add score (f_lit (2 / 10))
      else if lm_Name m = MetricNameLabel then
        (if str_contains (lm_Value m) '':'' then f_sub score (f_lit (1 / 10))
         else if lm_Value m = ''up'' \<or> lm_Value m = ''scrape_duration_seconds''
           then f_sub score (f_lit (5 / 100))
         else score)
      else score)"

definition calculateScore :: "LabelMatcher \<Rightarrow> panic + LabelMatcher" where
  "calculateScore m = (case matcher_Match m '''' of
       Inl p \<Rightarrow> Inl p
     | Inr True \<Rightarrow> Inr (m\<lparr>lm_score := F_Fin 1\<rparr>)
     | Inr False \<Rightarrow> Inr (m\<lparr>lm_score :=
         (if lm_Type m \<noteq> Equal then score_by_type m else score_by_name m (score_by_type m))\<rparr>))"

definition NewLabelMatcher ::
  "(string \<Rightarrow> 'e + (string \<Rightarrow> bool)) \<Rightarrow> MatchType \<Rightarrow> LabelName \<Rightarrow> LabelValue \<Rightarrow>
   panic + ('e + LabelMatcher)" where
  "NewLabelMatcher compile matchType name value =
    (let m = \<lparr>lm_Type = matchType, lm_Name = name, lm_Value = value, lm_re = None, lm_score = f_zero\<rparr>;
         finish = (\<lambda>m. case calculateScore m of Inl p \<Rightarrow> Inl p | Inr m' \<Rightarrow> Inr (Inr m')) in
     if matchType = RegexMatch \<or> matchType = RegexNoMatch then
       (case compile (''^(?:'' @ value @ '')$'') of
          Inl err \<Rightarrow> Inr (Inl err)
        | Inr re \<Rightarrow> finish (m\<lparr>lm_re := Some re\<rparr>))
     else finish m)"

definition MatchesEmptyString :: "LabelMatcher \<Rightarrow> bool" where
  "MatchesEmptyString m = f_le (F_Fin 1) (lm_score m)"

fun matcher_Filter :: "LabelMatcher \<Rightarrow> LabelValue list \<Rightarrow> panic + LabelValue list" where
  "matcher_Filter m [] = Inr []"
| "matcher_Filter m (v # vs) = (case matcher_Match m v of
       Inl p \<Rightarrow> Inl p
     | Inr b \<Rightarrow> (case matcher_Filter m vs of
          Inl p \<Rightarrow> Inl p
        | Inr out \<Rightarrow> Inr (if b then v # out else out)))"

text \<open>The verb \<open>%s\<close> of \<open>fmt\<close> turns a panicking \<open>String\<close> method into text.\<close>

definition matcher_String :: "(string \<Rightarrow> string) \<Rightarrow> LabelMatcher \<Rightarrow> string" where
  "matcher_String quote m = lm_Name m @
     (case MatchType_String (lm_Type m) of Inr s \<Rightarrow> s | Inl _ \<Rightarrow> ''%!s(PANIC=unknown match type)'') @
     quote (lm_Value m)"

definition LabelMatchers_String :: "(string \<Rightarrow> string) \<Rightarrow> LabelMatcher list \<Rightarrow> string" where
  "LabelMatchers_String quote lms = str_join (map (matcher_String quote) lms) '',''"

definition LabelMatchers_Less :: "LabelMatcher \<Rightarrow> LabelMatcher \<Rightarrow> bool" where
  "LabelMatchers_Less a b = f_lt (lm_score a) (lm_score b)"

section \<open>What a matcher matches\<close>

text \<open>The specification: what the arguments of the constructor say about a label value.\<close>

definition matches :: "(string \<Rightarrow> bool) \<Rightarrow> MatchType \<Rightarrow> LabelValue \<Rightarrow> LabelValue \<Rightarrow> bool" where
  "matches re t value v = (case t of
       Equal \<Rightarrow> v = value
     | NotEqual \<Rightarrow> v \<noteq> value
     | RegexMatch \<Rightarrow> re v
     | RegexNoMatch \<Rightarrow> \<not> re v
     | OtherMatchType _ \<Rightarrow> False)"

definition known_type :: "MatchType \<Rightarrow> bool" where
  "known_type t = (case t of OtherMatchType _ \<Rightarrow> False | _ \<Rightarrow> True)"

lemma calculateScore_fields:
  "calculateScore m = Inr m' \<Longrightarrow>
     lm_Type m' = lm_Type m \<and> lm_Name m' = lm_Name m \<and> lm_Value m' = lm_Value m \<and> lm_re m' = lm_re m"
  by (auto simp: calculateScore_def split: sum.splits bool.splits)

lemma match_no_score [simp]: "matcher_Match (m\<lparr>lm_score := s\<rparr>) v = matcher_Match m v"
  by (simp add: matcher_Match_def split: MatchType.split)

lemma calculateScore_match: "calculateScore m = Inr m' \<Longrightarrow> matcher_Match m' v = matcher_Match m v"
  by (auto simp: calculateScore_def split: sum.splits bool.splits)

lemma calculateScore_total: "matcher_Match m '''' = Inr b \<Longrightarrow> \<exists>m'. calculateScore m = Inr m'"
  by (auto simp: calculateScore_def split: bool.splits)

lemma NewLabelMatcher_cases:
  assumes "NewLabelMatcher compile t name value = Inr (Inr m)"
  obtains m0 re where "calculateScore m0 = Inr m" "lm_Type m0 = t" "lm_Name m0 = name" "lm_Value m0 = value"
    "lm_re m0 = re"
    "t = RegexMatch \<or> t = RegexNoMatch \<Longrightarrow> \<exists>f. compile (''^(?:'' @ value @ '')$'') = Inr f \<and> re = Some f"
  using assms that
  by (simp add: NewLabelMatcher_def Let_def split: if_splits sum.splits)

lemma NewLabelMatcher_total:
  assumes "known_type t" "t = RegexMatch \<or> t = RegexNoMatch \<Longrightarrow> compile (''^(?:'' @ value @ '')$'') = Inr re"
  shows "\<exists>m. NewLabelMatcher compile t name value = Inr (Inr m)"
proof -
  let ?m = "\<lparr>lm_Type = t, lm_Name = name, lm_Value = value,
    lm_re = if t = RegexMatch \<or> t = RegexNoMatch then Some re else None, lm_score = f_zero\<rparr>"
  obtain m' where "calculateScore ?m = Inr m'"
    using calculateScore_total [of ?m] assms(1)
    by (cases t) (auto simp: matcher_Match_def known_type_def)
  then show ?thesis
    using assms by (auto simp: NewLabelMatcher_def Let_def)
qed

lemma NewLabelMatcher_fields:
  assumes "NewLabelMatcher compile t name value = Inr (Inr m)"
  shows "lm_Type m = t \<and> lm_Name m = name \<and> lm_Value m = value"
proof -
  obtain m0 where "calculateScore m0 = Inr m" "lm_Type m0 = t" "lm_Name m0 = name" "lm_Value m0 = value"
    using NewLabelMatcher_cases [OF assms] .
  then show ?thesis
    using calculateScore_fields by blast
qed

lemma NewLabelMatcher_match:
  assumes "NewLabelMatcher compile t name value = Inr (Inr m)"
    and "t = RegexMatch \<or> t = RegexNoMatch \<Longrightarrow> compile (''^(?:'' @ value @ '')$'') = Inr re"
  shows "matcher_Match m v = Inr (matches re t value v)"
proof -
  obtain m0 re0 where m0: "calculateScore m0 = Inr m" "lm_Type m0 = t" "lm_Value m0 = value" "lm_re m0 = re0"
      "t = RegexMatch \<or> t = RegexNoMatch \<Longrightarrow> \<exists>f. compile (''^(?:'' @ value @ '')$'') = Inr f \<and> re0 = Some f"
    using NewLabelMatcher_cases [OF assms(1)] by metis
  have "matcher_Match m0 v = Inr (matches re t value v)"
    using m0 assms(2)
    by (cases t) (auto simp: matcher_Match_def matches_def calculateScore_def)
  then show ?thesis
    using calculateScore_match [OF m0(1)] by simp
qed

lemma matcher_Filter_eq:
  "(\<And>v. v \<in> set vs \<Longrightarrow> matcher_Match m v = Inr (P v)) \<Longrightarrow> matcher_Filter m vs = Inr (filter P vs)"
  by (induction vs) auto

text \<open>The constructor, on every branch: a known match type whose anchored expression compiles gives a
  matcher that matches exactly the values its arguments describe, and whose \<open>Filter\<close> keeps exactly these
  in order; an expression that does not compile gives the compiler's error, and an unknown match type a
  panic.\<close>

theorem NewLabelMatcher_correct:
  assumes "t = RegexMatch \<or> t = RegexNoMatch \<Longrightarrow> compile (''^(?:'' @ value @ '')$'') = res"
  shows "(case t of
      OtherMatchType _ \<Rightarrow> NewLabelMatcher compile t name value = Inl (ExplicitPanic ''invalid match type'')
    | _ \<Rightarrow> (case (t = RegexMatch \<or> t = RegexNoMatch, res) of
        (True, Inl err) \<Rightarrow> NewLabelMatcher compile t name value = Inr (Inl err)
      | _ \<Rightarrow> (\<exists>m. NewLabelMatcher compile t name value = Inr (Inr m) \<and>
          lm_Type m = t \<and> lm_Name m = name \<and> lm_Value m = value \<and>
          (\<forall>v. matcher_Match m v = Inr (matches (projr res) t value v)) \<and>
          (\<forall>vs. matcher_Filter m vs = Inr (filter (matches (projr res) t value) vs)))))"
proof (cases "known_type t \<and> \<not> ((t = RegexMatch \<or> t = RegexNoMatch) \<and> isl res)")
  case True
  then have known: "known_type t" and
    re: "t = RegexMatch \<or> t = RegexNoMatch \<Longrightarrow> compile (''^(?:'' @ value @ '')$'') = Inr (projr res)"
    using assms by (auto simp: sum.collapse(2))
  obtain m where m: "NewLabelMatcher compile t name value = Inr (Inr m)"
    using NewLabelMatcher_total [of t compile "value" "projr res" name] known re by blast
  have "\<forall>v. matcher_Match m v = Inr (matches (projr res) t value v)"
    using NewLabelMatcher_match [where compile = compile, OF m re] by blast
  then show ?thesis
    using True m NewLabelMatcher_fields [OF m] matcher_Filter_eq
    by (cases t; cases res) (auto simp: known_type_def)
next
  case False
  then show ?thesis
    using assms
    by (cases t; cases res)
      (auto simp: known_type_def NewLabelMatcher_def calculateScore_def matcher_Match_def)
qed

theorem NewLabelMatcher_correct_witness:
  "\<exists>m. NewLabelMatcher (\<lambda>e. if e = ''^(?:a*)$'' then Inr (\<lambda>v. set v \<subseteq> {CHR ''a''}) else Inl ()) RegexNoMatch
       ''l'' ''a*'' = Inr (Inr m) \<and>
     matcher_Filter m [''aa'', ''ab'', ''b''] = Inr [''ab'', ''b'']"
  using NewLabelMatcher_correct [of RegexNoMatch
      "\<lambda>e. if e = ''^(?:a*)$'' then Inr (\<lambda>v. set v \<subseteq> {CHR ''a''}) else Inl ()" "''a*''"
      "Inr (\<lambda>v. set v \<subseteq> {CHR ''a''})" "''l''"]
  by (auto simp: matches_def)

section \<open>The score\<close>

text \<open>The constants of \<open>calculateScore\<close> in units of \<open>2\<^sup>-\<^sup>5\<^sup>0\<close>.\<close>

lemma f_btw_lit:
  "of_int a / 2 ^ 50 \<le> x \<Longrightarrow> x \<le> of_int b / 2 ^ 50 \<Longrightarrow> \<bar>a\<bar> < 2 ^ 53 \<Longrightarrow> \<bar>b\<bar> < 2 ^ 53 \<Longrightarrow> f_btw a (f_lit x) b"
  unfolding f_lit_def by (rule f_btw_round)

lemma f_lit_bounds:
  "f_btw 56294995342131 (f_lit (5 / 100)) 56294995342132"
  "f_btw 112589990684262 (f_lit (1 / 10)) 112589990684263"
  "f_btw 225179981368524 (f_lit (2 / 10)) 225179981368525"
  "f_btw 337769972052787 (f_lit (3 / 10)) 337769972052788"
  "f_btw 675539944105574 (f_lit (6 / 10)) 675539944105575"
  "f_btw 900719925474099 (f_lit (8 / 10)) 900719925474100"
  "f_btw 1013309916158361 (f_lit (9 / 10)) 1013309916158362"
  by (rule f_btw_lit; simp)+

lemma f_btw_one: "f_btw 1125899906842624 (F_Fin 1) 1125899906842624"
  by (simp add: f_btw_def)

lemma f_of_int_exact: "\<bar>i\<bar> < 2 ^ 53 \<Longrightarrow> f_of_int i = F_Fin (of_int i)"
proof -
  assume i: "\<bar>i\<bar> < 2 ^ 53"
  then have "rnd (of_int i) = of_int i"
    using rnd_dyadic [of i 0] by simp
  moreover have "\<bar>of_int i :: rat\<bar> < 2 ^ 1024"
  proof -
    have "\<bar>of_int i :: rat\<bar> < of_int (2 ^ 53)"
      using i by (simp only: of_int_abs [symmetric] of_int_less_iff)
    also have "\<dots> < 2 ^ 1024"
      by (simp add: power_strict_increasing)
    finally show ?thesis .
  qed
  ultimately show ?thesis
    by (auto simp: f_of_int_def f_round_def Let_def abs_less_iff)
qed

text \<open>A label of realistic length: a little more than a terabyte for the name and the value together.\<close>

definition short :: "LabelMatcher \<Rightarrow> bool" where
  "short m \<longleftrightarrow> length (lm_Name m) + length (lm_Value m) < 2 ^ 40"

lemma lengthCorrection_bounds:
  assumes "short m"
  shows "f_btw 0 (lengthCorrection m) 112589990684161"
proof -
  define n where "n = int (length (lm_Name m) + length (lm_Value m) + 1)"
  have n: "1 \<le> n" "n \<le> 2 ^ 40"
    using assms by (auto simp: n_def short_def)
  then have fn: "f_of_int n = F_Fin (of_int n)"
    by (intro f_of_int_exact) auto
  have rn: "(1 :: rat) \<le> of_int n" "(of_int n :: rat) \<le> 2 ^ 40"
    using n by (metis of_int_1 of_int_le_iff) (metis n(2) of_int_le_iff of_int_numeral of_int_power)
  then have inv: "1 / 2 ^ 40 \<le> (1 / of_int n :: rat)" "1 / of_int n \<le> (1 :: rat)"
    by (auto intro!: divide_left_mono simp: divide_le_eq)
  have "f_btw 1024 (f_div (F_Fin 1) (f_of_int n)) 1125899906842624"
    using f_btw_round [of 1024 "1 / of_int n" 1125899906842624] inv rn(1) unfolding fn by auto
  from f_btw_sub [OF f_btw_one this]
  have s: "f_btw 0 (f_sub (F_Fin 1) (f_div (F_Fin 1) (f_of_int n))) 1125899906841600"
    by simp
  then obtain r t where rt: "f_sub (F_Fin 1) (f_div (F_Fin 1) (f_of_int n)) = F_Fin r" "0 \<le> r"
      "r \<le> 1125899906841600 / 2 ^ 50"
      "f_lit (1 / 10) = F_Fin t" "112589990684262 / 2 ^ 50 \<le> t" "t \<le> 112589990684263 / 2 ^ 50"
    using f_lit_bounds(2) unfolding f_btw_def by auto
  have "t * r \<le> (112589990684263 / 2 ^ 50) * (1125899906841600 / 2 ^ 50)"
    using rt by (intro mult_mono) auto
  also have "\<dots> \<le> 112589990684161 / 2 ^ 50"
    by simp
  finally have "t * r \<le> 112589990684161 / 2 ^ 50" .
  moreover have "0 \<le> t * r"
    using rt(2,5) by simp
  ultimately have "f_btw 0 (f_round (t * r)) 112589990684161"
    by (intro f_btw_round) auto
  then show ?thesis
    using rt by (simp add: lengthCorrection_def n_def)
qed

text \<open>The range of the score of each match type, in units of \<open>2\<^sup>-\<^sup>5\<^sup>0\<close>: the ranges are disjoint and lie strictly between
  0 and 1.\<close>

fun score_range :: "MatchType \<Rightarrow> int \<times> int" where
  "score_range Equal = (1, 562949953421313)"
| "score_range RegexMatch = (562949953421413, 675539944105575)"
| "score_range RegexNoMatch = (900719925474099, 1013309916158261)"
| "score_range NotEqual = (1013309916158361, 1125899906842523)"
| "score_range (OtherMatchType _) = (0, 0)"

lemma score_by_name_range:
  assumes "f_btw 225179981368626 score 337769972052788"
  shows "f_btw 1 (score_by_name m score) 562949953421313"
proof -
  have "f_btw 1 (f_sub score (f_lit (2 / 10))) 562949953421313"
    by (rule f_btw_mono [OF f_btw_sub [OF assms f_lit_bounds(3)]]) simp_all
  moreover have "f_btw 1 (f_add score (f_lit (1 / 10))) 562949953421313"
    by (rule f_btw_mono [OF f_btw_add [OF assms f_lit_bounds(2)]]) simp_all
  moreover have "f_btw 1 (f_add score (f_lit (2 / 10))) 562949953421313"
    by (rule f_btw_mono [OF f_btw_add [OF assms f_lit_bounds(3)]]) simp_all
  moreover have "f_btw 1 (f_sub score (f_lit (1 / 10))) 562949953421313"
    by (rule f_btw_mono [OF f_btw_sub [OF assms f_lit_bounds(2)]]) simp_all
  moreover have "f_btw 1 (f_sub score (f_lit (5 / 100))) 562949953421313"
    by (rule f_btw_mono [OF f_btw_sub [OF assms f_lit_bounds(1)]]) simp_all
  moreover have "f_btw 1 score 562949953421313"
    by (rule f_btw_mono [OF assms]) simp_all
  ultimately show ?thesis
    by (simp only: score_by_name_def split: if_split) simp
qed

lemma calculateScore_range:
  assumes "calculateScore m = Inr m'" "known_type (lm_Type m)" "short m"
    and "matcher_Match m '''' = Inr False"
  shows "f_btw (fst (score_range (lm_Type m))) (lm_score m') (snd (score_range (lm_Type m)))"
proof -
  note lc = lengthCorrection_bounds [OF assms(3)]
  have eq: "f_btw 225179981368626 (f_sub (f_lit (3 / 10)) (lengthCorrection m)) 337769972052788"
    using f_btw_sub [OF f_lit_bounds(4) lc] by simp
  have "f_btw 562949953421413 (f_sub (f_lit (6 / 10)) (lengthCorrection m)) 675539944105575"
    using f_btw_sub [OF f_lit_bounds(5) lc] by simp
  moreover have "f_btw 900719925474099 (f_add (f_lit (8 / 10)) (lengthCorrection m)) 1013309916158261"
    using f_btw_add [OF f_lit_bounds(6) lc] by simp
  moreover have "f_btw 1013309916158361 (f_add (f_lit (9 / 10)) (lengthCorrection m)) 1125899906842523"
    using f_btw_add [OF f_lit_bounds(7) lc] by simp
  ultimately show ?thesis
    using assms score_by_name_range [OF eq, of m]
    by (cases "lm_Type m") (auto simp: calculateScore_def score_by_type_def known_type_def)
qed

text \<open>How selective the comment of \<open>calculateScore\<close> takes a matcher to be: by its match type, and last of
  all a matcher that matches the empty string.\<close>

definition selectivity :: "LabelMatcher \<Rightarrow> nat" where
  "selectivity m = (if matcher_Match m '''' = Inr True then 4 else
     (case lm_Type m of Equal \<Rightarrow> 0 | RegexMatch \<Rightarrow> 1 | RegexNoMatch \<Rightarrow> 2 | NotEqual \<Rightarrow> 3 | OtherMatchType _ \<Rightarrow> 4))"

lemma new_matcher_score:
  assumes "NewLabelMatcher compile t name value = Inr (Inr m)" "short m"
  shows "if matcher_Match m '''' = Inr True then lm_score m = F_Fin 1
    else f_btw (fst (score_range (lm_Type m))) (lm_score m) (snd (score_range (lm_Type m))) \<and> known_type (lm_Type m)"
proof -
  obtain m0 where m0: "calculateScore m0 = Inr m" "lm_Type m0 = t" "lm_Name m0 = name" "lm_Value m0 = value"
    using NewLabelMatcher_cases [OF assms(1)] .
  note f = calculateScore_fields [OF m0(1)]
  have k: "known_type (lm_Type m0)"
    using m0(1) by (auto simp: calculateScore_def matcher_Match_def known_type_def split: MatchType.splits)
  consider "matcher_Match m0 '''' = Inr True" | "matcher_Match m0 '''' = Inr False"
    using m0(1) by (auto simp: calculateScore_def split: sum.splits bool.splits)
  then show ?thesis
  proof cases
    case 1
    then show ?thesis
      using m0(1) by (auto simp: calculateScore_def)
  next
    case 2
    then show ?thesis
      using calculateScore_range [OF m0(1) k _ 2] calculateScore_match [OF m0(1), of "''''"] f k assms(2)
      by (simp add: short_def)
  qed
qed

text \<open>The score orders matchers as its comment says: of two matchers with labels of realistic length,
  the more selective one (first \<open>Equal\<close>, then \<open>RegexMatch\<close>, \<open>RegexNoMatch\<close>, \<open>NotEqual\<close>, and last every matcher
  that matches the empty string) sorts before the other, in \<open>float64\<close> arithmetic and whatever the
  adjustments for the label are.\<close>

theorem score_selectivity:
  assumes "NewLabelMatcher compile t1 name1 value1 = Inr (Inr m1)" "short m1"
    and "NewLabelMatcher compile t2 name2 value2 = Inr (Inr m2)" "short m2"
    and "selectivity m1 < selectivity m2"
  shows "LabelMatchers_Less m1 m2"
  unfolding LabelMatchers_Less_def
  using new_matcher_score [OF assms(1,2)] new_matcher_score [OF assms(3,4)] assms(5) f_btw_one
  by (cases "lm_Type m1"; cases "lm_Type m2")
    (auto simp: selectivity_def known_type_def elim: f_btw_less split: if_splits)

text \<open>\<open>MatchesEmptyString\<close>, which only looks at the score, holds exactly for the matchers that match the empty
  string.\<close>

theorem MatchesEmptyString_iff:
  assumes "NewLabelMatcher compile t name value = Inr (Inr m)" "short m"
  shows "MatchesEmptyString m \<longleftrightarrow> matcher_Match m '''' = Inr True"
proof (cases "matcher_Match m '''' = Inr True")
  case True
  then show ?thesis
    using new_matcher_score [OF assms] by (simp add: MatchesEmptyString_def)
next
  case False
  then have "f_lt (lm_score m) (F_Fin 1)"
    using new_matcher_score [OF assms] f_btw_one
    by (cases "lm_Type m") (auto simp: known_type_def elim: f_btw_less)
  then show ?thesis
    using False by (cases "lm_score m") (auto simp: MatchesEmptyString_def f_le_def)
qed

lemma ex_matcher:
  assumes "known_type t" "t \<noteq> RegexMatch" "t \<noteq> RegexNoMatch"
  obtains m where "NewLabelMatcher (\<lambda>_. Inl ()) t name value = Inr (Inr m)"
    "lm_Type m = t" "lm_Name m = name" "lm_Value m = value"
    "\<And>v. matcher_Match m v = Inr (matches (\<lambda>_. False) t value v)"
proof -
  obtain m where m: "NewLabelMatcher (\<lambda>_. Inl ()) t name value = Inr (Inr m)"
    using NewLabelMatcher_total [of t "\<lambda>_. Inl ()"] assms by blast
  show ?thesis
    using that [OF m] NewLabelMatcher_fields [OF m] NewLabelMatcher_match [OF m] assms by blast
qed

theorem score_selectivity_witness:
  "\<exists>m1 m2. NewLabelMatcher (\<lambda>_. Inl ()) Equal ''le'' ''0.5'' = Inr (Inr m1) \<and>
     NewLabelMatcher (\<lambda>_. Inl ()) NotEqual ''job'' '''' = Inr (Inr m2) \<and> LabelMatchers_Less m1 m2"
proof -
  obtain m1 where 1: "NewLabelMatcher (\<lambda>_. Inl ()) Equal ''le'' ''0.5'' = Inr (Inr m1)" "lm_Type m1 = Equal"
      "lm_Name m1 = ''le''" "lm_Value m1 = ''0.5''" "\<And>v. matcher_Match m1 v = Inr (matches (\<lambda>_. False) Equal ''0.5'' v)"
    by (rule ex_matcher [of Equal "''le''" "''0.5''"]) (simp_all add: known_type_def)
  obtain m2 where 2: "NewLabelMatcher (\<lambda>_. Inl ()) NotEqual ''job'' '''' = Inr (Inr m2)" "lm_Type m2 = NotEqual"
      "lm_Name m2 = ''job''" "lm_Value m2 = ''''" "\<And>v. matcher_Match m2 v = Inr (matches (\<lambda>_. False) NotEqual '''' v)"
    by (rule ex_matcher [of NotEqual "''job''" "''''"]) (simp_all add: known_type_def)
  have "LabelMatchers_Less m1 m2"
    by (rule score_selectivity [OF 1(1) _ 2(1)])
      (simp_all add: short_def 1 2 selectivity_def matches_def)
  then show ?thesis
    using 1 2 by blast
qed

theorem MatchesEmptyString_iff_witness:
  "\<exists>m. NewLabelMatcher (\<lambda>_. Inl ()) NotEqual ''job'' ''x'' = Inr (Inr m) \<and> MatchesEmptyString m"
proof -
  obtain m where m: "NewLabelMatcher (\<lambda>_. Inl ()) NotEqual ''job'' ''x'' = Inr (Inr m)" "lm_Type m = NotEqual"
      "lm_Name m = ''job''" "lm_Value m = ''x''" "\<And>v. matcher_Match m v = Inr (matches (\<lambda>_. False) NotEqual ''x'' v)"
    by (rule ex_matcher [of NotEqual "''job''" "''x''"]) (simp_all add: known_type_def)
  then show ?thesis
    using MatchesEmptyString_iff [OF m(1)] by (simp add: short_def matches_def)
qed

end
