(* ===== verification/Url_Query.thy ===== *)
theory Url_Query
  imports Go_Prelude
begin

text \<open>
  The part of Go's \<open>net/url\<close> that the clients use to build a query string: \<open>QueryEscape\<close>,
  \<open>QueryUnescape\<close>, \<open>ParseQuery\<close> as \<open>URL.Query\<close> calls it (a malformed pair is dropped), \<open>Values.Set\<close>
  and \<open>Values.Encode\<close>. The main lemma is the round trip: parsing an encoded set of values gives
  the same values back.
\<close>

type_synonym url_Values = "(string, string list) gomap"

section \<open>Escaping\<close>

definition unreserved :: "char \<Rightarrow> bool" where
  "unreserved c \<longleftrightarrow> (let n = (of_char c :: nat) in
     48 \<le> n \<and> n \<le> 57 \<or> 65 \<le> n \<and> n \<le> 90 \<or> 97 \<le> n \<and> n \<le> 122 \<or>
     c = CHR ''-'' \<or> c = CHR ''_'' \<or> c = CHR ''.'' \<or> c = CHR ''~'')"

definition hex_digit :: "nat \<Rightarrow> char" where
  "hex_digit n = char_of (if n < 10 then 48 + n else 55 + n)"

definition unhex :: "char \<Rightarrow> nat option" where
  "unhex c = (let n = of_char c in
     if 48 \<le> n \<and> n \<le> 57 then Some (n - 48)
     else if 97 \<le> n \<and> n \<le> 102 then Some (n - 87)
     else if 65 \<le> n \<and> n \<le> 70 then Some (n - 55)
     else None)"

definition escape_char :: "char \<Rightarrow> string" where
  "escape_char c =
     (if unreserved c then [c]
      else if c = CHR '' '' then ''+''
      else [CHR ''%'', hex_digit (of_char c div 16), hex_digit (of_char c mod 16)])"

definition QueryEscape :: "string \<Rightarrow> string" where
  "QueryEscape s = concat (map escape_char s)"

fun QueryUnescape :: "string \<Rightarrow> string option" where
  "QueryUnescape [] = Some []"
| "QueryUnescape (c # s) =
     (if c = CHR ''%'' then
        (case s of
           a # b # s' \<Rightarrow> (case (unhex a, unhex b, QueryUnescape s') of
               (Some x, Some y, Some r) \<Rightarrow> Some (char_of (16 * x + y) # r)
             | _ \<Rightarrow> None)
         | _ \<Rightarrow> None)
      else map_option ((#) (if c = CHR ''+'' then CHR '' '' else c)) (QueryUnescape s))"

section \<open>Query strings\<close>

text \<open>The pieces of a query string between the separators.\<close>

fun split_pairs :: "string \<Rightarrow> string list" where
  "split_pairs [] = [[]]"
| "split_pairs (c # s) =
     (if c = CHR ''&'' \<or> c = CHR '';'' then [] # split_pairs s
      else (case split_pairs s of p # ps \<Rightarrow> (c # p) # ps | [] \<Rightarrow> [[c]]))"

fun cut_eq :: "string \<Rightarrow> string \<times> string" where
  "cut_eq [] = ([], [])"
| "cut_eq (c # s) = (if c = CHR ''='' then ([], s) else (case cut_eq s of (k, v) \<Rightarrow> (c # k, v)))"

definition values_add :: "url_Values \<Rightarrow> string \<Rightarrow> string \<Rightarrow> url_Values" where
  "values_add m k v = gm_put m k ((case gm_get m k of Some vs \<Rightarrow> vs | None \<Rightarrow> []) @ [v])"

definition parse_pair :: "url_Values \<Rightarrow> string \<Rightarrow> url_Values" where
  "parse_pair m p = (if p = [] then m else
     (case cut_eq p of (k, v) \<Rightarrow> (case (QueryUnescape k, QueryUnescape v) of
         (Some k', Some v') \<Rightarrow> values_add m k' v'
       | _ \<Rightarrow> m)))"

definition url_Query :: "string \<Rightarrow> url_Values" where
  "url_Query raw = foldl parse_pair [] (split_pairs raw)"

definition values_Set :: "url_Values \<Rightarrow> string \<Rightarrow> string \<Rightarrow> url_Values" where
  "values_Set m k v = gm_put m k [v]"

text \<open>\<open>Encode\<close> writes the pairs in the order of their sorted keys.\<close>

definition encode_pairs :: "url_Values \<Rightarrow> string list" where
  "encode_pairs m = concat (map (\<lambda>k. map (\<lambda>v. QueryEscape k @ ''='' @ QueryEscape v)
     (case gm_get m k of Some vs \<Rightarrow> vs | None \<Rightarrow> [])) (sort (map fst m)))"

definition values_Encode :: "url_Values \<Rightarrow> string" where
  "values_Encode m = str_join (encode_pairs m) ''&''"

section \<open>The round trip of the escaping\<close>

lemma unhex_hex_digit: "n < 16 \<Longrightarrow> unhex (hex_digit n) = Some n"
  by (auto simp: unhex_def hex_digit_def Let_def)

lemma of_char_bounds: "(of_char c :: nat) div 16 < 16" "(of_char c :: nat) mod 16 < 16"
proof -
  have "(of_char c :: nat) < 256"
    using of_char_mod_256 [of c, where 'a = nat] by (metis mod_less_divisor zero_less_numeral)
  then show "(of_char c :: nat) div 16 < 16"
    by linarith
qed simp

lemma unreserved_plain: "unreserved c \<Longrightarrow> c \<notin> {CHR ''%'', CHR ''+'', CHR ''&'', CHR '';'', CHR ''=''}"
  by (auto simp: unreserved_def Let_def)

lemma QueryUnescape_escape_char: "QueryUnescape (escape_char c @ s) = map_option ((#) c) (QueryUnescape s)"
proof -
  have "char_of (16 * (of_char c div 16) + of_char c mod 16 :: nat) = c"
    by (simp add: mult_div_mod_eq)
  then show ?thesis
    using unreserved_plain [of c] unhex_hex_digit of_char_bounds [of c]
    by (auto simp: escape_char_def split: option.splits)
qed

lemma QueryUnescape_QueryEscape [simp]: "QueryUnescape (QueryEscape s) = Some s"
proof (induction s)
  case (Cons c s)
  then show ?case
    using QueryUnescape_escape_char [of c "QueryEscape s"] by (simp add: QueryEscape_def)
qed (simp add: QueryEscape_def)

lemma hex_digit_plain: "n < 16 \<Longrightarrow> unreserved (hex_digit n)"
  by (auto simp: unreserved_def hex_digit_def Let_def)

lemma QueryEscape_plain: "c \<in> set (QueryEscape s) \<Longrightarrow> c \<notin> {CHR ''&'', CHR '';'', CHR ''=''}"
  using unreserved_plain [OF hex_digit_plain [OF of_char_bounds(1)]]
    unreserved_plain [OF hex_digit_plain [OF of_char_bounds(2)]] unreserved_plain
  by (auto simp: QueryEscape_def escape_char_def split: if_splits)

section \<open>The round trip of the values\<close>

definition enc_pair :: "string \<times> string \<Rightarrow> string" where
  "enc_pair = (\<lambda>(k, v). QueryEscape k @ ''='' @ QueryEscape v)"

definition flat_values :: "url_Values \<Rightarrow> (string \<times> string) list" where
  "flat_values m = concat (map (\<lambda>k. map (Pair k)
     (case gm_get m k of Some vs \<Rightarrow> vs | None \<Rightarrow> [])) (sort (map fst m)))"

lemma encode_pairs_flat: "encode_pairs m = map enc_pair (flat_values m)"
  by (simp add: encode_pairs_def flat_values_def enc_pair_def map_concat comp_def)

lemma cut_eq_append: "CHR ''='' \<notin> set k \<Longrightarrow> cut_eq (k @ ''='' @ v) = (k, v)"
  by (induction k) auto

lemma parse_enc_pair: "parse_pair m (enc_pair (k, v)) = values_add m k v"
proof -
  have "cut_eq (enc_pair (k, v)) = (QueryEscape k, QueryEscape v)" "enc_pair (k, v) \<noteq> []"
    using cut_eq_append QueryEscape_plain by (auto simp: enc_pair_def)
  then show ?thesis
    by (simp add: parse_pair_def)
qed

lemma foldl_parse_enc: "foldl parse_pair m (map enc_pair kvs) = foldl (\<lambda>m (k, v). values_add m k v) m kvs"
  by (induction kvs arbitrary: m) (auto simp: parse_enc_pair)

lemma split_pairs_plain:
  "CHR ''&'' \<notin> set p \<Longrightarrow> CHR '';'' \<notin> set p \<Longrightarrow> split_pairs (p @ CHR ''&'' # s) = p # split_pairs s"
  "CHR ''&'' \<notin> set p \<Longrightarrow> CHR '';'' \<notin> set p \<Longrightarrow> split_pairs p = [p]"
  by (induction p) auto

lemma split_pairs_join:
  "ps \<noteq> [] \<Longrightarrow> \<forall>p \<in> set ps. CHR ''&'' \<notin> set p \<and> CHR '';'' \<notin> set p \<Longrightarrow> split_pairs (str_join ps ''&'') = ps"
proof (induction ps)
  case (Cons p ps)
  then show ?case
    by (cases ps) (auto simp: split_pairs_plain)
qed simp

lemma enc_pair_plain: "CHR ''&'' \<notin> set (enc_pair kv) \<and> CHR '';'' \<notin> set (enc_pair kv)"
  using QueryEscape_plain by (cases kv) (auto simp: enc_pair_def)

lemma url_Query_Encode: "url_Query (values_Encode m) = foldl (\<lambda>m (k, v). values_add m k v) [] (flat_values m)"
proof (cases "flat_values m = []")
  case True
  then show ?thesis
    by (simp add: url_Query_def values_Encode_def encode_pairs_flat parse_pair_def)
next
  case False
  then have "split_pairs (values_Encode m) = map enc_pair (flat_values m)"
    unfolding values_Encode_def encode_pairs_flat
    by (intro split_pairs_join) (auto simp: enc_pair_plain)
  then show ?thesis
    by (simp add: url_Query_def foldl_parse_enc)
qed

definition vals_of :: "string \<Rightarrow> (string \<times> string) list \<Rightarrow> string list" where
  "vals_of k kvs = map snd (filter (\<lambda>kv. fst kv = k) kvs)"

lemma gm_get_foldl_add:
  "gm_get (foldl (\<lambda>m (k, v). values_add m k v) m kvs) k =
     (if vals_of k kvs = [] then gm_get m k
      else Some ((case gm_get m k of Some vs \<Rightarrow> vs | None \<Rightarrow> []) @ vals_of k kvs))"
  by (induction kvs arbitrary: m) (auto simp: vals_of_def values_add_def gomap_simps split: option.splits)

lemma vals_of_concat:
  "distinct ks \<Longrightarrow> vals_of k (concat (map (\<lambda>k. map (Pair k) (f k)) ks)) = (if k \<in> set ks then f k else [])"
  by (induction ks) (auto simp: vals_of_def filter_map comp_def filter_empty_conv)

text \<open>Values as \<open>ParseQuery\<close> and \<open>Set\<close> produce them: no key without a value.\<close>

definition values_ok :: "url_Values \<Rightarrow> bool" where
  "values_ok m \<longleftrightarrow> gm_ok m \<and> (\<forall>k. gm_get m k \<noteq> Some [])"

lemma gm_get_values_ok: "values_ok m \<Longrightarrow> gm_get m k \<noteq> Some []"
  by (simp add: values_ok_def)

lemma gm_get_None_iff: "gm_get m k = None \<longleftrightarrow> k \<notin> set (map fst m)"
  by (simp add: gm_get_def map_of_eq_None_iff)

lemma url_Query_roundtrip:
  assumes "values_ok m"
  shows "gm_get (url_Query (values_Encode m)) k = gm_get m k"
proof -
  have "distinct (sort (map fst m))"
    using assms by (simp add: values_ok_def gm_ok_def)
  then have "vals_of k (flat_values m) = (case gm_get m k of Some vs \<Rightarrow> vs | None \<Rightarrow> [])"
    unfolding flat_values_def vals_of_concat [OF \<open>distinct _\<close>]
    using gm_get_None_iff [of m k] by (auto split: option.splits)
  then show ?thesis
    using gm_get_values_ok [OF assms] unfolding url_Query_Encode gm_get_foldl_add
    by (auto split: option.splits)
qed

lemma values_ok_put: "values_ok m \<Longrightarrow> vs \<noteq> [] \<Longrightarrow> values_ok (gm_put m k vs)"
  by (simp add: values_ok_def gomap_simps gm_ok_put)

lemma values_ok_Set: "values_ok m \<Longrightarrow> values_ok (values_Set m k v)"
  by (simp add: values_Set_def values_ok_put)

lemma values_ok_Query: "values_ok (url_Query raw)"
proof -
  have step: "values_ok m \<Longrightarrow> values_ok (parse_pair m p)" for m p
    by (auto simp: parse_pair_def values_add_def values_ok_put split: prod.splits option.splits)
  have "values_ok m \<Longrightarrow> values_ok (foldl parse_pair m ps)" for m ps
    by (induction ps arbitrary: m) (auto simp: step)
  then show ?thesis
    by (simp add: url_Query_def values_ok_def)
qed

lemma values_Encode_same:
  assumes "gm_ok m" "gm_ok n" "gm_same m n"
  shows "values_Encode m = values_Encode n"
proof -
  have "set (map fst m) = set (map fst n)"
    using gm_same_set [OF assms] by simp
  then have "sort (map fst m) = sort (map fst n)"
    using assms(1,2) unfolding gm_ok_def by (intro sorted_distinct_set_unique) auto
  moreover have "gm_get m = gm_get n"
    using assms(3) by (simp add: gm_same_def)
  ultimately show ?thesis
    by (simp add: values_Encode_def encode_pairs_def)
qed

end
