(* ===== verification/Remote_Client.thy ===== *)
theory Remote_Client
  imports Label_Matcher Url_Query
begin

text \<open>
  The HTTP client of a remote endpoint (\<open>src/storage/remote/client.go\<close>): the write path \<open>Store\<close> with its
  encoding of samples and its classification of errors, the read path \<open>Read\<close> with the query it sends,
  and the conversions from and to the protocol messages.

  The HTTP exchange is a parameter: \<open>http_do\<close> answers a request with a transport error or a response.
  Further parameters are \<open>proto.Marshal\<close>, \<open>snappy.Encode\<close>, the JSON decoder, the check that
  \<open>http.NewRequest\<close> makes of a URL, and the quoting verb \<open>%q\<close>.
\<close>

section \<open>URLs, requests and responses\<close>

text \<open>A URL as its \<open>String\<close> method renders it: the text before the query, the raw query and the
  fragment with its \<open>#\<close>.\<close>

record url =
  u_prefix :: string
  u_RawQuery :: string
  u_ForceQuery :: bool
  u_suffix :: string

definition url_String :: "url \<Rightarrow> string" where
  "url_String u = u_prefix u @
     (if u_ForceQuery u \<or> u_RawQuery u \<noteq> [] then CHR ''?'' # u_RawQuery u else []) @ u_suffix u"

record http_request =
  rq_method :: string
  rq_url :: string
  rq_header :: "(string \<times> string) list"
  rq_body :: string

text \<open>The body of a response is the text it yields and the error, if any, that ends it.\<close>

record http_response =
  rs_StatusCode :: int
  rs_Status :: string
  rs_body :: string
  rs_body_err :: "string option"

section \<open>The client\<close>

record 'h Client =
  c_index :: int
  c_url :: url
  c_client :: 'h
  c_timeout :: Duration

record 'c clientConfig =
  cc_url :: url
  cc_timeout :: Duration
  cc_httpClientConfig :: 'c

definition NewClient :: "('c \<Rightarrow> 'e + 'h) \<Rightarrow> int \<Rightarrow> 'c clientConfig \<Rightarrow> 'e + 'h Client" where
  "NewClient newHTTPClient index conf = (case newHTTPClient (cc_httpClientConfig conf) of
       Inl err \<Rightarrow> Inl err
     | Inr httpClient \<Rightarrow> Inr \<lparr>c_index = index, c_url = cc_url conf, c_client = httpClient,
         c_timeout = cc_timeout conf\<rparr>)"

definition client_Name :: "'h Client \<Rightarrow> string" where
  "client_Name c = itoa (c_index c) @ '':'' @ url_String (c_url c)"

section \<open>Store\<close>

record pb_TimeSeries =
  ts_Labels :: "(string \<times> string) list"
  ts_Samples :: "(float64 \<times> int) list"

definition sample_to_proto :: "Sample \<Rightarrow> pb_TimeSeries" where
  "sample_to_proto s = \<lparr>ts_Labels = map (\<lambda>(k, v). (k, v)) (s_Metric s),
     ts_Samples = [(s_Value s, s_Timestamp s)]\<rparr>"

definition write_request :: "Sample list \<Rightarrow> pb_TimeSeries list" where
  "write_request samples = map sample_to_proto samples"

definition maxErrMsgLen :: nat where
  "maxErrMsgLen = 256"

text \<open>The first line that a line scanner reads, without the carriage return that ends it.\<close>

definition drop_cr :: "string \<Rightarrow> string" where
  "drop_cr l = (if l \<noteq> [] \<and> last l = CHR 0x0D then butlast l else l)"

definition first_line :: "string \<Rightarrow> string" where
  "first_line s = drop_cr (takeWhile (\<lambda>c. c \<noteq> CHR 0x0A) s)"

datatype store_error = recoverableError string | otherError string

record 'h store_env =
  se_marshal :: "pb_TimeSeries list \<Rightarrow> string + string"
  se_snappy :: "string \<Rightarrow> string"
  se_url_err :: "string \<Rightarrow> string option"
  se_do :: "'h \<Rightarrow> Duration \<Rightarrow> http_request \<Rightarrow> string + http_response"

definition status_error :: "http_response \<Rightarrow> string option" where
  "status_error r = (if go_div (rs_StatusCode r) 100 \<noteq> 2
     then Some (''server returned HTTP status '' @ rs_Status r @ '': '' @ first_line (take maxErrMsgLen (rs_body r)))
     else None)"

definition client_Store :: "'h store_env \<Rightarrow> 'h Client \<Rightarrow> Sample list \<Rightarrow> store_error option" where
  "client_Store env c samples =
    (case se_marshal env (write_request samples) of
       Inl err \<Rightarrow> Some (otherError err)
     | Inr data \<Rightarrow>
        (case se_url_err env (url_String (c_url c)) of
           Some err \<Rightarrow> Some (otherError err)
         | None \<Rightarrow>
            (case se_do env (c_client c) (c_timeout c)
                \<lparr>rq_method = ''POST'', rq_url = url_String (c_url c),
                 rq_header = [(''Content-Encoding'', ''snappy''),
                   (''Content-Type'', ''application/x-protobuf''),
                   (''X-Prometheus-Remote-Write-Version'', ''0.1.0'')],
                 rq_body = se_snappy env data\<rparr> of
               Inl err \<Rightarrow> Some (recoverableError err)
             | Inr resp \<Rightarrow>
                (if go_div (rs_StatusCode resp) 100 = 5
                 then Some (recoverableError (case status_error resp of Some e \<Rightarrow> e | None \<Rightarrow> []))
                 else map_option otherError (status_error resp)))))"

section \<open>Read\<close>

text \<open>The enumeration of the protocol messages.\<close>

datatype pb_MatchType = MatchType_EQUAL | MatchType_NOT_EQUAL | MatchType_REGEX_MATCH | MatchType_REGEX_NO_MATCH

fun pb_match_type :: "MatchType \<Rightarrow> panic + pb_MatchType" where
  "pb_match_type Equal = Inr MatchType_EQUAL"
| "pb_match_type NotEqual = Inr MatchType_NOT_EQUAL"
| "pb_match_type RegexMatch = Inr MatchType_REGEX_MATCH"
| "pb_match_type RegexNoMatch = Inr MatchType_REGEX_NO_MATCH"
| "pb_match_type (OtherMatchType _) = Inl (ExplicitPanic ''invalid matcher type'')"

fun labelMatchersToProto :: "LabelMatcher list \<Rightarrow> panic + (pb_MatchType \<times> string \<times> string) list" where
  "labelMatchersToProto [] = Inr []"
| "labelMatchersToProto (m # ms) = (case pb_match_type (lm_Type m) of
       Inl p \<Rightarrow> Inl p
     | Inr t \<Rightarrow> (case labelMatchersToProto ms of
          Inl p \<Rightarrow> Inl p
        | Inr pbs \<Rightarrow> Inr ((t, lm_Name m, lm_Value m) # pbs)))"

definition nanosPerTick :: int where
  "nanosPerTick = 1000"

definition read_values :: "(string \<Rightarrow> string) \<Rightarrow> url \<Rightarrow> Time \<Rightarrow> Time \<Rightarrow> LabelMatcher list \<Rightarrow> url_Values" where
  "read_values quote u from through matchers =
     values_Set (values_Set (values_Set (values_Set (url_Query (u_RawQuery u))
       ''start'' (itoa (go_div from nanosPerTick)))
       ''end'' (itoa (go_div through nanosPerTick)))
       ''query'' (''{'' @ LabelMatchers_String quote matchers @ ''}''))
       ''step'' ''2''"

record 'h read_env =
  re_quote :: "string \<Rightarrow> string"
  re_url_err :: "string \<Rightarrow> string option"
  re_do :: "'h \<Rightarrow> Duration \<Rightarrow> http_request \<Rightarrow> string + http_response"
  re_unmarshal :: "string \<Rightarrow> string + SampleStream list"

text \<open>\<open>Read\<close> writes the query into the URL of the client. It ignores an error of \<open>http.NewRequest\<close> and then
  passes on a nil request.\<close>

definition client_Read ::
  "'h read_env \<Rightarrow> 'h Client \<Rightarrow> Time \<Rightarrow> Time \<Rightarrow> LabelMatcher list \<Rightarrow>
   panic + 'h Client \<times> (string + SampleStream list)" where
  "client_Read env c from through matchers =
    (case labelMatchersToProto matchers of
       Inl p \<Rightarrow> Inl p
     | Inr _ \<Rightarrow>
        (let u = (c_url c)\<lparr>u_RawQuery := values_Encode (read_values (re_quote env) (c_url c) from through matchers)\<rparr>;
             c' = c\<lparr>c_url := u\<rparr> in
         (case re_url_err env (url_String u) of
            Some _ \<Rightarrow> Inl NilDereference
          | None \<Rightarrow>
             Inr (c',
               (case re_do env (c_client c) (c_timeout c)
                    \<lparr>rq_method = ''GET'', rq_url = url_String u, rq_header = [], rq_body = []\<rparr> of
                  Inl err \<Rightarrow> Inl (''error sending request: '' @ err)
                | Inr resp \<Rightarrow>
                   (if go_div (rs_StatusCode resp) 100 \<noteq> 2
                    then Inl (''server returned HTTP status '' @ rs_Status resp)
                    else
                      (case rs_body_err resp of
                         Some err \<Rightarrow> Inl (''error reading response: '' @ err)
                       | None \<Rightarrow>
                          (case re_unmarshal env (rs_body resp) of
                             Inl err \<Rightarrow> Inl (''unable to unmarshal response body: '' @ err)
                           | Inr matrix \<Rightarrow> Inr matrix)))))))) "

section \<open>Conversions from protocol messages\<close>

definition matrixFromHttp :: "pb_TimeSeries list \<Rightarrow> SampleStream list" where
  "matrixFromHttp seriesSet = []"

fun labelPairsToMetric_loop :: "LabelSet \<Rightarrow> (string \<times> string) list \<Rightarrow> LabelSet" where
  "labelPairsToMetric_loop metric [] = metric"
| "labelPairsToMetric_loop metric ((n, v) # ls) = labelPairsToMetric_loop (gm_put metric n v) ls"

definition labelPairsToMetric :: "(string \<times> string) list \<Rightarrow> LabelSet" where
  "labelPairsToMetric labelPairs = labelPairsToMetric_loop [] labelPairs"

definition matrixFromProto :: "pb_TimeSeries list \<Rightarrow> SampleStream list" where
  "matrixFromProto seriesSet = map (\<lambda>ts.
     \<lparr>ss_Metric = labelPairsToMetric (ts_Labels ts),
      ss_Values = map (\<lambda>(v, t). \<lparr>sp_Timestamp = t, sp_Value = v\<rparr>) (ts_Samples ts)\<rparr>) seriesSet"

section \<open>The write path\<close>

lemma sdiv_small: "0 \<le> (n :: int) \<Longrightarrow> n < 1000 \<Longrightarrow> go_div n 100 = n div 100"
  by (subst go_div_pos) (auto simp: int64_def signed_divide_int_def sgn_if)

lemma length_first_line: "length (first_line s) \<le> length s"
  using length_takeWhile_le [of "\<lambda>c. c \<noteq> CHR 0x0A" s] by (auto simp: first_line_def drop_cr_def)

definition store_request :: "'h store_env \<Rightarrow> 'h Client \<Rightarrow> string \<Rightarrow> http_request" where
  "store_request env c data = \<lparr>rq_method = ''POST'', rq_url = url_String (c_url c),
     rq_header = [(''Content-Encoding'', ''snappy''), (''Content-Type'', ''application/x-protobuf''),
       (''X-Prometheus-Remote-Write-Version'', ''0.1.0'')],
     rq_body = se_snappy env data\<rparr>"

text \<open>C31. How \<open>Store\<close> classifies the answer to the request it sends, for every HTTP status: a network error
  and a status 500 to 599 are recoverable, a status 200 to 299 is success, and every other status is an
  error that is not retried. The message quotes at most 256 bytes of the body.\<close>

theorem client_Store_classifies:
  assumes "se_marshal env (write_request samples) = Inr data" "se_url_err env (url_String (c_url c)) = None"
    and "se_do env (c_client c) (c_timeout c) (store_request env c data) = answer"
    and "\<And>resp. answer = Inr resp \<Longrightarrow> 100 \<le> rs_StatusCode resp \<and> rs_StatusCode resp < 1000"
  shows "case answer of
      Inl err \<Rightarrow> client_Store env c samples = Some (recoverableError err)
    | Inr resp \<Rightarrow> (\<exists>line. length line \<le> 256 \<and>
        client_Store env c samples =
          (let msg = ''server returned HTTP status '' @ rs_Status resp @ '': '' @ line in
           if 200 \<le> rs_StatusCode resp \<and> rs_StatusCode resp < 300 then None
           else if 500 \<le> rs_StatusCode resp \<and> rs_StatusCode resp < 600 then Some (recoverableError msg)
           else Some (otherError msg)))"
proof (cases answer)
  case (Inl err)
  then show ?thesis
    using assms(1,2,3) by (simp add: client_Store_def store_request_def)
next
  case (Inr resp)
  let ?line = "first_line (take maxErrMsgLen (rs_body resp))"
  have code: "go_div (rs_StatusCode resp) 100 = rs_StatusCode resp div 100"
    using assms(4) [OF Inr] by (intro sdiv_small) auto
  have five: "rs_StatusCode resp div 100 = 5 \<longleftrightarrow> 500 \<le> rs_StatusCode resp \<and> rs_StatusCode resp < 600"
    and two: "rs_StatusCode resp div 100 = 2 \<longleftrightarrow> 200 \<le> rs_StatusCode resp \<and> rs_StatusCode resp < 300"
    by linarith+
  have "length ?line \<le> 256"
    using length_first_line [of "take maxErrMsgLen (rs_body resp)"] by (simp add: maxErrMsgLen_def)
  moreover have "client_Store env c samples =
      (if rs_StatusCode resp div 100 = 5 then Some (recoverableError (case status_error resp of Some e \<Rightarrow> e | None \<Rightarrow> []))
       else map_option otherError (status_error resp))"
    using assms(1,2,3) Inr code by (simp add: client_Store_def store_request_def)
  ultimately show ?thesis
    unfolding Inr sum.case five by (intro exI [of _ ?line]) (auto simp: status_error_def Let_def code two)
qed

definition ex_client :: "unit Client" where
  "ex_client = \<lparr>c_index = 0, c_url = \<lparr>u_prefix = ''http://h/api'', u_RawQuery = ''tenant=a'', u_ForceQuery = False, u_suffix = []\<rparr>,
     c_client = (), c_timeout = 1000000000\<rparr>"

definition ex_store_env :: "int \<Rightarrow> unit store_env" where
  "ex_store_env code = \<lparr>se_marshal = (\<lambda>_. Inr ''x''), se_snappy = id, se_url_err = (\<lambda>_. None),
     se_do = (\<lambda>_ _ _. Inr \<lparr>rs_StatusCode = code, rs_Status = ''s'', rs_body = ''busy'', rs_body_err = None\<rparr>)\<rparr>"

theorem client_Store_classifies_witness:
  "\<exists>e. client_Store (ex_store_env 503) ex_client [] = Some (recoverableError e)"
  using client_Store_classifies [of "ex_store_env 503" "[]" "''x''" ex_client]
  by (auto simp: ex_store_env_def Let_def)

lemma labelPairsToMetric_loop_eq: "gm_get (labelPairsToMetric_loop m ls) = gm_get m ++ map_of (rev ls)"
  by (induction m ls rule: labelPairsToMetric_loop.induct) (auto simp: gomap_simps map_add_def fun_eq_iff split: option.splits)

lemma gm_ok_labelPairsToMetric: "gm_ok (labelPairsToMetric ls)"
proof -
  have "gm_ok m \<Longrightarrow> gm_ok (labelPairsToMetric_loop m ls)" for m
    by (induction m ls rule: labelPairsToMetric_loop.induct) auto
  then show ?thesis
    by (simp add: labelPairsToMetric_def)
qed

lemma gm_get_labelPairsToMetric: "gm_ok ls \<Longrightarrow> gm_get (labelPairsToMetric ls) = gm_get ls"
  unfolding labelPairsToMetric_def labelPairsToMetric_loop_eq by (simp add: map_of_rev_ok gm_get_def [abs_def])

text \<open>C32. The round trip over the protocol messages: decoding what \<open>Store\<close> encodes gives, for each sample in
  order, one stream with the labels and the fingerprint of the sample's metric and with exactly its value
  at its time, whatever the iteration order of the label maps is.\<close>

theorem store_encoding_roundtrip:
  assumes "list_all (\<lambda>s. gm_ok (s_Metric s)) samples"
  shows "list_all2 (\<lambda>s ss. gm_same (ss_Metric ss) (s_Metric s) \<and>
      labelset_Fingerprint (ss_Metric ss) = labelset_Fingerprint (s_Metric s) \<and>
      ss_Values ss = [\<lparr>sp_Timestamp = s_Timestamp s, sp_Value = s_Value s\<rparr>])
    samples (matrixFromProto (write_request samples))"
  using assms gm_ok_labelPairsToMetric
  by (auto simp: matrixFromProto_def write_request_def sample_to_proto_def list_all2_conv_all_nth list_all_length
      gm_same_def gm_get_labelPairsToMetric intro!: slow.hash_same)

theorem store_encoding_roundtrip_witness:
  "list_all2 (\<lambda>s ss. gm_same (ss_Metric ss) (s_Metric s) \<and>
      labelset_Fingerprint (ss_Metric ss) = labelset_Fingerprint (s_Metric s) \<and>
      ss_Values ss = [\<lparr>sp_Timestamp = s_Timestamp s, sp_Value = s_Value s\<rparr>])
    [\<lparr>s_Metric = [(''b'', ''2''), (''a'', ''1'')], s_Value = F_NaN, s_Timestamp = 5\<rparr>]
    (matrixFromProto (write_request [\<lparr>s_Metric = [(''b'', ''2''), (''a'', ''1'')], s_Value = F_NaN, s_Timestamp = 5\<rparr>]))"
  by (rule store_encoding_roundtrip) (simp add: gm_ok_def)

section \<open>The read path\<close>

lemma labelMatchersToProto_total:
  "list_all (\<lambda>m. known_type (lm_Type m)) ms \<Longrightarrow> \<exists>pbs. labelMatchersToProto ms = Inr pbs"
proof (induction ms)
  case (Cons m ms)
  then show ?case
    by (cases "lm_Type m") (auto simp: known_type_def)
qed simp

lemma values_ok_read_values: "values_ok (read_values quote u from through ms)"
  by (simp add: read_values_def values_ok_Set values_ok_Query)

lemma gm_get_read_values:
  "gm_get (read_values quote u from through ms) = (gm_get (url_Query (u_RawQuery u)))
     (''start'' \<mapsto> [itoa (go_div from nanosPerTick)], ''end'' \<mapsto> [itoa (go_div through nanosPerTick)],
      ''query'' \<mapsto> [''{'' @ LabelMatchers_String quote ms @ ''}''], ''step'' \<mapsto> [''2''])"
  by (simp add: read_values_def values_Set_def gomap_simps)

text \<open>The URL that a \<open>Read\<close> leaves in the client.\<close>

definition read_url :: "(string \<Rightarrow> string) \<Rightarrow> url \<Rightarrow> Time \<Rightarrow> Time \<Rightarrow> LabelMatcher list \<Rightarrow> url" where
  "read_url quote u from through ms = u\<lparr>u_RawQuery := values_Encode (read_values quote u from through ms)\<rparr>"

lemma read_url_query:
  "gm_get (url_Query (u_RawQuery (read_url quote u from through ms))) = gm_get (read_values quote u from through ms)"
  using url_Query_roundtrip [OF values_ok_read_values] by (auto simp: read_url_def)

lemma read_url_again:
  "read_url quote (read_url quote u from through ms) from' through' ms' = read_url quote u from' through' ms'"
proof -
  let ?u = "read_url quote u from through ms"
  have "gm_get (read_values quote ?u from' through' ms') = gm_get (read_values quote u from' through' ms')"
    unfolding gm_get_read_values read_url_query by (rule ext) simp
  then have "values_Encode (read_values quote ?u from' through' ms') = values_Encode (read_values quote u from' through' ms')"
    using values_ok_read_values unfolding values_ok_def by (intro values_Encode_same) (auto simp: gm_same_def)
  then show ?thesis
    by (simp add: read_url_def)
qed

lemma client_Read_url:
  "client_Read env c from through ms = Inr (c', res) \<Longrightarrow>
     c' = c\<lparr>c_url := read_url (re_quote env) (c_url c) from through ms\<rparr>"
  by (auto simp: client_Read_def read_url_def Let_def split: sum.splits option.splits)

text \<open>C33. The query that \<open>Read\<close> sends: with matchers of known type and a URL that parses, the request goes to
  the client's URL with \<open>start\<close> and \<open>end\<close> the times in whole seconds, \<open>query\<close> the selector in braces and
  \<open>step\<close> 2, every other parameter of the configured URL as it was; the query string decodes to exactly
  that. Only the query string of the client changes.\<close>

theorem client_Read_request:
  assumes "list_all (\<lambda>m. known_type (lm_Type m)) ms" "\<And>u. re_url_err env u = None"
    and "0 \<le> from" "from \<le> through" "int64 through"
  shows "\<exists>u res. client_Read env c from through ms = Inr (c\<lparr>c_url := (c_url c)\<lparr>u_RawQuery := u\<rparr>\<rparr>, res) \<and>
    gm_get (url_Query u) = (gm_get (url_Query (u_RawQuery (c_url c))))
      (''start'' \<mapsto> [itoa (from div 1000)], ''end'' \<mapsto> [itoa (through div 1000)],
       ''query'' \<mapsto> [''{'' @ LabelMatchers_String (re_quote env) ms @ ''}''], ''step'' \<mapsto> [''2'']) \<and>
    (\<forall>err. re_do env (c_client c) (c_timeout c) \<lparr>rq_method = ''GET'',
        rq_url = url_String ((c_url c)\<lparr>u_RawQuery := u\<rparr>), rq_header = [], rq_body = []\<rparr> = Inl err \<longrightarrow>
      res = Inl (''error sending request: '' @ err))"
proof -
  let ?u = "u_RawQuery (read_url (re_quote env) (c_url c) from through ms)"
  have div: "go_div t 1000 = t div 1000" if "0 \<le> t" "int64 t" for t
    using that by (subst go_div_pos) (auto simp: signed_divide_int_def sgn_if)
  have i: "int64 from"
    using assms(3,4,5) by (auto simp: int64_def)
  obtain pbs where "labelMatchersToProto ms = Inr pbs"
    using labelMatchersToProto_total [OF assms(1)] by blast
  then obtain res where "client_Read env c from through ms = Inr (c\<lparr>c_url := (c_url c)\<lparr>u_RawQuery := ?u\<rparr>\<rparr>, res)"
      "\<And>err. re_do env (c_client c) (c_timeout c) \<lparr>rq_method = ''GET'',
        rq_url = url_String ((c_url c)\<lparr>u_RawQuery := ?u\<rparr>), rq_header = [], rq_body = []\<rparr> = Inl err \<Longrightarrow>
        res = Inl (''error sending request: '' @ err)"
    using assms(2) by (simp add: client_Read_def read_url_def Let_def)
  moreover have "gm_get (url_Query ?u) = (gm_get (url_Query (u_RawQuery (c_url c))))
      (''start'' \<mapsto> [itoa (from div 1000)], ''end'' \<mapsto> [itoa (through div 1000)],
       ''query'' \<mapsto> [''{'' @ LabelMatchers_String (re_quote env) ms @ ''}''], ''step'' \<mapsto> [''2''])"
    using div [of "from"] div [of "through"] i assms(3,4,5)
    unfolding read_url_query gm_get_read_values by (simp add: nanosPerTick_def)
  ultimately show ?thesis
    by blast
qed

definition ex_read_env :: "unit read_env" where
  "ex_read_env = \<lparr>re_quote = (\<lambda>s. CHR 0x22 # s @ [CHR 0x22]), re_url_err = (\<lambda>_. None),
     re_do = (\<lambda>_ _ _. Inl ''timeout''), re_unmarshal = (\<lambda>_. Inl ''no'')\<rparr>"

theorem client_Read_request_witness:
  "\<exists>c'. client_Read ex_read_env ex_client 1500 4999 [] = Inr (c', Inl ''error sending request: timeout'') \<and>
     gm_get (url_Query (u_RawQuery (c_url c'))) ''end'' = Some [itoa 4]"
proof -
  have "list_all (\<lambda>m. known_type (lm_Type m)) []" "\<And>u. re_url_err ex_read_env u = None"
    by (simp_all add: ex_read_env_def)
  from client_Read_request [OF this, of 1500 4999 ex_client] show ?thesis
    by (auto simp: int64_def ex_read_env_def)
qed

text \<open>\<open>Read\<close> stores its query in the URL that all reads of the client share, and still no read sees an
  earlier one: after any \<open>Read\<close>, the next one gives the same result and leaves the same client as if
  it had been the first.\<close>

theorem client_Read_history_independent:
  assumes "client_Read env c from through ms = Inr (c', res)"
  shows "client_Read env c' from' through' ms' = client_Read env c from' through' ms'"
proof -
  let ?q = "re_quote env"
  have c': "c' = c\<lparr>c_url := read_url ?q (c_url c) from through ms\<rparr>"
    using client_Read_url [OF assms] .
  have "read_url ?q (c_url c') from' through' ms' = read_url ?q (c_url c) from' through' ms'"
    unfolding c' by (simp add: read_url_again)
  moreover have "c_client c' = c_client c" "c_timeout c' = c_timeout c" "c'\<lparr>c_url := u\<rparr> = c\<lparr>c_url := u\<rparr>" for u
    unfolding c' by simp_all
  ultimately show ?thesis
    unfolding client_Read_def read_url_def [symmetric] Let_def by presburger
qed

theorem client_Read_history_independent_witness:
  "\<exists>c'. client_Read ex_read_env ex_client 0 9000 [] = Inr (c', Inl ''error sending request: timeout'') \<and>
     client_Read ex_read_env c' 1000 2000 [] = client_Read ex_read_env ex_client 1000 2000 []"
proof -
  have "\<exists>c'. client_Read ex_read_env ex_client 0 9000 [] = Inr (c', Inl ''error sending request: timeout'')"
    by (simp add: client_Read_def ex_read_env_def Let_def)
  then show ?thesis
    using client_Read_history_independent by blast
qed

end
