(* ===== verification/Remote_Read.thy ===== *)
theory Remote_Read
  imports Remote_Client Fanin
begin

text \<open>
  Reading from remote endpoints (\<open>src/storage/remote/read.go\<close>): the \<open>Reader\<close> that a configuration sets up
  with one client per endpoint, and the querier that adds the external labels to the selector, reads, and
  takes the added labels off the answer.
\<close>

section \<open>The model\<close>

record 'c RemoteReadConfig =
  rr_URL :: url
  rr_RemoteTimeout :: Duration
  rr_HTTPClientConfig :: 'c

record 'h Reader =
  rd_clients :: "'h Client list"
  rd_externalLabels :: LabelSet

fun reader_clients ::
  "('c \<Rightarrow> 'e + 'h) \<Rightarrow> int \<Rightarrow> 'h Client list \<Rightarrow> 'c RemoteReadConfig list \<Rightarrow> 'e + 'h Client list" where
  "reader_clients newHTTP i clients [] = Inr clients"
| "reader_clients newHTTP i clients (rr # rrs) =
    (case NewClient newHTTP i \<lparr>cc_url = rr_URL rr, cc_timeout = rr_RemoteTimeout rr,
        cc_httpClientConfig = rr_HTTPClientConfig rr\<rparr> of
       Inl err \<Rightarrow> Inl err
     | Inr c \<Rightarrow> reader_clients newHTTP (i + 1) (clients @ [c]) rrs)"

text \<open>The new state of the reader and the error that is returned, if any.\<close>

definition reader_ApplyConfig ::
  "('c \<Rightarrow> 'e + 'h) \<Rightarrow> 'c RemoteReadConfig list \<Rightarrow> LabelSet \<Rightarrow> 'h Reader \<Rightarrow> 'h Reader \<times> 'e option" where
  "reader_ApplyConfig newHTTP rrConfs external r = (case reader_clients newHTTP 0 [] rrConfs of
       Inl err \<Rightarrow> (r, Some err)
     | Inr clients \<Rightarrow> (r\<lparr>rd_clients := clients, rd_externalLabels := external\<rparr>, None))"

record 'h rquerier =
  rq_client :: "'h Client"
  rq_externalLabels :: LabelSet

definition reader_Queriers :: "'h Reader \<Rightarrow> 'h rquerier list" where
  "reader_Queriers r = map (\<lambda>c. \<lparr>rq_client = c, rq_externalLabels = rd_externalLabels r\<rparr>) (rd_clients r)"

fun append_external ::
  "(string \<Rightarrow> string + (string \<Rightarrow> bool)) \<Rightarrow> LabelMatcher list \<Rightarrow> LabelSet \<Rightarrow> panic + LabelMatcher list" where
  "append_external compile matchers [] = Inr matchers"
| "append_external compile matchers ((k, v) # el) =
    (case NewLabelMatcher compile Equal k v of
       Inl p \<Rightarrow> Inl p
     | Inr (Inl err) \<Rightarrow> Inl (ExplicitPanic err)
     | Inr (Inr m) \<Rightarrow> append_external compile (matchers @ [m]) el)"

text \<open>The first loop of \<open>addExternalLabels\<close> is the copy loop of \<open>Clone\<close>; the second deletes the names that
  the query mentions.\<close>

definition addExternalLabels ::
  "(string \<Rightarrow> string + (string \<Rightarrow> bool)) \<Rightarrow> LabelSet \<Rightarrow> LabelMatcher list \<Rightarrow>
   panic + LabelMatcher list \<times> LabelSet" where
  "addExternalLabels compile externalLabels matchers =
    (let el = gm_del_all (labelset_Clone externalLabels) (map lm_Name matchers) in
     (case append_external compile matchers el of
        Inl p \<Rightarrow> Inl p
      | Inr ms \<Rightarrow> Inr (ms, el)))"

definition removeLabels :: "SampleStream list \<Rightarrow> LabelSet \<Rightarrow> SampleStream list" where
  "removeLabels m labels = map (\<lambda>ss. ss\<lparr>ss_Metric := gm_del_all (ss_Metric ss) (map fst labels)\<rparr>) m"

definition MatrixToIterators :: "string + SampleStream list \<Rightarrow> string + SeriesIterator list" where
  "MatrixToIterators r = (case r of Inl err \<Rightarrow> Inl err | Inr m \<Rightarrow> Inr (map sampleStreamIterator m))"

text \<open>Methods of the querier return it with the URL of its client changed by the read.\<close>

definition rquerier_read ::
  "(string \<Rightarrow> string + (string \<Rightarrow> bool)) \<Rightarrow> 'h read_env \<Rightarrow> 'h rquerier \<Rightarrow> Time \<Rightarrow> Time \<Rightarrow> LabelMatcher list \<Rightarrow>
   panic + 'h rquerier \<times> (string + SampleStream list)" where
  "rquerier_read compile env q from through matchers =
    (case addExternalLabels compile (rq_externalLabels q) matchers of
       Inl p \<Rightarrow> Inl p
     | Inr (m, added) \<Rightarrow>
        (case client_Read env (rq_client q) from through m of
           Inl p \<Rightarrow> Inl p
         | Inr (c, Inl err) \<Rightarrow> Inr (q\<lparr>rq_client := c\<rparr>, Inl err)
         | Inr (c, Inr res) \<Rightarrow> Inr (q\<lparr>rq_client := c\<rparr>, Inr (removeLabels res added))))"

definition rquerier_QueryRange ::
  "(string \<Rightarrow> string + (string \<Rightarrow> bool)) \<Rightarrow> 'h read_env \<Rightarrow> 'h rquerier \<Rightarrow> Time \<Rightarrow> Time \<Rightarrow> LabelMatcher list \<Rightarrow>
   panic + 'h rquerier \<times> (string + SeriesIterator list)" where
  "rquerier_QueryRange compile env q from through matchers =
    (case rquerier_read compile env q from through matchers of
       Inl p \<Rightarrow> Inl p
     | Inr (q', r) \<Rightarrow> Inr (q', MatrixToIterators r))"

definition rquerier_QueryInstant ::
  "(string \<Rightarrow> string + (string \<Rightarrow> bool)) \<Rightarrow> 'h read_env \<Rightarrow> 'h rquerier \<Rightarrow> Time \<Rightarrow> Duration \<Rightarrow> LabelMatcher list \<Rightarrow>
   panic + 'h rquerier \<times> (string + SeriesIterator list)" where
  "rquerier_QueryInstant compile env q ts stalenessDelta matchers =
    (case rquerier_read compile env q (time_Add ts (wrap64 (- stalenessDelta))) ts matchers of
       Inl p \<Rightarrow> Inl p
     | Inr (q', r) \<Rightarrow> Inr (q', MatrixToIterators r))"

section \<open>External labels\<close>

text \<open>A label set that satisfies every matcher; a label it lacks counts as the empty string.\<close>

definition selects :: "LabelMatcher list \<Rightarrow> LabelSet \<Rightarrow> bool" where
  "selects ms ls \<longleftrightarrow> list_all (\<lambda>m. matcher_Match m (gm_str ls (lm_Name m)) = Inr True) ms"

lemma append_external_total:
  "\<exists>ms. append_external compile matchers el = Inr (matchers @ ms) \<and>
     map (\<lambda>m. (lm_Name m, lm_Value m)) ms = el \<and> list_all (\<lambda>m. lm_Type m = Equal) ms"
proof (induction el arbitrary: matchers)
  case (Cons kv el)
  obtain k v where kv: "kv = (k, v)"
    by (cases kv)
  obtain m where m: "NewLabelMatcher compile Equal k v = Inr (Inr m)"
    using NewLabelMatcher_total [of Equal compile v undefined k] by (auto simp: known_type_def)
  obtain ms where "append_external compile (matchers @ [m]) el = Inr ((matchers @ [m]) @ ms)"
      "map (\<lambda>m. (lm_Name m, lm_Value m)) ms = el" "list_all (\<lambda>m. lm_Type m = Equal) ms"
    using Cons.IH by blast
  then show ?case
    using m NewLabelMatcher_fields [OF m] by (intro exI [of _ "m # ms"]) (simp add: kv)
qed simp

lemma selects_append: "selects (ms @ ns) ls \<longleftrightarrow> selects ms ls \<and> selects ns ls"
  by (simp add: selects_def)

lemma selects_equal:
  "list_all (\<lambda>m. lm_Type m = Equal) ms \<Longrightarrow>
     selects ms ls \<longleftrightarrow> (\<forall>(k, v) \<in> set (map (\<lambda>m. (lm_Name m, lm_Value m)) ms). gm_str ls k = v)"
  by (induction ms) (auto simp: selects_def matcher_Match_def)

lemma gm_get_added:
  "gm_ok external \<Longrightarrow>
     gm_get (gm_del_all (labelset_Clone external) ks) = gm_get external |` (- set ks)"
  by (simp add: gomap_simps)

lemma gm_ok_added: "gm_ok (gm_del_all (labelset_Clone external) ks)"
  by (intro gm_ok_del_all gm_ok_Clone)

text \<open>C27. Adding the external labels never fails. The labels that are added are the external labels that no
  matcher of the query names, and the new selector selects exactly the series that the old one selects
  and that carry every added label with its value.\<close>

theorem addExternalLabels_correct:
  assumes "gm_ok external"
  shows "\<exists>ms added. addExternalLabels compile external matchers = Inr (matchers @ ms, added) \<and>
    gm_get added = gm_get external |` (- set (map lm_Name matchers)) \<and>
    (\<forall>ls. selects (matchers @ ms) ls \<longleftrightarrow>
       selects matchers ls \<and> (\<forall>k v. gm_get added k = Some v \<longrightarrow> gm_str ls k = v))"
proof -
  let ?el = "gm_del_all (labelset_Clone external) (map lm_Name matchers)"
  obtain ms where ms: "append_external compile matchers ?el = Inr (matchers @ ms)"
      "map (\<lambda>m. (lm_Name m, lm_Value m)) ms = ?el" "list_all (\<lambda>m. lm_Type m = Equal) ms"
    using append_external_total by blast
  have "addExternalLabels compile external matchers = Inr (matchers @ ms, ?el)"
    using ms(1) by (simp add: addExternalLabels_def)
  moreover have "selects ms ls \<longleftrightarrow> (\<forall>k v. gm_get ?el k = Some v \<longrightarrow> gm_str ls k = v)" for ls
    unfolding selects_equal [OF ms(3)] ms(2) gm_get_Some_iff [OF gm_ok_added] by auto
  ultimately show ?thesis
    using gm_get_added [OF assms] by (simp add: selects_append)
qed

theorem addExternalLabels_correct_witness:
  "\<exists>ms added. addExternalLabels (\<lambda>_. Inl []) [(''dc'', ''x''), (''env'', ''p'')]
      [\<lparr>lm_Type = Equal, lm_Name = ''env'', lm_Value = ''q'', lm_re = None, lm_score = f_zero\<rparr>] = Inr (ms, added) \<and>
    gm_get added ''dc'' = Some ''x'' \<and> gm_get added ''env'' = None"
proof -
  have "gm_ok [(''dc'', ''x''), (''env'', ''p'')]"
    by (simp add: gm_ok_def)
  from addExternalLabels_correct [OF this, of "\<lambda>_. Inl []"
      "[\<lparr>lm_Type = Equal, lm_Name = ''env'', lm_Value = ''q'', lm_re = None, lm_score = f_zero\<rparr>]"]
  show ?thesis
    by (auto simp: gm_get_def [of "[_, _]"])
qed

section \<open>The querier\<close>

text \<open>A range query through the querier, given the answer of the endpoint to the extended selector: every
  stream of the answer becomes, in order, one iterator that meets the contract of series iterators, serves
  exactly the samples of the stream and has its labels without those that were added; an error of the
  read is passed on.\<close>

theorem rquerier_QueryRange_correct:
  assumes "addExternalLabels compile (rq_externalLabels q) matchers = Inr (ms, added)"
    and "client_Read env (rq_client q) from through ms = Inr (c, answer)"
    and "\<And>res. answer = Inr res \<Longrightarrow> list_all (\<lambda>ss. stream_ok (ss_Values ss)) res"
  shows "case answer of
      Inl err \<Rightarrow> rquerier_QueryRange compile env q from through matchers = Inr (q\<lparr>rq_client := c\<rparr>, Inl err)
    | Inr res \<Rightarrow> (\<exists>its. rquerier_QueryRange compile env q from through matchers = Inr (q\<lparr>rq_client := c\<rparr>, Inr its) \<and>
        list_all2 (\<lambda>ss it. it_ok it \<and> it_samples it = ss_Values ss \<and>
          (\<exists>m. it_Metric it = Inr m \<and> gm_get m = gm_get (ss_Metric ss) |` (- set (map fst added)))) res its)"
proof (cases answer)
  case (Inl err)
  then show ?thesis
    using assms(1,2) by (simp add: rquerier_QueryRange_def rquerier_read_def MatrixToIterators_def)
next
  case (Inr res)
  let ?strip = "\<lambda>ss. ss\<lparr>ss_Metric := gm_del_all (ss_Metric ss) (map fst added)\<rparr>"
  have "rquerier_QueryRange compile env q from through matchers =
      Inr (q\<lparr>rq_client := c\<rparr>, Inr (map (\<lambda>ss. sampleStreamIterator (?strip ss)) res))"
    using assms(1,2) Inr
    by (simp add: rquerier_QueryRange_def rquerier_read_def MatrixToIterators_def removeLabels_def comp_def)
  moreover have "it_ok (sampleStreamIterator (?strip ss)) \<and> it_samples (sampleStreamIterator (?strip ss)) = ss_Values ss"
    if "ss \<in> set res" for ss
    using assms(3) [OF Inr] that it_ok_stream [of "?strip ss"] it_samples_stream [of "?strip ss"]
    by (simp add: list_all_iff)
  ultimately show ?thesis
    using Inr by (auto simp: list_all2_conv_all_nth sampleStreamIterator_def gomap_simps)
qed

definition ex_answer_env :: "unit read_env" where
  "ex_answer_env = ex_read_env\<lparr>re_do := (\<lambda>_ _ _. Inr \<lparr>rs_StatusCode = 200, rs_Status = ''200 OK'', rs_body = ''b'', rs_body_err = None\<rparr>),
     re_unmarshal := (\<lambda>_. Inr [\<lparr>ss_Metric = [(''dc'', ''x''), (''job'', ''j'')], ss_Values = [sp_at 1 10]\<rparr>])\<rparr>"

theorem rquerier_QueryRange_correct_witness:
  "\<exists>q its. rquerier_QueryRange (\<lambda>_. Inl []) ex_answer_env \<lparr>rq_client = ex_client, rq_externalLabels = [(''dc'', ''x'')]\<rparr>
      0 5000 [] = Inr (q, Inr its) \<and> length its = 1 \<and> it_ok (hd its)"
proof -
  let ?q = "\<lparr>rq_client = ex_client, rq_externalLabels = [(''dc'', ''x'')]\<rparr>"
  let ?res = "[\<lparr>ss_Metric = [(''dc'', ''x''), (''job'', ''j'')], ss_Values = [sp_at 1 10]\<rparr>]"
  obtain ms added where a: "addExternalLabels (\<lambda>_. Inl []) (rq_externalLabels ?q) [] = Inr (ms, added)"
      and k: "list_all (\<lambda>m. lm_Type m = Equal) ms"
    using append_external_total [of "\<lambda>_. Inl []" "[]" "labelset_Clone [(''dc'', ''x'')]"]
    by (auto simp: addExternalLabels_def Let_def)
  obtain pbs where "labelMatchersToProto ms = Inr pbs"
    using labelMatchersToProto_total [of ms] k by (auto simp: list_all_iff known_type_def)
  then have r: "client_Read ex_answer_env (rq_client ?q) 0 5000 ms =
      Inr (ex_client\<lparr>c_url := read_url (re_quote ex_answer_env) (c_url ex_client) 0 5000 ms\<rparr>, Inr ?res)"
    by (simp add: client_Read_def ex_answer_env_def ex_read_env_def read_url_def Let_def sdiv_small)
  have "list_all (\<lambda>ss. stream_ok (ss_Values ss)) res" if "Inr ?res = (Inr res :: string + SampleStream list)" for res
    using that by (auto simp: ex_defs)
  from rquerier_QueryRange_correct [OF a r this] show ?thesis
    by (auto simp: list_all2_Cons1)
qed

section \<open>Configuration\<close>

lemma reader_clients_ok:
  "reader_clients newHTTP i cs rrs = Inr cs' \<Longrightarrow>
     \<exists>new. cs' = cs @ new \<and> length new = length rrs \<and>
       (\<forall>j < length rrs. c_index (new ! j) = i + int j \<and> c_url (new ! j) = rr_URL (rrs ! j) \<and>
          c_timeout (new ! j) = rr_RemoteTimeout (rrs ! j) \<and>
          newHTTP (rr_HTTPClientConfig (rrs ! j)) = Inr (c_client (new ! j)))"
proof (induction newHTTP i cs rrs rule: reader_clients.induct)
  case (2 newHTTP i cs rr rrs)
  obtain h where h: "newHTTP (rr_HTTPClientConfig rr) = Inr h"
    using 2(2) by (auto simp: NewClient_def split: sum.splits)
  let ?c = "\<lparr>c_index = i, c_url = rr_URL rr, c_client = h, c_timeout = rr_RemoteTimeout rr\<rparr>"
  have "NewClient newHTTP i \<lparr>cc_url = rr_URL rr, cc_timeout = rr_RemoteTimeout rr,
      cc_httpClientConfig = rr_HTTPClientConfig rr\<rparr> = Inr ?c"
    using h by (simp add: NewClient_def)
  from 2(1) [OF this] 2(2) this obtain new where new: "cs' = (cs @ [?c]) @ new" "length new = length rrs"
      "\<forall>j < length rrs. c_index (new ! j) = i + 1 + int j \<and> c_url (new ! j) = rr_URL (rrs ! j) \<and>
         c_timeout (new ! j) = rr_RemoteTimeout (rrs ! j) \<and>
         newHTTP (rr_HTTPClientConfig (rrs ! j)) = Inr (c_client (new ! j))"
    by auto
  then show ?case
    using h by (intro exI [of _ "?c # new"]) (auto simp: nth_Cons split: nat.splits)
qed simp

lemma reader_clients_error:
  "(\<exists>err. reader_clients newHTTP i cs rrs = Inl err) \<longleftrightarrow>
     (\<exists>rr \<in> set rrs. \<exists>err. newHTTP (rr_HTTPClientConfig rr) = Inl err)"
  by (induction newHTTP i cs rrs rule: reader_clients.induct) (auto simp: NewClient_def split: sum.splits)

text \<open>Applying a configuration to the reader is all or nothing. If an HTTP client cannot be built for
  some endpoint, the reader keeps its state and returns an error; otherwise its queriers are, in the order
  of the configuration, one per endpoint, each with its position, URL and timeout and all with the
  external labels of the configuration.\<close>

theorem reader_ApplyConfig_correct:
  assumes "reader_ApplyConfig newHTTP rrs external r = (r', err)"
  shows "(err \<noteq> None \<longleftrightarrow> (\<exists>rr \<in> set rrs. \<exists>e. newHTTP (rr_HTTPClientConfig rr) = Inl e)) \<and>
    (err \<noteq> None \<longrightarrow> r' = r) \<and>
    (err = None \<longrightarrow> length (reader_Queriers r') = length rrs \<and>
      (\<forall>j < length rrs. c_index (rq_client (reader_Queriers r' ! j)) = int j \<and>
         c_url (rq_client (reader_Queriers r' ! j)) = rr_URL (rrs ! j) \<and>
         c_timeout (rq_client (reader_Queriers r' ! j)) = rr_RemoteTimeout (rrs ! j) \<and>
         rq_externalLabels (reader_Queriers r' ! j) = external))"
proof (cases "reader_clients newHTTP 0 [] rrs")
  case (Inl e)
  then show ?thesis
    using assms reader_clients_error [of newHTTP 0 "[]" rrs] by (auto simp: reader_ApplyConfig_def)
next
  case (Inr cs)
  then show ?thesis
    using assms reader_clients_error [of newHTTP 0 "[]" rrs] reader_clients_ok [OF Inr]
    by (auto simp: reader_ApplyConfig_def reader_Queriers_def)
qed

theorem reader_ApplyConfig_correct_witness:
  "length (reader_Queriers (fst (reader_ApplyConfig (\<lambda>n. if n = (0 :: nat) then Inl () else Inr n)
      [\<lparr>rr_URL = c_url ex_client, rr_RemoteTimeout = 5, rr_HTTPClientConfig = 1\<rparr>] []
      \<lparr>rd_clients = [], rd_externalLabels = []\<rparr>))) = 1"
  using reader_ApplyConfig_correct [of "\<lambda>n. if n = (0 :: nat) then Inl () else Inr n"
      "[\<lparr>rr_URL = c_url ex_client, rr_RemoteTimeout = 5, rr_HTTPClientConfig = 1\<rparr>]" "[]"
      "\<lparr>rd_clients = [], rd_externalLabels = []\<rparr>"]
  by (cases "reader_ApplyConfig (\<lambda>n. if n = (0 :: nat) then Inl () else Inr n)
      [\<lparr>rr_URL = c_url ex_client, rr_RemoteTimeout = 5, rr_HTTPClientConfig = 1\<rparr>] []
      \<lparr>rd_clients = [], rd_externalLabels = []\<rparr>") auto

end
