(* ===== verification/Query_Path.thy ===== *)
theory Query_Path
  imports Fanin_Query Remote_Read
begin

text \<open>
  The path of a query through the program: the queryable that \<open>cmd/main.go\<close> gives to the query engine
  (\<open>fanin.Queryable\<close> over the storage that does nothing and the reader), the methods of its querier, and the two
  kinds of querier behind the interface \<open>local.Querier\<close>. The fan-in of theory Fanin meets the remote queriers of
  theory Remote_Read here.

  A panic in the goroutine of a remote ends the process, so it is the outcome of the query. When several remotes panic
  the model names the panic of the first. The \<open>NoopStorage\<close> is vendored code.
\<close>

section \<open>Contexts\<close>

text \<open>A context is the list of the keys that were put on it; the value of the only key is the empty struct.\<close>

datatype contextKey = ctxLocalOnly

definition WithLocalOnly :: "contextKey list \<Rightarrow> contextKey list" where
  "WithLocalOnly ctx = ctxLocalOnly # ctx"

definition localOnly :: "contextKey list \<Rightarrow> bool" where
  "localOnly ctx \<longleftrightarrow> ctxLocalOnly \<in> set ctx"

section \<open>Queriers\<close>

record local_querier =
  lq_QueryRange :: "Time \<Rightarrow> Time \<Rightarrow> LabelMatcher list \<Rightarrow> string + SeriesIterator list"
  lq_QueryInstant :: "Time \<Rightarrow> Duration \<Rightarrow> LabelMatcher list \<Rightarrow> string + SeriesIterator list"
  lq_MetricsForLabelMatchers :: "Time \<Rightarrow> Time \<Rightarrow> LabelMatcher list list \<Rightarrow> string + LabelSet list"
  lq_LastSampleForLabelMatchers :: "Time \<Rightarrow> LabelMatcher list list \<Rightarrow> string + Sample list"
  lq_LabelValuesForLabelName :: "LabelName \<Rightarrow> string + LabelValue list"
  lq_Close :: "string option"

definition NoopQuerier :: local_querier where
  "NoopQuerier = \<lparr>lq_QueryRange = (\<lambda>_ _ _. Inr []), lq_QueryInstant = (\<lambda>_ _ _. Inr []),
     lq_MetricsForLabelMatchers = (\<lambda>_ _ _. Inr []), lq_LastSampleForLabelMatchers = (\<lambda>_ _. Inr []),
     lq_LabelValuesForLabelName = (\<lambda>_. Inr []), lq_Close = None\<rparr>"

datatype 'h querier = LocalQuerier local_querier | RemoteQuerier "'h rquerier"

fun querier_QueryRange ::
  "(string \<Rightarrow> string + (string \<Rightarrow> bool)) \<Rightarrow> 'h read_env \<Rightarrow> Time \<Rightarrow> Time \<Rightarrow> LabelMatcher list \<Rightarrow> 'h querier \<Rightarrow>
   panic + 'h querier \<times> (string + SeriesIterator list)" where
  "querier_QueryRange compile env from through ms (LocalQuerier l) = Inr (LocalQuerier l, lq_QueryRange l from through ms)"
| "querier_QueryRange compile env from through ms (RemoteQuerier r) =
    (case rquerier_QueryRange compile env r from through ms of
       Inl p \<Rightarrow> Inl p
     | Inr (r', res) \<Rightarrow> Inr (RemoteQuerier r', res))"

fun querier_QueryInstant ::
  "(string \<Rightarrow> string + (string \<Rightarrow> bool)) \<Rightarrow> 'h read_env \<Rightarrow> Time \<Rightarrow> Duration \<Rightarrow> LabelMatcher list \<Rightarrow> 'h querier \<Rightarrow>
   panic + 'h querier \<times> (string + SeriesIterator list)" where
  "querier_QueryInstant compile env ts delta ms (LocalQuerier l) = Inr (LocalQuerier l, lq_QueryInstant l ts delta ms)"
| "querier_QueryInstant compile env ts delta ms (RemoteQuerier r) =
    (case rquerier_QueryInstant compile env r ts delta ms of
       Inl p \<Rightarrow> Inl p
     | Inr (r', res) \<Rightarrow> Inr (RemoteQuerier r', res))"

text \<open>The remote queriers know no metadata, and closing them does nothing.\<close>

definition rquerier_MetricsForLabelMatchers :: "'h rquerier \<Rightarrow> Time \<Rightarrow> Time \<Rightarrow> LabelMatcher list list \<Rightarrow> string + LabelSet list" where
  "rquerier_MetricsForLabelMatchers q from through matcherSets = Inr []"

definition rquerier_LastSampleForLabelMatchers :: "'h rquerier \<Rightarrow> Time \<Rightarrow> LabelMatcher list list \<Rightarrow> string + Sample list" where
  "rquerier_LastSampleForLabelMatchers q cutoff matcherSets = Inr []"

definition rquerier_LabelValuesForLabelName :: "'h rquerier \<Rightarrow> LabelName \<Rightarrow> string + LabelValue list" where
  "rquerier_LabelValuesForLabelName q lname = Inr []"

definition rquerier_Close :: "'h rquerier \<Rightarrow> string option" where
  "rquerier_Close q = None"

fun querier_MetricsForLabelMatchers :: "'h querier \<Rightarrow> Time \<Rightarrow> Time \<Rightarrow> LabelMatcher list list \<Rightarrow> string + LabelSet list" where
  "querier_MetricsForLabelMatchers (LocalQuerier l) = lq_MetricsForLabelMatchers l"
| "querier_MetricsForLabelMatchers (RemoteQuerier r) = rquerier_MetricsForLabelMatchers r"

fun querier_LastSampleForLabelMatchers :: "'h querier \<Rightarrow> Time \<Rightarrow> LabelMatcher list list \<Rightarrow> string + Sample list" where
  "querier_LastSampleForLabelMatchers (LocalQuerier l) = lq_LastSampleForLabelMatchers l"
| "querier_LastSampleForLabelMatchers (RemoteQuerier r) = rquerier_LastSampleForLabelMatchers r"

fun querier_LabelValuesForLabelName :: "'h querier \<Rightarrow> LabelName \<Rightarrow> string + LabelValue list" where
  "querier_LabelValuesForLabelName (LocalQuerier l) = lq_LabelValuesForLabelName l"
| "querier_LabelValuesForLabelName (RemoteQuerier r) = rquerier_LabelValuesForLabelName r"

fun querier_Close :: "'h querier \<Rightarrow> string option" where
  "querier_Close (LocalQuerier l) = lq_Close l"
| "querier_Close (RemoteQuerier r) = rquerier_Close r"

section \<open>The queryable\<close>

text \<open>The local queryable is what its \<open>Querier\<close> gives.\<close>

record 'h Queryable =
  qb_Local :: "string + local_querier"
  qb_Remote :: "'h Reader"

definition queryable_Querier :: "'h Queryable \<Rightarrow> string + 'h querier fquerier" where
  "queryable_Querier q = (case qb_Local q of
       Inl err \<Rightarrow> Inl err
     | Inr l \<Rightarrow> Inr \<lparr>fq_local = LocalQuerier l, fq_remotes = map RemoteQuerier (reader_Queriers (qb_Remote q))\<rparr>)"

definition main_queryable :: "'h Reader \<Rightarrow> 'h Queryable" where
  "main_queryable r = \<lparr>qb_Local = Inr NoopQuerier, qb_Remote = r\<rparr>"

fun all_calls :: "('q \<Rightarrow> panic + 'r) \<Rightarrow> 'q list \<Rightarrow> panic + 'r list" where
  "all_calls call [] = Inr []"
| "all_calls call (q # qs) = (case call q of
       Inl p \<Rightarrow> Inl p
     | Inr r \<Rightarrow> (case all_calls call qs of Inl p \<Rightarrow> Inl p | Inr rs \<Rightarrow> Inr (r # rs)))"

text \<open>\<open>query\<close> with calls that may panic and that change the querier they are made on: the remotes are only called when
  the local answer is not final.\<close>

definition fanin_call ::
  "('q \<Rightarrow> panic + 'q \<times> ('e + SeriesIterator list)) \<Rightarrow> contextKey list \<Rightarrow> nat list \<Rightarrow> 'q fquerier \<Rightarrow>
   panic + ('q fquerier \<times> ('e + SeriesIterator list)) option" where
  "fanin_call call ctx sched q = (case call (fq_local q) of
       Inl p \<Rightarrow> Inl p
     | Inr (l, res) \<Rightarrow>
        if isl res \<or> length (fq_remotes q) = 0 \<or> localOnly ctx then Inr (Some (q\<lparr>fq_local := l\<rparr>, res))
        else (case all_calls call (fq_remotes q) of
            Inl p \<Rightarrow> Inl p
          | Inr rs \<Rightarrow>
             (case fanin_query False sched snd \<lparr>fq_local = (l, res), fq_remotes = rs\<rparr> of
                Inl p \<Rightarrow> Inl p
              | Inr None \<Rightarrow> Inr None
              | Inr (Some answer) \<Rightarrow> Inr (Some (\<lparr>fq_local = l, fq_remotes = map fst rs\<rparr>, answer)))))"

definition fanin_QueryRange ::
  "(string \<Rightarrow> string + (string \<Rightarrow> bool)) \<Rightarrow> 'h read_env \<Rightarrow> contextKey list \<Rightarrow> nat list \<Rightarrow> 'h querier fquerier \<Rightarrow>
   Time \<Rightarrow> Time \<Rightarrow> LabelMatcher list \<Rightarrow> panic + ('h querier fquerier \<times> (string + SeriesIterator list)) option" where
  "fanin_QueryRange compile env ctx sched q from through ms =
     fanin_call (querier_QueryRange compile env from through ms) ctx sched q"

definition fanin_QueryInstant ::
  "(string \<Rightarrow> string + (string \<Rightarrow> bool)) \<Rightarrow> 'h read_env \<Rightarrow> contextKey list \<Rightarrow> nat list \<Rightarrow> 'h querier fquerier \<Rightarrow>
   Time \<Rightarrow> Duration \<Rightarrow> LabelMatcher list \<Rightarrow> panic + ('h querier fquerier \<times> (string + SeriesIterator list)) option" where
  "fanin_QueryInstant compile env ctx sched q ts delta ms =
     fanin_call (querier_QueryInstant compile env ts delta ms) ctx sched q"

text \<open>Metadata comes from the local querier alone.\<close>

definition fanin_MetricsForLabelMatchers ::
  "'h querier fquerier \<Rightarrow> Time \<Rightarrow> Time \<Rightarrow> LabelMatcher list list \<Rightarrow> string + LabelSet list" where
  "fanin_MetricsForLabelMatchers q = querier_MetricsForLabelMatchers (fq_local q)"

definition fanin_LastSampleForLabelMatchers ::
  "'h querier fquerier \<Rightarrow> Time \<Rightarrow> LabelMatcher list list \<Rightarrow> string + Sample list" where
  "fanin_LastSampleForLabelMatchers q = querier_LastSampleForLabelMatchers (fq_local q)"

definition fanin_LabelValuesForLabelName :: "'h querier fquerier \<Rightarrow> LabelName \<Rightarrow> string + LabelValue list" where
  "fanin_LabelValuesForLabelName q = querier_LabelValuesForLabelName (fq_local q)"

text \<open>In the process an instant query is the range query of the staleness interval.\<close>

lemma all_calls_cong: "(\<And>q. q \<in> set qs \<Longrightarrow> f q = g q) \<Longrightarrow> all_calls f qs = all_calls g qs"
  by (induction qs) (auto split: sum.split)

lemma main_QueryInstant_eq:
  assumes "queryable_Querier (main_queryable r) = Inr q"
  shows "fanin_QueryInstant compile env ctx sched q ts delta ms =
    fanin_QueryRange compile env ctx sched q (time_Add ts (wrap64 (- delta))) ts ms"
proof -
  have q: "q = \<lparr>fq_local = LocalQuerier NoopQuerier, fq_remotes = map RemoteQuerier (reader_Queriers r)\<rparr>"
    using assms by (simp add: queryable_Querier_def main_queryable_def)
  let ?r = "querier_QueryRange compile env (time_Add ts (wrap64 (- delta))) ts ms"
  have "all_calls (querier_QueryInstant compile env ts delta ms) (fq_remotes q) = all_calls ?r (fq_remotes q)"
    by (rule all_calls_cong) (auto simp: q rquerier_QueryInstant_def rquerier_QueryRange_def)
  then show ?thesis
    by (simp add: fanin_QueryInstant_def fanin_QueryRange_def fanin_call_def q NoopQuerier_def)
qed

text \<open>A local-only query does not touch the remotes.\<close>

lemma fanin_local_only:
  assumes "fq_local q = LocalQuerier l" "localOnly ctx"
  shows "fanin_QueryRange compile env ctx sched q a b ms = Inr (Some (q, lq_QueryRange l a b ms))"
  using assms by (simp add: fanin_QueryRange_def fanin_call_def)

section \<open>What a remote answers\<close>

text \<open>The streams that an endpoint answers a selector with; every kind of failure is an answer without streams.\<close>

definition fetched :: "'h read_env \<Rightarrow> 'h Client \<Rightarrow> Time \<Rightarrow> Time \<Rightarrow> LabelMatcher list \<Rightarrow> SampleStream list" where
  "fetched env c from through ms =
    (case re_do env (c_client c) (c_timeout c)
        \<lparr>rq_method = ''GET'', rq_url = url_String (read_url (re_quote env) (c_url c) from through ms), rq_header = [], rq_body = []\<rparr> of
       Inl err \<Rightarrow> []
     | Inr resp \<Rightarrow>
        if go_div (rs_StatusCode resp) 100 \<noteq> 2 \<or> rs_body_err resp \<noteq> None then []
        else (case re_unmarshal env (rs_body resp) of Inl err \<Rightarrow> [] | Inr m \<Rightarrow> m))"

text \<open>The external labels that a query does not mention, the selector with them, and a stream without them.\<close>

definition added_labels :: "LabelSet \<Rightarrow> LabelMatcher list \<Rightarrow> LabelSet" where
  "added_labels ext ms = gm_del_all (labelset_Clone ext) (map lm_Name ms)"

definition extended :: "(string \<Rightarrow> string + (string \<Rightarrow> bool)) \<Rightarrow> LabelSet \<Rightarrow> LabelMatcher list \<Rightarrow> LabelMatcher list" where
  "extended compile ext ms = projr (append_external compile ms (added_labels ext ms))"

definition strip :: "LabelSet \<Rightarrow> LabelMatcher list \<Rightarrow> SampleStream \<Rightarrow> SampleStream" where
  "strip ext ms ss = ss\<lparr>ss_Metric := gm_del_all (ss_Metric ss) (map fst (added_labels ext ms))\<rparr>"

lemma extended_spec:
  "append_external compile ms (added_labels ext ms) = Inr (extended compile ext ms) \<and>
   addExternalLabels compile ext ms = Inr (extended compile ext ms, added_labels ext ms) \<and>
   (list_all (\<lambda>m. known_type (lm_Type m)) ms \<longrightarrow> list_all (\<lambda>m. known_type (lm_Type m)) (extended compile ext ms))"
proof -
  obtain es where es: "append_external compile ms (added_labels ext ms) = Inr (ms @ es)" "list_all (\<lambda>m. lm_Type m = Equal) es"
    using append_external_total [of compile ms "added_labels ext ms"] by blast
  then have "extended compile ext ms = ms @ es"
    by (simp add: extended_def)
  then show ?thesis
    using es by (auto simp: addExternalLabels_def added_labels_def Let_def list_all_iff known_type_def)
qed

lemma client_Read_fetched:
  assumes "list_all (\<lambda>m. known_type (lm_Type m)) ms" "\<And>u. re_url_err env u = None"
  shows "\<exists>res. client_Read env c from through ms = Inr (c\<lparr>c_url := read_url (re_quote env) (c_url c) from through ms\<rparr>, res) \<and>
    (case res of Inl err \<Rightarrow> [] | Inr m \<Rightarrow> m) = fetched env c from through ms"
proof -
  obtain pbs where "labelMatchersToProto ms = Inr pbs"
    using labelMatchersToProto_total [OF assms(1)] by blast
  then show ?thesis
    by (auto simp: client_Read_def fetched_def read_url_def [symmetric] Let_def assms(2) split: sum.split option.split)
qed

lemma remote_QueryRange_fetched:
  assumes "list_all (\<lambda>m. known_type (lm_Type m)) ms" "\<And>u. re_url_err env u = None"
  shows "\<exists>q' res. querier_QueryRange compile env from through ms (RemoteQuerier \<lparr>rq_client = c, rq_externalLabels = ext\<rparr>) = Inr (q', res) \<and>
    (case res of Inl err \<Rightarrow> [] | Inr its \<Rightarrow> its) =
      map (sampleStreamIterator \<circ> strip ext ms) (fetched env c from through (extended compile ext ms))"
proof -
  note e = extended_spec [of compile ms ext]
  obtain res where r: "client_Read env c from through (extended compile ext ms) =
        Inr (c\<lparr>c_url := read_url (re_quote env) (c_url c) from through (extended compile ext ms)\<rparr>, res)"
      "(case res of Inl err \<Rightarrow> [] | Inr m \<Rightarrow> m) = fetched env c from through (extended compile ext ms)"
    using client_Read_fetched [of "extended compile ext ms"] e assms by blast
  then show ?thesis
    using e by (cases res)
      (auto simp: rquerier_QueryRange_def rquerier_read_def MatrixToIterators_def removeLabels_def strip_def comp_def)
qed

lemma all_calls_Inr:
  assumes "\<And>q. q \<in> set qs \<Longrightarrow> \<exists>q' res. call q = Inr (q', res) \<and> P q q' res"
  shows "\<exists>rs. all_calls call qs = Inr rs \<and> list_all2 (\<lambda>q (q', res). P q q' res) qs rs"
  using assms
proof (induction qs)
  case (Cons q qs)
  then obtain rs q' res where "all_calls call qs = Inr rs" "list_all2 (\<lambda>q (q', res). P q q' res) qs rs"
      "call q = Inr (q', res)" "P q q' res"
    by (metis list.set_intros)
  then show ?case
    by simp
qed simp

lemma timestamps_merge_streams:
  "sp_Timestamp ` set (merge_streams vs ss) = sp_Timestamp ` set vs \<union> (\<Union>x \<in> set ss. sp_Timestamp ` set x)"
  by (induction ss arbitrary: vs) (auto simp: timestamps_merge_ts)

section \<open>The whole path\<close>

text \<open>All streams that the endpoints of a reader answer a query with, and the series that the query returns for a
  stream.\<close>

definition endpoint_streams ::
  "(string \<Rightarrow> string + (string \<Rightarrow> bool)) \<Rightarrow> 'h read_env \<Rightarrow> 'h Reader \<Rightarrow> Time \<Rightarrow> Time \<Rightarrow> LabelMatcher list \<Rightarrow> 'h Client \<Rightarrow>
   SampleStream list" where
  "endpoint_streams compile env r from through ms c = fetched env c from through (extended compile (rd_externalLabels r) ms)"

definition series_fp :: "'h Reader \<Rightarrow> LabelMatcher list \<Rightarrow> SampleStream \<Rightarrow> Fingerprint" where
  "series_fp r ms ss = labelset_Fingerprint (ss_Metric (strip (rd_externalLabels r) ms ss))"

lemma it_fp_strip: "it_fp (sampleStreamIterator (strip (rd_externalLabels r) ms ss)) = Inr (series_fp r ms ss)"
  by (simp add: it_fp_def sampleStreamIterator_def series_fp_def)

lemma strip_values [simp]: "ss_Values (strip ext ms ss) = ss_Values ss"
  by (simp add: strip_def)

lemma remote_iterators:
  assumes "list_all (\<lambda>m. known_type (lm_Type m)) ms" "\<And>u. re_url_err env u = None"
  shows "\<exists>rs. all_calls (querier_QueryRange compile env from through ms) (map RemoteQuerier (reader_Queriers r)) = Inr rs \<and>
    map (remote_its snd) rs = map (\<lambda>c. map (sampleStreamIterator \<circ> strip (rd_externalLabels r) ms)
      (endpoint_streams compile env r from through ms c)) (rd_clients r)"
proof -
  let ?qs = "map RemoteQuerier (reader_Queriers r)"
  let ?P = "\<lambda>q (q' :: 'a querier) res. \<forall>c. q = RemoteQuerier \<lparr>rq_client = c, rq_externalLabels = rd_externalLabels r\<rparr> \<longrightarrow>
      (case res of Inl (err :: string) \<Rightarrow> [] | Inr its \<Rightarrow> its) = map (sampleStreamIterator \<circ> strip (rd_externalLabels r) ms)
        (endpoint_streams compile env r from through ms c)"
  have "\<exists>q' res. querier_QueryRange compile env from through ms q = Inr (q', res) \<and> ?P q q' res" if q: "q \<in> set ?qs" for q
  proof -
    obtain c where "q = RemoteQuerier \<lparr>rq_client = c, rq_externalLabels = rd_externalLabels r\<rparr>"
      using q by (auto simp: reader_Queriers_def)
    then show ?thesis
      using remote_QueryRange_fetched [OF assms, of compile _ _ c "rd_externalLabels r"]
      by (auto simp: endpoint_streams_def)
  qed
  from all_calls_Inr [where qs = ?qs and P = ?P, OF this] obtain rs where
    rs: "all_calls (querier_QueryRange compile env from through ms) ?qs = Inr rs" "list_all2 (\<lambda>q (q', res). ?P q q' res) ?qs rs"
    by blast
  have "map (remote_its snd) rs = map (\<lambda>c. map (sampleStreamIterator \<circ> strip (rd_externalLabels r) ms)
      (endpoint_streams compile env r from through ms c)) (rd_clients r)"
    using rs(2) by (auto simp: list_all2_conv_all_nth reader_Queriers_def remote_its_def list_eq_iff_nth_eq split_beta)
  with rs(1) show ?thesis
    by blast
qed

lemma filter_UN_image: "{x \<in> (\<Union>c \<in> C. f ` S c). P x} = f ` (\<Union>c \<in> C. {s \<in> S c. P (f s)})"
  by auto

text \<open>An iterator of the answer when the local storage is empty.\<close>

lemma query_entry_remote_only:
  assumes "query_entry [] hist fp = Some mit" "list_all it_ok hist"
  shows "it_ok (mit_iterator mit) \<and>
    set (it_samples (mit_iterator mit)) \<subseteq> (\<Union>it \<in> {it \<in> set hist. it_fp it = Inr fp}. set (it_samples it)) \<and>
    sp_Timestamp ` set (it_samples (mit_iterator mit)) =
      (\<Union>it \<in> {it \<in> set hist. it_fp it = Inr fp}. sp_Timestamp ` set (it_samples it))"
proof -
  have m: "mit_local mit = None" "mit_remote mit = filter (\<lambda>it. it_fp it = Inr fp) hist"
    using query_entry_local [OF assms(1)] query_entry_remote [OF assms(1)] by simp_all
  have ok: "mit_ok mit"
    using query_entry_ok [OF assms(1)] assms(2) by simp
  have "set (remote_samples mit) \<subseteq> (\<Union>it \<in> {it \<in> set hist. it_fp it = Inr fp}. set (it_samples it))"
    using set_merge_streams [of "[]" "map it_samples (mit_remote mit)"] by (auto simp: remote_samples_def m(2))
  then show ?thesis
    using mit_iterator_ok [OF ok m(1)] timestamps_merge_streams [of "[]" "map it_samples (mit_remote mit)"]
    by (simp add: remote_samples_def m(2))
qed

text \<open>What a completed query returns for the streams of the endpoints.\<close>

lemma merged_streams:
  fixes S :: "'a Client \<Rightarrow> SampleStream list"
  assumes all: "all_remote_its snd q = concat (map (\<lambda>c. map (sampleStreamIterator \<circ> strip (rd_externalLabels r) ms) (S c)) (rd_clients r))"
    and q: "fq_local q = (LocalQuerier NoopQuerier :: 'a querier, Inr [] :: string + SeriesIterator list)" "fq_remotes q \<noteq> []"
    and its: "fanin_query False sched snd q = Inr (Some (Inr its))"
    and ok: "\<And>c. c \<in> set (rd_clients r) \<Longrightarrow> list_all (\<lambda>ss. stream_ok (ss_Values ss)) (S c)"
  shows "distinct (map it_fp its)"
    and "it_fp ` set its = (\<Union>c \<in> set (rd_clients r). (Inr \<circ> series_fp r ms) ` set (S c))"
    and "it \<in> set its \<Longrightarrow> it_ok it \<and>
      (let answers = (\<Union>c \<in> set (rd_clients r). {ss \<in> set (S c). Inr (series_fp r ms ss) = it_fp it})
       in set (it_samples it) \<subseteq> (\<Union>ss \<in> answers. set (ss_Values ss)) \<and>
          sp_Timestamp ` set (it_samples it) = (\<Union>ss \<in> answers. sp_Timestamp ` set (ss_Values ss)))"
proof -
  let ?mk = "sampleStreamIterator \<circ> strip (rd_externalLabels r) ms"
  have fps: "list_all has_fp (all_remote_its snd q)"
    by (auto simp: all list_all_iff has_fp_iff it_fp_strip)
  obtain m hist where m: "its = map (\<lambda>(fp, mit). mit_iterator mit) m" "gm_ok m" "gm_get m = query_entry [] hist"
      "mset hist = mset (all_remote_its snd q)"
    by (rule fanin_query_map [where qFn = snd and q = q and localIts = "[]", OF _ q(2) _ fps its]) (auto simp: q(1))
  have hist: "set hist = (\<Union>c \<in> set (rd_clients r). ?mk ` set (S c))"
    using arg_cong [OF m(4), of set_mset] by (simp add: all)
  have oks: "list_all it_ok hist"
    using ok by (auto simp: hist list_all_iff)
  have "distinct (map it_fp its) \<and> it_fp ` set its = it_fp ` set hist"
    using query_map_covers [of "[]" snd q m hist] fps m(1-4) mset_eq_setD [OF m(4)] by simp
  then show "distinct (map it_fp its)"
    and "it_fp ` set its = (\<Union>c \<in> set (rd_clients r). (Inr \<circ> series_fp r ms) ` set (S c))"
    by (simp_all add: hist image_UN image_comp comp_def it_fp_strip)
  show "it_ok it \<and> (let answers = (\<Union>c \<in> set (rd_clients r). {ss \<in> set (S c). Inr (series_fp r ms ss) = it_fp it})
       in set (it_samples it) \<subseteq> (\<Union>ss \<in> answers. set (ss_Values ss)) \<and>
          sp_Timestamp ` set (it_samples it) = (\<Union>ss \<in> answers. sp_Timestamp ` set (ss_Values ss)))" if "it \<in> set its"
  proof -
    obtain fp mit where e: "(fp, mit) \<in> set m" "it = mit_iterator mit"
      using \<open>it \<in> set its\<close> m(1) by auto
    have it: "it = mit_iterator mit" "query_entry [] hist fp = Some mit"
      using e gm_get_Some_iff [OF m(2)] m(3) by metis+
    let ?A = "\<Union>c \<in> set (rd_clients r). {ss \<in> set (S c). Inr (series_fp r ms ss) = it_fp it}"
    have fp: "it_fp it = Inr fp"
      using query_entry_fp [OF it(2)] it(1) by simp
    have "{x \<in> set hist. it_fp x = Inr fp} = ?mk ` ?A"
      unfolding hist filter_UN_image by (simp add: fp it_fp_strip)
    moreover have "it_samples (?mk ss) = ss_Values ss" if "ss \<in> ?A" for ss
      using that ok by (auto simp: list_all_iff)
    ultimately show ?thesis
      using query_entry_remote_only [OF it(2) oks] it(1) by (simp add: Let_def)
  qed
qed


text \<open>An example: two endpoints that both know the same series.\<close>

definition ex_reader :: "unit Reader" where
  "ex_reader = \<lparr>rd_clients = [ex_client, ex_client\<lparr>c_index := 1\<rparr>], rd_externalLabels = [(''dc'', ''x'')]\<rparr>"

lemma ex_endpoint_streams:
  "c \<in> set (rd_clients ex_reader) \<Longrightarrow> endpoint_streams (\<lambda>_. Inl []) ex_answer_env ex_reader 0 5000 [] c =
     [\<lparr>ss_Metric = [(''dc'', ''x''), (''job'', ''j'')], ss_Values = [sp_at 1 10]\<rparr>]"
  by (auto simp: endpoint_streams_def fetched_def ex_answer_env_def ex_read_env_def ex_reader_def sdiv_small)


end
