(* ===== verification/Read_Race.thy ===== *)
theory Read_Race
  imports Remote_Client
begin

text \<open>
  Concurrent reads through one client (\<open>src/storage/remote/client.go\<close>). All queriers of an endpoint share its
  client, and \<open>Read\<close> writes its query into the URL of the client without a lock. Here the three accesses of a
  \<open>Read\<close> to that URL are steps of their own, interleaved with those of other reads: \<open>c.url.Query()\<close>, the
  assignment to \<open>c.url.RawQuery\<close>, and \<open>c.url.String()\<close> for the request.

  Under every interleaving a request is that of one of the reads, never a mixture of two; but it may be that
  of another read, and then the caller gets the answer to somebody else's query.
\<close>

section \<open>The model\<close>

datatype read_pc = ReadEntry | HasQuery url_Values | UrlWritten | RequestSent string

record read_call =
  rg_from :: Time
  rg_through :: Time
  rg_matchers :: "LabelMatcher list"
  rg_pc :: read_pc

record read_state =
  cu_url :: url
  cu_calls :: "read_call list"

text \<open>The four parameters that \<open>Read\<close> sets.\<close>

definition read_set :: "(string \<Rightarrow> string) \<Rightarrow> url_Values \<Rightarrow> read_call \<Rightarrow> url_Values" where
  "read_set quote v c =
     values_Set (values_Set (values_Set (values_Set v
       ''start'' (itoa (go_div (rg_from c) nanosPerTick)))
       ''end'' (itoa (go_div (rg_through c) nanosPerTick)))
       ''query'' (''{'' @ LabelMatchers_String quote (rg_matchers c) @ ''}''))
       ''step'' ''2''"

inductive read_step :: "(string \<Rightarrow> string) \<Rightarrow> read_state \<Rightarrow> read_state \<Rightarrow> bool" for quote where
  get_query: "\<lbrakk>i < length (cu_calls s); c = cu_calls s ! i; rg_pc c = ReadEntry\<rbrakk> \<Longrightarrow>
    read_step quote s (s\<lparr>cu_calls := (cu_calls s)[i := c\<lparr>rg_pc := HasQuery (url_Query (u_RawQuery (cu_url s)))\<rparr>]\<rparr>)"
| write_url: "\<lbrakk>i < length (cu_calls s); c = cu_calls s ! i; rg_pc c = HasQuery v\<rbrakk> \<Longrightarrow>
    read_step quote s (s\<lparr>cu_url := (cu_url s)\<lparr>u_RawQuery := values_Encode (read_set quote v c)\<rparr>,
      cu_calls := (cu_calls s)[i := c\<lparr>rg_pc := UrlWritten\<rparr>]\<rparr>)"
| send: "\<lbrakk>i < length (cu_calls s); c = cu_calls s ! i; rg_pc c = UrlWritten\<rbrakk> \<Longrightarrow>
    read_step quote s (s\<lparr>cu_calls := (cu_calls s)[i := c\<lparr>rg_pc := RequestSent (url_String (cu_url s))\<rparr>]\<rparr>)"

definition read_start :: "url \<Rightarrow> (Time \<times> Time \<times> LabelMatcher list) list \<Rightarrow> read_state" where
  "read_start u calls = \<lparr>cu_url = u,
     cu_calls = map (\<lambda>(a, b, ms). \<lparr>rg_from = a, rg_through = b, rg_matchers = ms, rg_pc = ReadEntry\<rparr>) calls\<rparr>"

section \<open>The invariant\<close>

text \<open>The URL that a call writes when it reads the configured URL \<open>u\<close>.\<close>

definition call_url :: "(string \<Rightarrow> string) \<Rightarrow> url \<Rightarrow> read_call \<Rightarrow> url" where
  "call_url quote u c = read_url quote u (rg_from c) (rg_through c) (rg_matchers c)"

lemma call_url_set: "u\<lparr>u_RawQuery := values_Encode (read_set quote (url_Query (u_RawQuery u)) c)\<rparr> = call_url quote u c"
  by (simp add: call_url_def read_url_def read_values_def read_set_def)

lemma call_url_again: "call_url quote (call_url quote u d) c = call_url quote u c"
  by (simp add: call_url_def read_url_again)

lemma call_url_pc [simp]: "call_url quote u (c\<lparr>rg_pc := p\<rparr>) = call_url quote u c"
  by (simp add: call_url_def)

text \<open>A call that holds the values of the URL will write its own URL whatever the query string is by then.\<close>

definition call_ok :: "(string \<Rightarrow> string) \<Rightarrow> url \<Rightarrow> url set \<Rightarrow> url \<Rightarrow> read_call \<Rightarrow> bool" where
  "call_ok quote u U w c \<longleftrightarrow> call_url quote u c \<in> U \<and> (case rg_pc c of
       ReadEntry \<Rightarrow> True
     | HasQuery v \<Rightarrow> u\<lparr>u_RawQuery := values_Encode (read_set quote v c)\<rparr> = call_url quote u c
     | UrlWritten \<Rightarrow> w \<in> U
     | RequestSent r \<Rightarrow> r \<in> url_String ` U)"

definition read_inv :: "(string \<Rightarrow> string) \<Rightarrow> url \<Rightarrow> url set \<Rightarrow> read_state \<Rightarrow> bool" where
  "read_inv quote u U s \<longleftrightarrow> U \<subseteq> range (call_url quote u) \<and> (cu_url s = u \<or> cu_url s \<in> U) \<and>
     list_all (call_ok quote u U (cu_url s)) (cu_calls s)"

lemma call_url_rest: "(call_url quote u d)\<lparr>u_RawQuery := x\<rparr> = u\<lparr>u_RawQuery := x\<rparr>"
  by (simp add: call_url_def read_url_def)

lemma read_set_pc [simp]: "read_set quote v (c\<lparr>rg_pc := p\<rparr>) = read_set quote v c"
  by (simp add: read_set_def)

lemma read_inv_url:
  assumes "read_inv quote u U s"
  shows "(cu_url s)\<lparr>u_RawQuery := x\<rparr> = u\<lparr>u_RawQuery := x\<rparr>" "call_url quote (cu_url s) c = call_url quote u c"
  using assms by (auto simp: read_inv_def call_url_rest call_url_again)

lemma read_inv_update:
  assumes "read_inv quote u U s" "w = cu_url s \<or> w \<in> U" "call_ok quote u U w c"
  shows "read_inv quote u U (s\<lparr>cu_url := w, cu_calls := (cu_calls s)[i := c]\<rparr>)"
proof -
  have "call_ok quote u U w d" if "call_ok quote u U (cu_url s) d" for d
    using that assms(2) by (auto simp: call_ok_def split: read_pc.splits)
  then have "list_all (call_ok quote u U w) (cu_calls s)"
    using assms(1) by (auto simp: read_inv_def list_all_iff)
  then show ?thesis
    using assms by (auto simp: read_inv_def list_all_update)
qed

lemma read_step_inv:
  assumes "read_step quote s t" "read_inv quote u U s"
  shows "read_inv quote u U t"
  using assms(1)
proof (cases rule: read_step.cases)
  case (get_query i c)
  have "call_ok quote u U (cu_url s) c"
    using assms(2) get_query by (auto simp: read_inv_def list_all_length)
  moreover have "u\<lparr>u_RawQuery := values_Encode (read_set quote (url_Query (u_RawQuery (cu_url s))) c)\<rparr> = call_url quote u c"
    using call_url_set [where u = "cu_url s" and quote = quote and c = c] unfolding read_inv_url [OF assms(2)] .
  ultimately have "call_ok quote u U (cu_url s) (c\<lparr>rg_pc := HasQuery (url_Query (u_RawQuery (cu_url s)))\<rparr>)"
    by (simp add: call_ok_def)
  then show ?thesis
    using read_inv_update [OF assms(2), of "cu_url s"] get_query(1) by simp
next
  case (write_url i c v)
  have "call_ok quote u U (cu_url s) c"
    using assms(2) write_url by (auto simp: read_inv_def list_all_length)
  then show ?thesis
    unfolding write_url(1) read_inv_url(1) [OF assms(2)]
    using write_url(4) by (intro read_inv_update [OF assms(2)]) (auto simp: call_ok_def)
next
  case (send i c)
  have "call_ok quote u U (cu_url s) c"
    using assms(2) send by (auto simp: read_inv_def list_all_length)
  then have "call_ok quote u U (cu_url s) (c\<lparr>rg_pc := RequestSent (url_String (cu_url s))\<rparr>)"
    using send(4) by (simp add: call_ok_def)
  then show ?thesis
    using read_inv_update [OF assms(2), of "cu_url s"] send(1) by simp
qed

lemma read_url_in_range: "\<exists>c. read_url quote u a b ms = call_url quote u c"
  by (rule exI [of _ "\<lparr>rg_from = a, rg_through = b, rg_matchers = ms, rg_pc = ReadEntry\<rparr>"]) (simp add: call_url_def)

lemma read_reachable_inv:
  assumes "(read_step quote)\<^sup>*\<^sup>* (read_start u calls) s"
  shows "read_inv quote u ((\<lambda>(a, b, ms). read_url quote u a b ms) ` set calls) s"
  using assms
proof (induction rule: rtranclp_induct)
  case base
  show ?case
    by (auto simp: read_inv_def read_start_def call_ok_def list_all_iff image_iff read_url_in_range split: prod.splits)
      (force simp: call_url_def)
next
  case (step s t)
  then show ?case
    using read_step_inv by blast
qed

section \<open>What reads can rely on\<close>

text \<open>The state after two reads have both looked at the URL before either wrote it.\<close>

definition crossed :: "(string \<Rightarrow> string) \<Rightarrow> url \<Rightarrow> Time \<times> Time \<times> LabelMatcher list \<Rightarrow> Time \<times> Time \<times> LabelMatcher list \<Rightarrow> read_state" where
  "crossed quote u = (\<lambda>(a1, b1, ms1) (a2, b2, ms2).
     \<lparr>cu_url = read_url quote u a2 b2 ms2,
      cu_calls =
       [\<lparr>rg_from = a1, rg_through = b1, rg_matchers = ms1, rg_pc = RequestSent (url_String (read_url quote u a2 b2 ms2))\<rparr>,
        \<lparr>rg_from = a2, rg_through = b2, rg_matchers = ms2, rg_pc = RequestSent (url_String (read_url quote u a2 b2 ms2))\<rparr>]\<rparr>)"

lemma crossed_reachable:
  "(read_step quote)\<^sup>*\<^sup>* (read_start u [(a1, b1, ms1), (a2, b2, ms2)]) (crossed quote u (a1, b1, ms1) (a2, b2, ms2))"
proof -
  define c1 where "c1 p = \<lparr>rg_from = a1, rg_through = b1, rg_matchers = ms1, rg_pc = p\<rparr>" for p
  define c2 where "c2 p = \<lparr>rg_from = a2, rg_through = b2, rg_matchers = ms2, rg_pc = p\<rparr>" for p
  note d = c1_def c2_def
  let ?q = "HasQuery (url_Query (u_RawQuery u))"
  let ?u1 = "read_url quote u a1 b1 ms1" and ?u2 = "read_url quote u a2 b2 ms2"
  let ?r = "RequestSent (url_String ?u2)"
  let ?s = "\<lambda>w p1 p2. \<lparr>cu_url = w, cu_calls = [c1 p1, c2 p2]\<rparr>"
  have set1: "u\<lparr>u_RawQuery := values_Encode (read_set quote (url_Query (u_RawQuery u)) (c1 p))\<rparr> = ?u1" for p
    by (simp add: call_url_set, simp add: call_url_def c1_def)
  have set2: "?u1\<lparr>u_RawQuery := values_Encode (read_set quote (url_Query (u_RawQuery u)) (c2 p))\<rparr> = ?u2" for p
    using call_url_set [where u = u and quote = quote and c = "c2 p"] by (simp add: call_url_def c2_def read_url_def)
  have 1: "read_step quote (?s u ReadEntry ReadEntry) (?s u ?q ReadEntry)"
    using read_step.get_query [of 0 "?s u ReadEntry ReadEntry" "c1 ReadEntry" quote] by (simp add: d)
  have 2: "read_step quote (?s u ?q ReadEntry) (?s u ?q ?q)"
    using read_step.get_query [of 1 "?s u ?q ReadEntry" "c2 ReadEntry" quote] by (simp add: d)
  have 3: "read_step quote (?s u ?q ?q) (?s ?u1 UrlWritten ?q)"
    using read_step.write_url [of 0 "?s u ?q ?q" "c1 ?q" "url_Query (u_RawQuery u)" quote] set1 by (simp add: d)
  have 4: "read_step quote (?s ?u1 UrlWritten ?q) (?s ?u2 UrlWritten UrlWritten)"
    using read_step.write_url [of 1 "?s ?u1 UrlWritten ?q" "c2 ?q" "url_Query (u_RawQuery u)" quote] set2 by (simp add: d)
  have 5: "read_step quote (?s ?u2 UrlWritten UrlWritten) (?s ?u2 ?r UrlWritten)"
    using read_step.send [of 0 "?s ?u2 UrlWritten UrlWritten" "c1 UrlWritten" quote] by (simp add: d)
  have 6: "read_step quote (?s ?u2 ?r UrlWritten) (?s ?u2 ?r ?r)"
    using read_step.send [of 1 "?s ?u2 ?r UrlWritten" "c2 UrlWritten" quote] by (simp add: d)
  have "(read_step quote)\<^sup>*\<^sup>* (?s u ReadEntry ReadEntry) (?s ?u2 ?r ?r)"
    using 1 2 3 4 5 6 by (meson converse_rtranclp_into_rtranclp rtranclp.rtrancl_refl)
  then show ?thesis
    by (simp add: read_start_def crossed_def d)
qed



text \<open>But for any two reads of one client there is an interleaving after which both have sent the request of the
  second: the first read gets the samples that the selector of the second one selects.\<close>

theorem read_race_crossed:
  "\<exists>s. (read_step quote)\<^sup>*\<^sup>* (read_start u [(a1, b1, ms1), (a2, b2, ms2)]) s \<and>
     map rg_matchers (cu_calls s) = [ms1, ms2] \<and>
     map rg_pc (cu_calls s) = replicate 2 (RequestSent (url_String (read_url quote u a2 b2 ms2))) \<and>
     gm_get (url_Query (u_RawQuery (read_url quote u a2 b2 ms2))) ''query'' = Some [''{'' @ LabelMatchers_String quote ms2 @ ''}'']"
proof -
  have "gm_get (url_Query (u_RawQuery (read_url quote u a2 b2 ms2))) ''query'' = Some [''{'' @ LabelMatchers_String quote ms2 @ ''}'']"
    unfolding read_url_query gm_get_read_values by simp
  then show ?thesis
    using crossed_reachable [of quote u a1 b1 ms1 a2 b2 ms2] by (intro exI conjI) (auto simp: crossed_def numeral_2_eq_2)
qed

end
