(* ===== verification/Cow_Metric.thy ===== *)
theory Cow_Metric
  imports Label_Matcher
begin

text \<open>
  The metric with copy on write (\<open>src/storage/metric/metric.go\<close>). Go maps are references, so the label
  maps live in a heap, a list of maps indexed by address, and the wrapper holds an address (\<open>None\<close> is the
  nil map). What makes the wrapper correct is that no operation changes a map that existed before the
  wrapper made its copy, while its own view evolves like a map.
\<close>

type_synonym lheap = "LabelSet list"

record cow_metric =
  cm_Copied :: bool
  cm_Metric :: "nat option"

definition lheap_get :: "lheap \<Rightarrow> nat option \<Rightarrow> LabelSet" where
  "lheap_get h p = (case p of Some a \<Rightarrow> if a < length h then h ! a else [] | None \<Rightarrow> [])"

definition cow_Copy :: "lheap \<times> cow_metric \<Rightarrow> lheap \<times> cow_metric" where
  "cow_Copy = (\<lambda>(h, m).
     if \<not> cm_Copied m
     then (h @ [labelset_Clone (lheap_get h (cm_Metric m))], m\<lparr>cm_Metric := Some (length h), cm_Copied := True\<rparr>)
     else (h, m))"

text \<open>An assignment to an entry of a nil map panics; \<open>delete\<close> on it does nothing.\<close>

definition cow_Set :: "LabelName \<Rightarrow> LabelValue \<Rightarrow> lheap \<times> cow_metric \<Rightarrow> panic + lheap \<times> cow_metric" where
  "cow_Set nm lv hm = (case cow_Copy hm of (h, m) \<Rightarrow> (case cm_Metric m of
       None \<Rightarrow> Inl (ExplicitPanic ''assignment to entry in nil map'')
     | Some a \<Rightarrow> Inr (h[a := gm_put (lheap_get h (Some a)) nm lv], m)))"

definition cow_Del :: "LabelName \<Rightarrow> lheap \<times> cow_metric \<Rightarrow> lheap \<times> cow_metric" where
  "cow_Del nm hm = (case cow_Copy hm of (h, m) \<Rightarrow> (case cm_Metric m of
       None \<Rightarrow> (h, m)
     | Some a \<Rightarrow> (h[a := gm_del (lheap_get h (Some a)) nm], m)))"

definition cow_Get :: "LabelName \<Rightarrow> lheap \<times> cow_metric \<Rightarrow> LabelValue" where
  "cow_Get nm = (\<lambda>(h, m). gm_str (lheap_get h (cm_Metric m)) nm)"

definition cow_Gets :: "LabelName \<Rightarrow> lheap \<times> cow_metric \<Rightarrow> LabelValue \<times> bool" where
  "cow_Gets nm = (\<lambda>(h, m).
     (gm_str (lheap_get h (cm_Metric m)) nm, gm_has (lheap_get h (cm_Metric m)) nm))"

text \<open>The text of a metric, with \<open>%q\<close> as a parameter; the labels are sorted after they were written out.\<close>

definition metric_String :: "(string \<Rightarrow> string) \<Rightarrow> LabelSet \<Rightarrow> string" where
  "metric_String quote m =
    (let hasName = gm_has m MetricNameLabel;
         numLabels = (if hasName then length m - 1 else length m);
         labelStrings = map (\<lambda>(l, v). l @ ''='' @ quote v) (filter (\<lambda>(l, v). l \<noteq> MetricNameLabel) m) in
     if numLabels = 0 then (if hasName then gm_str m MetricNameLabel else ''{}'')
     else gm_str m MetricNameLabel @ ''{'' @ str_join (sort labelStrings) '', '' @ ''}'')"

definition cow_String :: "(string \<Rightarrow> string) \<Rightarrow> lheap \<times> cow_metric \<Rightarrow> string" where
  "cow_String quote = (\<lambda>(h, m). metric_String quote (lheap_get h (cm_Metric m)))"

text \<open>It does not depend on the order in which the map is visited.\<close>

lemma sort_mset: "mset xs = mset ys \<Longrightarrow> sort xs = sort ys"
  by (intro properties_for_sort) simp_all

lemma metric_String_same:
  assumes "gm_ok m" "gm_ok n" "gm_same m n"
  shows "metric_String quote m = metric_String quote n"
proof -
  have mset: "mset m = mset n"
    using gm_same_set [OF assms] assms(1,2) by (simp add: gm_ok_def set_eq_iff_mset_eq_distinct distinct_map)
  have len: "length m = length n"
    using mset by (rule mset_eq_length)
  have sorted: "sort (map F (filter P m)) = sort (map F (filter P n))" for F :: "_ \<Rightarrow> string" and P
    by (rule sort_mset) (simp add: mset)
  have get: "gm_has m k = gm_has n k" "gm_str m k = gm_str n k" for k
    using assms(3) by (simp_all add: gm_same_def gm_has_def gm_str_def)
  show ?thesis
    unfolding metric_String_def Let_def len sorted get ..
qed

section \<open>Refinement to a map\<close>

datatype cow_op = OpSet LabelName LabelValue | OpDel LabelName | OpCopy

fun cow_run :: "cow_op list \<Rightarrow> lheap \<times> cow_metric \<Rightarrow> panic + lheap \<times> cow_metric" where
  "cow_run [] hm = Inr hm"
| "cow_run (OpSet nm lv # ops) hm = (case cow_Set nm lv hm of Inl p \<Rightarrow> Inl p | Inr hm' \<Rightarrow> cow_run ops hm')"
| "cow_run (OpDel nm # ops) hm = cow_run ops (cow_Del nm hm)"
| "cow_run (OpCopy # ops) hm = cow_run ops (cow_Copy hm)"

fun map_run :: "cow_op list \<Rightarrow> (LabelName \<rightharpoonup> LabelValue) \<Rightarrow> (LabelName \<rightharpoonup> LabelValue)" where
  "map_run [] f = f"
| "map_run (OpSet nm lv # ops) f = map_run ops (f(nm \<mapsto> lv))"
| "map_run (OpDel nm # ops) f = map_run ops (f(nm := None))"
| "map_run (OpCopy # ops) f = map_run ops f"

definition cow_view :: "lheap \<times> cow_metric \<Rightarrow> LabelName \<rightharpoonup> LabelValue" where
  "cow_view = (\<lambda>(h, m). gm_get (lheap_get h (cm_Metric m)))"

text \<open>The wrapper owns its map: a copy it made at an address from \<open>n\<close> on, or none yet.\<close>

definition cow_inv :: "nat \<Rightarrow> lheap \<times> cow_metric \<Rightarrow> bool" where
  "cow_inv n = (\<lambda>(h, m). n \<le> length h \<and> list_all gm_ok h \<and>
     (cm_Copied m \<longrightarrow> (\<exists>a. cm_Metric m = Some a \<and> n \<le> a \<and> a < length h)))"

definition cow_frame :: "nat \<Rightarrow> lheap \<times> cow_metric \<Rightarrow> lheap \<times> cow_metric \<Rightarrow> bool" where
  "cow_frame n s t \<longleftrightarrow> take n (fst t) = take n (fst s)"

lemma gm_ok_lheap_get [simp]: "list_all gm_ok h \<Longrightarrow> gm_ok (lheap_get h p)"
  by (auto simp: lheap_get_def list_all_length split: option.splits)

lemma lheap_get_new [simp]: "lheap_get (h @ [l]) (Some (length h)) = l"
  by (simp add: lheap_get_def)

lemma lheap_get_update [simp]: "a < length h \<Longrightarrow> lheap_get (h[a := l]) (Some a) = l"
  by (simp add: lheap_get_def)

lemma cow_Copy_step:
  assumes "cow_inv n s"
  shows "cow_inv n (cow_Copy s) \<and> cm_Copied (snd (cow_Copy s)) \<and> cow_view (cow_Copy s) = cow_view s \<and>
    cow_frame n s (cow_Copy s)"
  using assms
  by (cases s) (simp add: cow_inv_def cow_Copy_def cow_view_def cow_frame_def gm_get_Clone)

text \<open>A write through the address the wrapper owns.\<close>

lemma cow_write:
  assumes "cow_inv n s" "cow_Copy s = (h, m)" "\<And>l. gm_ok l \<Longrightarrow> gm_ok (f l)"
  shows "\<exists>a. cm_Metric m = Some a \<and> cow_inv n (h[a := f (lheap_get h (Some a))], m) \<and>
    cow_view (h[a := f (lheap_get h (Some a))], m) = gm_get (f (lheap_get h (cm_Metric m))) \<and>
    cow_frame n s (h[a := f (lheap_get h (Some a))], m)"
proof -
  have c: "cow_inv n (h, m)" "cm_Copied m" "cow_frame n s (h, m)"
    using cow_Copy_step [OF assms(1)] assms(2) by auto
  then obtain a where a: "cm_Metric m = Some a" "n \<le> a" "a < length h" and h: "list_all gm_ok h" "n \<le> length h"
    by (auto simp: cow_inv_def)
  have "list_all gm_ok (h[a := f (lheap_get h (Some a))])"
    using h by (intro list_all_update assms(3)) auto
  then have "cow_inv n (h[a := f (lheap_get h (Some a))], m)"
    using a h by (simp add: cow_inv_def)
  moreover have "cow_frame n s (h[a := f (lheap_get h (Some a))], m)"
    using c(3) a(2) by (simp add: cow_frame_def)
  ultimately show ?thesis
    using a by (simp add: cow_view_def)
qed

lemma cow_Copy_view: "cow_inv n s \<Longrightarrow> cow_Copy s = (h, m) \<Longrightarrow> gm_get (lheap_get h (cm_Metric m)) = cow_view s"
  using cow_Copy_step [of n s] by (simp add: cow_view_def)

lemma cow_Set_step:
  assumes "cow_inv n s"
  shows "\<exists>t. cow_Set nm lv s = Inr t \<and> cow_inv n t \<and> cow_view t = (cow_view s)(nm \<mapsto> lv) \<and> cow_frame n s t"
proof -
  obtain h m where hm: "cow_Copy s = (h, m)"
    by (cases "cow_Copy s")
  from cow_write [OF assms hm, of "\<lambda>l. gm_put l nm lv", OF gm_ok_put] cow_Copy_view [OF assms hm] show ?thesis
    by (auto simp: cow_Set_def hm gm_get_put)
qed

lemma cow_Del_step:
  assumes "cow_inv n s"
  shows "cow_inv n (cow_Del nm s) \<and> cow_view (cow_Del nm s) = (cow_view s)(nm := None) \<and>
    cow_frame n s (cow_Del nm s)"
proof -
  obtain h m where hm: "cow_Copy s = (h, m)"
    by (cases "cow_Copy s")
  from cow_write [OF assms hm, of "\<lambda>l. gm_del l nm", OF gm_ok_del] cow_Copy_view [OF assms hm] show ?thesis
    by (auto simp: cow_Del_def hm gm_get_del)
qed

lemma cow_run_refines:
  "cow_inv n s \<Longrightarrow>
     \<exists>t. cow_run ops s = Inr t \<and> cow_inv n t \<and> cow_view t = map_run ops (cow_view s) \<and> cow_frame n s t"
proof (induction ops arbitrary: s)
  case Nil
  then show ?case by (simp add: cow_frame_def)
next
  case (Cons op ops)
  show ?case
  proof (cases op)
    case (OpSet nm lv)
    obtain s' where s': "cow_Set nm lv s = Inr s'" "cow_inv n s'" "cow_view s' = (cow_view s)(nm \<mapsto> lv)"
        "cow_frame n s s'"
      using cow_Set_step [OF Cons.prems] by blast
    then show ?thesis
      using Cons.IH [OF s'(2)] OpSet by (auto simp: cow_frame_def fun_upd_def)
  next
    case (OpDel nm)
    then show ?thesis
      using cow_Del_step [OF Cons.prems, of nm] Cons.IH [of "cow_Del nm s"] by (auto simp: cow_frame_def fun_upd_def)
  next
    case OpCopy
    then show ?thesis
      using cow_Copy_step [OF Cons.prems] Cons.IH [of "cow_Copy s"] by (auto simp: cow_frame_def)
  qed
qed

text \<open>C30. Copy on write: any sequence of \<open>Set\<close>, \<open>Del\<close> and \<open>Copy\<close> on a wrapper around a shared map succeeds,
  changes none of the maps that were on the heap before, and leaves the wrapper with the view that the
  same updates give on a map of its own.\<close>

theorem cow_metric_refines_map:
  assumes "\<not> cm_Copied m" "list_all gm_ok h"
  shows "\<exists>h' m'. cow_run ops (h, m) = Inr (h', m') \<and> take (length h) h' = h \<and>
    (\<forall>nm. cow_Gets nm (h', m') = (case map_run ops (gm_get (lheap_get h (cm_Metric m))) nm of
       Some lv \<Rightarrow> (lv, True) | None \<Rightarrow> ('''', False)))"
proof -
  have "cow_inv (length h) (h, m)"
    using assms by (simp add: cow_inv_def)
  from cow_run_refines [OF this, of ops] show ?thesis
    by (auto simp: cow_frame_def cow_view_def cow_Gets_def gm_str_def gm_has_def fun_eq_iff split: option.splits)
qed

theorem cow_metric_refines_map_witness:
  "\<exists>h' m'. cow_run [OpDel ''a'', OpSet ''b'' ''2''] ([[(''a'', ''1'')]], \<lparr>cm_Copied = False, cm_Metric = Some 0\<rparr>) =
       Inr (h', m') \<and> h' ! 0 = [(''a'', ''1'')] \<and> cow_Gets ''b'' (h', m') = (''2'', True)"
proof -
  let ?m = "\<lparr>cm_Copied = False, cm_Metric = Some 0\<rparr>" and ?h = "[[(''a'', ''1'')]]"
  obtain h' m' where run: "cow_run [OpDel ''a'', OpSet ''b'' ''2''] (?h, ?m) = Inr (h', m')" "take (length ?h) h' = ?h"
      "\<forall>nm. cow_Gets nm (h', m') = (case map_run [OpDel ''a'', OpSet ''b'' ''2''] (gm_get (lheap_get ?h (cm_Metric ?m))) nm of
         Some lv \<Rightarrow> (lv, True) | None \<Rightarrow> ('''', False))"
    using cow_metric_refines_map [of ?m ?h "[OpDel ''a'', OpSet ''b'' ''2'']"] by (auto simp: gm_ok_def)
  have "h' ! 0 = take (length ?h) h' ! 0"
    by simp
  then show ?thesis
    using run(1,3) unfolding run(2) by auto
qed

end
