(* ===== verification/Queue_Send.thy ===== *)
theory Queue_Send
  imports Remote_Client
begin

text \<open>
  Sending batches to the remote storage (\<open>src/storage/remote/queue_manager.go\<close>): the configuration of
  the queue, \<open>sendSamplesWithBackoff\<close> with its retries, and the batching loop of \<open>runShard\<close>.

  The storage client is a parameter: a function from the state of the outside world and a batch to
  the result of \<open>Store\<close> and the next state. The lemmas give the number of attempts, the exact
  sequence of sleeps and the outcome as functions of the results, and show that the batching loop
  ends and cuts the pending samples into batches of the configured size without loss.
\<close>

section \<open>The configuration\<close>

record QueueManagerConfig =
  QueueCapacity :: int
  MaxShards :: int
  MaxSamplesPerSend :: int
  BatchSendDeadline :: Duration
  MaxRetries :: int
  MinBackoff :: Duration
  MaxBackoff :: Duration

definition Millisecond :: Duration where
  "Millisecond = 1000000"

definition Second :: Duration where
  "Second = 1000000000"

definition defaultQueueManagerConfig :: QueueManagerConfig where
  "defaultQueueManagerConfig =
     \<lparr>QueueCapacity = 100 * 1000, MaxShards = 1000, MaxSamplesPerSend = 100, BatchSendDeadline = 5 * Second,
      MaxRetries = 10, MinBackoff = 30 * Millisecond, MaxBackoff = 100 * Millisecond\<rparr>"

section \<open>Sending with retries\<close>

type_synonym 'w storage = "'w \<Rightarrow> Sample list \<Rightarrow> store_error option \<times> 'w"

text \<open>What one call of \<open>sendSamplesWithBackoff\<close> leaves: the world, the sleeps in order, how often \<open>Store\<close> was
  called, and what it added to the two counters of samples.\<close>

record 'w send_result =
  sr_world :: 'w
  sr_sleeps :: "Duration list"
  sr_attempts :: nat
  sr_succeeded :: nat
  sr_failed :: nat

definition next_backoff :: "QueueManagerConfig \<Rightarrow> Duration \<Rightarrow> Duration" where
  "next_backoff cfg backoff =
     (let b = wrap64 (backoff * 2) in if b > MaxBackoff cfg then MaxBackoff cfg else b)"

fun send_loop ::
  "QueueManagerConfig \<Rightarrow> 'w storage \<Rightarrow> Sample list \<Rightarrow> nat \<Rightarrow> Duration \<Rightarrow> 'w \<Rightarrow> 'w send_result" where
  "send_loop cfg store samples 0 backoff w =
     \<lparr>sr_world = w, sr_sleeps = [], sr_attempts = 0, sr_succeeded = 0, sr_failed = length samples\<rparr>"
| "send_loop cfg store samples (Suc retries) backoff w =
    (case store w samples of
       (None, w') \<Rightarrow>
         \<lparr>sr_world = w', sr_sleeps = [], sr_attempts = 1, sr_succeeded = length samples, sr_failed = 0\<rparr>
     | (Some (otherError _), w') \<Rightarrow>
         \<lparr>sr_world = w', sr_sleeps = [], sr_attempts = 1, sr_succeeded = 0, sr_failed = length samples\<rparr>
     | (Some (recoverableError _), w') \<Rightarrow>
         (let r = send_loop cfg store samples retries (next_backoff cfg backoff) w' in
          r\<lparr>sr_sleeps := backoff # sr_sleeps r, sr_attempts := Suc (sr_attempts r)\<rparr>))"

text \<open>The loop counts \<open>MaxRetries\<close> down to 1; it does not run at all for a bound below 1.\<close>

definition sendSamplesWithBackoff ::
  "QueueManagerConfig \<Rightarrow> 'w storage \<Rightarrow> Sample list \<Rightarrow> 'w \<Rightarrow> 'w send_result" where
  "sendSamplesWithBackoff cfg store samples w =
     send_loop cfg store samples (nat (MaxRetries cfg)) (MinBackoff cfg) w"

section \<open>Batching\<close>

text \<open>The inner loop of \<open>runShard\<close>: the batches it sends, in order, and the samples it keeps. It does not end when
  the batch size is 0 (\<open>None\<close>) and panics when it is negative.\<close>

partial_function (option) batch_loop ::
  "int \<Rightarrow> Sample list \<Rightarrow> (panic + Sample list list \<times> Sample list) option" where
  "batch_loop n pending =
    (if int (length pending) < n then Some (Inr ([], pending))
     else if n < 0 then Some (Inl SliceBounds)
     else Option.bind (batch_loop n (drop (nat n) pending)) (\<lambda>r. Some
       (case r of Inl p \<Rightarrow> Inl p | Inr (bs, rest) \<Rightarrow> Inr (take (nat n) pending # bs, rest))))"

lemma batch_loop_ends:
  assumes "0 < n"
  shows "\<exists>bs rest. batch_loop n pending = Some (Inr (bs, rest)) \<and> concat bs @ rest = pending \<and>
    int (length rest) < n \<and> list_all (\<lambda>b. int (length b) = n) bs"
proof (induction "length pending" arbitrary: pending rule: less_induct)
  case less
  show ?case
  proof (cases "int (length pending) < n")
    case True
    then show ?thesis
      by (simp add: batch_loop.simps [of n])
  next
    case False
    then have "length (drop (nat n) pending) < length pending"
      using assms by simp
    from less [OF this] obtain bs rest where "batch_loop n (drop (nat n) pending) = Some (Inr (bs, rest))"
        "concat bs @ rest = drop (nat n) pending" "int (length rest) < n" "list_all (\<lambda>b. int (length b) = n) bs"
      by blast
    then show ?thesis
      using False assms
      by (intro exI [of _ "take (nat n) pending # bs"] exI [of _ rest])
        (simp add: batch_loop.simps [of n pending])
  qed
qed

section \<open>Attempts and sleeps\<close>

text \<open>The results of successive calls of \<open>Store\<close> with the same batch, and the first that ends the loop.\<close>

fun nth_result :: "'w storage \<Rightarrow> Sample list \<Rightarrow> 'w \<Rightarrow> nat \<Rightarrow> store_error option" where
  "nth_result store samples w 0 = fst (store w samples)"
| "nth_result store samples w (Suc k) = nth_result store samples (snd (store w samples)) k"

definition recoverable :: "store_error option \<Rightarrow> bool" where
  "recoverable r = (case r of Some (recoverableError _) \<Rightarrow> True | _ \<Rightarrow> False)"

text \<open>The \<open>k\<close>-th sleep doubles the first one, up to the maximum.\<close>

definition backoff_at :: "QueueManagerConfig \<Rightarrow> nat \<Rightarrow> Duration" where
  "backoff_at cfg k = min (MinBackoff cfg * 2 ^ k) (MaxBackoff cfg)"

lemma next_backoff_at:
  assumes "0 \<le> MinBackoff cfg" "MinBackoff cfg \<le> MaxBackoff cfg" "MaxBackoff cfg < 2 ^ 62"
  shows "next_backoff cfg (backoff_at cfg k) = backoff_at cfg (Suc k)"
proof -
  have "0 \<le> backoff_at cfg k" "backoff_at cfg k \<le> MaxBackoff cfg"
    using assms by (simp_all add: backoff_at_def)
  then have "wrap64 (backoff_at cfg k * 2) = backoff_at cfg k * 2"
    using assms(3) by (intro wrap64_id) (simp add: int64_def)
  then show ?thesis
    using assms(1,2) by (auto simp: next_backoff_def backoff_at_def Let_def)
qed

lemma send_loop_spec:
  fixes store :: "'w storage"
  assumes "0 \<le> MinBackoff cfg" "MinBackoff cfg \<le> MaxBackoff cfg" "MaxBackoff cfg < 2 ^ 62"
    and "\<And>j. j < k \<Longrightarrow> recoverable (nth_result store samples w j)" "k \<le> n"
    and "k < n \<Longrightarrow> \<not> recoverable (nth_result store samples w k)"
    and "b = backoff_at cfg m"
  shows "let r = send_loop cfg store samples n b w in
    sr_sleeps r = map (\<lambda>j. backoff_at cfg (m + j)) [0..<k] \<and>
    sr_attempts r = (if k < n then Suc k else n) \<and>
    (if k < n \<and> nth_result store samples w k = None
     then sr_succeeded r = length samples \<and> sr_failed r = 0
     else sr_succeeded r = 0 \<and> sr_failed r = length samples)"
  using assms(4-7)
proof (induction n arbitrary: k b w m)
  case 0
  then show ?case by simp
next
  case (Suc n)
  obtain res w' where s: "store w samples = (res, w')"
    by (cases "store w samples")
  show ?case
  proof (cases k)
    case 0
    then show ?thesis
      using Suc.prems(3) s
      by (auto simp: recoverable_def split: option.splits store_error.splits)
  next
    case (Suc k')
    have "recoverable res"
      using Suc.prems(1) [of 0] s Suc by simp
    then obtain e where e: "res = Some (recoverableError e)"
      by (auto simp: recoverable_def split: option.splits store_error.splits)
    have "next_backoff cfg b = backoff_at cfg (Suc m)"
      using Suc.prems(4) next_backoff_at [OF assms(1-3)] by simp
    moreover have "recoverable (nth_result store samples w' j)" if "j < k'" for j
      using Suc.prems(1) [of "Suc j"] that s Suc by simp
    moreover have "k' < n \<Longrightarrow> \<not> recoverable (nth_result store samples w' k')"
      using Suc.prems(3) s Suc by simp
    moreover have "k' \<le> n"
      using Suc.prems(2) Suc by simp
    ultimately have "let r = send_loop cfg store samples n (next_backoff cfg b) w' in
        sr_sleeps r = map (\<lambda>j. backoff_at cfg (Suc m + j)) [0..<k'] \<and>
        sr_attempts r = (if k' < n then Suc k' else n) \<and>
        (if k' < n \<and> nth_result store samples w' k' = None
         then sr_succeeded r = length samples \<and> sr_failed r = 0
         else sr_succeeded r = 0 \<and> sr_failed r = length samples)"
      by (intro Suc.IH) auto
    then show ?thesis
      using s e Suc Suc.prems(4)
      by (simp add: Let_def upt_conv_Cons map_Suc_upt [symmetric] comp_def del: upt_Suc split: if_splits)
  qed
qed

lemma first_stop:
  "\<exists>k \<le> n. (\<forall>j < k. P j) \<and> (k < n \<longrightarrow> \<not> P k)" for n :: nat
proof (induction n)
  case (Suc n)
  then obtain k where "k \<le> n" "\<forall>j < k. P j" "k < n \<longrightarrow> \<not> P k"
    by blast
  then show ?case
    by (cases "k = n \<and> P n") (auto intro!: exI [of _ "if k = n \<and> P n then Suc n else k"] simp: less_Suc_eq)
qed simp

text \<open>C28. Sending a batch ends after at most \<open>MaxRetries\<close> calls of \<open>Store\<close>. With \<open>k\<close> the number of recoverable errors
  before the first other result, or \<open>MaxRetries\<close> if there are that many: the code sleeps exactly \<open>k\<close> times, the
  sleeps double from \<open>MinBackoff\<close> and never leave the configured range; the batch counts as sent if
  result \<open>k\<close> is a success, and otherwise all of it as failed.\<close>

theorem sendSamplesWithBackoff_outcome:
  fixes store :: "'w storage"
  assumes "0 \<le> MinBackoff cfg" "MinBackoff cfg \<le> MaxBackoff cfg" "MaxBackoff cfg < 2 ^ 62"
  shows "\<exists>k \<le> nat (MaxRetries cfg).
    (\<forall>j < k. recoverable (nth_result store samples w j)) \<and>
    (k < nat (MaxRetries cfg) \<longrightarrow> \<not> recoverable (nth_result store samples w k)) \<and>
    (let r = sendSamplesWithBackoff cfg store samples w in
     sr_sleeps r = map (\<lambda>j. min (MinBackoff cfg * 2 ^ j) (MaxBackoff cfg)) [0..<k] \<and>
     (\<forall>d \<in> set (sr_sleeps r). MinBackoff cfg \<le> d \<and> d \<le> MaxBackoff cfg) \<and>
     sr_attempts r = (if k < nat (MaxRetries cfg) then Suc k else nat (MaxRetries cfg)) \<and>
     (if k < nat (MaxRetries cfg) \<and> nth_result store samples w k = None
      then sr_succeeded r = length samples \<and> sr_failed r = 0
      else sr_succeeded r = 0 \<and> sr_failed r = length samples))"
proof -
  obtain k where k: "k \<le> nat (MaxRetries cfg)" "\<forall>j < k. recoverable (nth_result store samples w j)"
      "k < nat (MaxRetries cfg) \<longrightarrow> \<not> recoverable (nth_result store samples w k)"
    using first_stop [of "nat (MaxRetries cfg)" "\<lambda>j. recoverable (nth_result store samples w j)"] by blast
  have b: "MinBackoff cfg = backoff_at cfg 0"
    using assms(2) by (simp add: backoff_at_def)
  have "MinBackoff cfg \<le> min (MinBackoff cfg * 2 ^ j) (MaxBackoff cfg)" for j
    using assms(1,2) by (simp add: mult_le_cancel_left1)
  then have "\<forall>d \<in> set (map (\<lambda>j. min (MinBackoff cfg * 2 ^ j) (MaxBackoff cfg)) [0..<k]).
      MinBackoff cfg \<le> d \<and> d \<le> MaxBackoff cfg"
    by simp
  then show ?thesis
    using k send_loop_spec [OF assms _ k(1) _ b, of store samples w]
    unfolding sendSamplesWithBackoff_def Let_def backoff_at_def add_0
    by (intro exI [of _ k]) presburger
qed

theorem sendSamplesWithBackoff_outcome_witness:
  "sr_sleeps (sendSamplesWithBackoff defaultQueueManagerConfig
     (\<lambda>w _. (if w < 3 then Some (recoverableError ''503'') else None, Suc w)) [] 0) =
   [30000000, 60000000, 100000000]"
proof -
  let ?store = "\<lambda>w (_ :: Sample list). (if w < (3 :: nat) then Some (recoverableError ''503'') else None, Suc w)"
  have r: "nth_result ?store [] w j = (if w + j < 3 then Some (recoverableError ''503'') else None)" for w j
    by (induction ?store "[] :: Sample list" w j rule: nth_result.induct) simp_all
  have rec: "recoverable (nth_result ?store [] 0 j) \<longleftrightarrow> j < 3" for j
    by (simp add: r recoverable_def)
  have c: "MinBackoff defaultQueueManagerConfig = 30000000" "MaxBackoff defaultQueueManagerConfig = 100000000"
      "nat (MaxRetries defaultQueueManagerConfig) = 10"
    by (simp_all add: defaultQueueManagerConfig_def Millisecond_def)
  obtain k where k: "k \<le> 10" "\<forall>j < k. j < 3" "k < 10 \<longrightarrow> \<not> k < 3"
      "sr_sleeps (sendSamplesWithBackoff defaultQueueManagerConfig ?store [] 0) =
         map (\<lambda>j. min (30000000 * 2 ^ j) 100000000) [0..<k]"
    using sendSamplesWithBackoff_outcome [of defaultQueueManagerConfig ?store "[]" 0]
    unfolding c rec Let_def by (auto simp del: upt_Suc)
  have "\<not> 3 < k"
    using k(2) by auto
  then have "k = 3"
    using k(1,3) by auto
  then show ?thesis
    using k(4) by (simp add: upt_conv_Cons)
qed

end
