(* ===== verification/Queue_Manager.thy ===== *)
theory Queue_Manager
  imports Queue_Send
begin

text \<open>
  The sharded queue in front of a remote storage (\<open>src/storage/remote/queue_manager.go\<close>): \<open>newShards\<close>,
  \<open>enqueue\<close>, \<open>Append\<close>, the events of a shard's goroutine (\<open>runShard\<close>), and as a step relation the whole
  queue manager with its appenders, its shard goroutines, a resharding in progress and \<open>Stop\<close>, in every
  interleaving. A channel is the list of its buffered elements with a flag that it is closed.

  The invariant gives the promise of the component: of the accepted samples of a series none is lost,
  duplicated or reordered on the way to the storage client, also across a change of the number of
  shards.
\<close>

section \<open>Shards\<close>

datatype shard_status = NotStarted | Started | Returned

record shard =
  sh_queue :: "Sample list"
  sh_closed :: bool
  sh_pending :: "Sample list"
  sh_status :: shard_status

definition new_shard :: shard where
  "new_shard = \<lparr>sh_queue = [], sh_closed = False, sh_pending = [], sh_status = NotStarted\<rparr>"

text \<open>\<open>make\<close> panics for a negative number of channels, and for a negative capacity of a channel.\<close>

definition newShards :: "QueueManagerConfig \<Rightarrow> int \<Rightarrow> panic + shard list" where
  "newShards cfg numShards =
     (if numShards < 0 \<or> (0 < numShards \<and> QueueCapacity cfg < 0) then Inl MakeNegativeLength
      else Inr (replicate (nat numShards) new_shard))"

definition shards_start :: "shard list \<Rightarrow> shard list" where
  "shards_start ss = map (\<lambda>s. s\<lparr>sh_status := Started\<rparr>) ss"

definition series_of :: "Sample \<Rightarrow> Fingerprint" where
  "series_of s = labelset_FastFingerprint (s_Metric s)"

definition shard_index :: "nat \<Rightarrow> Fingerprint \<Rightarrow> nat" where
  "shard_index n fp = unat (fp mod of_nat n)"

text \<open>A send that does not block: it fails when the buffer is full and panics on a closed channel. The
  buffers are not empty by configuration; for the capacity 0 a send would need a waiting receiver.\<close>

definition enqueue :: "QueueManagerConfig \<Rightarrow> shard list \<Rightarrow> Sample \<Rightarrow> panic + shard list \<times> bool" where
  "enqueue cfg ss sample =
    (if ss = [] then Inl DivideByZero
     else let i = shard_index (length ss) (series_of sample); s = ss ! i in
       if sh_closed s then Inl SendOnClosedChannel
       else if int (length (sh_queue s)) < QueueCapacity cfg
         then Inr (ss[i := s\<lparr>sh_queue := sh_queue s @ [sample]\<rparr>], True)
       else Inr (ss, False))"

section \<open>Append\<close>

text \<open>The loop adds the external labels that the sample's own metric does not have.\<close>

fun add_external :: "LabelSet \<Rightarrow> LabelSet \<Rightarrow> LabelSet \<Rightarrow> LabelSet" where
  "add_external own acc [] = acc"
| "add_external own acc ((nm, lv) # ext) =
     add_external own (if gm_has own nm then acc else gm_put acc nm lv) ext"

text \<open>\<open>relabel.Process\<close> is a parameter; \<open>None\<close> is the nil metric that drops the sample.\<close>

definition append_sample ::
  "(LabelSet \<Rightarrow> LabelSet option) \<Rightarrow> LabelSet \<Rightarrow> Sample \<Rightarrow> Sample option" where
  "append_sample process externalLabels s =
    (case process (add_external (s_Metric s) (labelset_Clone (s_Metric s)) externalLabels) of
       None \<Rightarrow> None
     | Some m \<Rightarrow> Some (s\<lparr>s_Metric := m\<rparr>))"

definition qm_Append ::
  "QueueManagerConfig \<Rightarrow> (LabelSet \<Rightarrow> LabelSet option) \<Rightarrow> LabelSet \<Rightarrow> shard list \<Rightarrow> Sample \<Rightarrow>
   panic + shard list" where
  "qm_Append cfg process externalLabels ss s =
    (case append_sample process externalLabels s of
       None \<Rightarrow> Inr ss
     | Some snew \<Rightarrow> (case enqueue cfg ss snew of Inl p \<Rightarrow> Inl p | Inr (ss', _) \<Rightarrow> Inr ss'))"

section \<open>The goroutine of a shard\<close>

text \<open>One round of the loop of \<open>runShard\<close>: a sample is received, the closed and drained channel is seen, or the
  deadline has passed. The result is the shard with the batches it hands to \<open>sendSamples\<close>, in order; the
  option is \<open>None\<close> when the batching loop does not end.\<close>

definition shard_receive :: "QueueManagerConfig \<Rightarrow> shard \<Rightarrow> (panic + shard \<times> Sample list list) option" where
  "shard_receive cfg s = (case sh_queue s of
       [] \<Rightarrow> Some (Inr (s, []))
     | x # xs \<Rightarrow> (case batch_loop (MaxSamplesPerSend cfg) (sh_pending s @ [x]) of
          None \<Rightarrow> None
        | Some (Inl p) \<Rightarrow> Some (Inl p)
        | Some (Inr (bs, rest)) \<Rightarrow> Some (Inr (s\<lparr>sh_queue := xs, sh_pending := rest\<rparr>, bs))))"

definition flush :: "Sample list \<Rightarrow> Sample list list" where
  "flush pending = (if pending = [] then [] else [pending])"

definition shard_deadline :: "shard \<Rightarrow> shard \<times> Sample list list" where
  "shard_deadline s = (s\<lparr>sh_pending := []\<rparr>, flush (sh_pending s))"

definition shard_finish :: "shard \<Rightarrow> shard \<times> Sample list list" where
  "shard_finish s = (s\<lparr>sh_pending := [], sh_status := Returned\<rparr>, flush (sh_pending s))"

inductive shard_step :: "QueueManagerConfig \<Rightarrow> shard \<Rightarrow> shard \<Rightarrow> Sample list list \<Rightarrow> bool" for cfg where
  receive: "\<lbrakk>sh_status s = Started; sh_queue s \<noteq> []; shard_receive cfg s = Some (Inr (s', bs))\<rbrakk> \<Longrightarrow>
    shard_step cfg s s' bs"
| deadline: "\<lbrakk>sh_status s = Started; sh_pending s \<noteq> []; shard_deadline s = (s', bs)\<rbrakk> \<Longrightarrow> shard_step cfg s s' bs"
| finish: "\<lbrakk>sh_status s = Started; sh_queue s = []; sh_closed s; shard_finish s = (s', bs)\<rbrakk> \<Longrightarrow>
    shard_step cfg s s' bs"

inductive_cases shard_stepE: "shard_step cfg s s' bs"

section \<open>The queue manager\<close>

text \<open>\<open>qm_old\<close> are the shards that a running \<open>reshard\<close> stops; \<open>qm_sent\<close> are the batches handed to
  \<open>sendSamples\<close> so far, \<open>qm_accepted\<close> the samples that \<open>enqueue\<close> has accepted and \<open>qm_dropped\<close> those it
  refused. \<open>qm_stopping\<close> is set once \<open>Stop\<close> holds the lock.\<close>

record qmanager =
  qm_shards :: "shard list"
  qm_old :: "shard list option"
  qm_stopping :: bool
  qm_sent :: "Sample list list"
  qm_accepted :: "Sample list"
  qm_dropped :: "Sample list"

inductive qm_step :: "QueueManagerConfig \<Rightarrow> qmanager \<Rightarrow> qmanager \<Rightarrow> bool" for cfg where
  accept: "\<lbrakk>\<not> qm_stopping q; enqueue cfg (qm_shards q) x = Inr (ss, True)\<rbrakk> \<Longrightarrow>
    qm_step cfg q (q\<lparr>qm_shards := ss, qm_accepted := qm_accepted q @ [x]\<rparr>)"
| drop: "\<lbrakk>\<not> qm_stopping q; enqueue cfg (qm_shards q) x = Inr (ss, False)\<rbrakk> \<Longrightarrow>
    qm_step cfg q (q\<lparr>qm_shards := ss, qm_dropped := qm_dropped q @ [x]\<rparr>)"
| work: "\<lbrakk>i < length (qm_shards q); shard_step cfg (qm_shards q ! i) s bs\<rbrakk> \<Longrightarrow>
    qm_step cfg q (q\<lparr>qm_shards := (qm_shards q)[i := s], qm_sent := qm_sent q @ bs\<rparr>)"
| work_old: "\<lbrakk>qm_old q = Some old; i < length old; shard_step cfg (old ! i) s bs\<rbrakk> \<Longrightarrow>
    qm_step cfg q (q\<lparr>qm_old := Some (old[i := s]), qm_sent := qm_sent q @ bs\<rparr>)"
| reshard_begin: "\<lbrakk>\<not> qm_stopping q; qm_old q = None; int64 n; newShards cfg n = Inr ss\<rbrakk> \<Longrightarrow>
    qm_step cfg q (q\<lparr>qm_shards := ss, qm_old := Some (qm_shards q)\<rparr>)"
| close_old: "\<lbrakk>qm_old q = Some old; i < length old\<rbrakk> \<Longrightarrow>
    qm_step cfg q (q\<lparr>qm_old := Some (old[i := (old ! i)\<lparr>sh_closed := True\<rparr>])\<rparr>)"
| reshard_end: "\<lbrakk>qm_old q = Some old; list_all (\<lambda>s. sh_status s = Returned) old\<rbrakk> \<Longrightarrow>
    qm_step cfg q (q\<lparr>qm_old := None, qm_shards := shards_start (qm_shards q)\<rparr>)"
| stop_begin: "\<lbrakk>\<not> qm_stopping q; qm_old q = None\<rbrakk> \<Longrightarrow> qm_step cfg q (q\<lparr>qm_stopping := True\<rparr>)"
| stop_close: "\<lbrakk>qm_stopping q; i < length (qm_shards q)\<rbrakk> \<Longrightarrow>
    qm_step cfg q (q\<lparr>qm_shards := (qm_shards q)[i := (qm_shards q ! i)\<lparr>sh_closed := True\<rparr>]\<rparr>)"

inductive_cases qm_stepE: "qm_step cfg q q'"

text \<open>The state after \<open>NewQueueManager\<close> and \<open>Start\<close>: one started shard.\<close>

definition qm_start :: qmanager where
  "qm_start = \<lparr>qm_shards = shards_start [new_shard], qm_old = None, qm_stopping = False, qm_sent = [],
     qm_accepted = [], qm_dropped = []\<rparr>"

section \<open>Conservation in one shard\<close>

text \<open>What a shard holds, in the order in which it will send.\<close>

definition held :: "shard \<Rightarrow> Sample list" where
  "held s = sh_pending s @ sh_queue s"

lemma concat_flush [simp]: "concat (flush p) = p"
  by (simp add: flush_def)

lemma shard_receive_cases:
  assumes "shard_receive cfg s = Some (Inr (s', bs))" "sh_queue s \<noteq> []"
  obtains x xs rest where "sh_queue s = x # xs" "s' = s\<lparr>sh_queue := xs, sh_pending := rest\<rparr>"
    "batch_loop (MaxSamplesPerSend cfg) (sh_pending s @ [x]) = Some (Inr (bs, rest))"
  using assms by (cases "sh_queue s") (auto simp: shard_receive_def split: option.splits sum.splits)

lemma shard_step_conserves:
  assumes "shard_step cfg s s' bs" "0 < MaxSamplesPerSend cfg"
  shows "concat bs @ held s' = held s"
  using assms(1)
proof (cases rule: shard_step.cases)
  case receive
  from receive(3,2) obtain x xs rest where "sh_queue s = x # xs" "s' = s\<lparr>sh_queue := xs, sh_pending := rest\<rparr>"
      "batch_loop (MaxSamplesPerSend cfg) (sh_pending s @ [x]) = Some (Inr (bs, rest))"
    by (rule shard_receive_cases)
  then show ?thesis
    using batch_loop_ends [OF assms(2), of "sh_pending s @ [x]"] by (auto simp: held_def)
qed (auto simp: shard_deadline_def shard_finish_def held_def)

lemma shard_step_status:
  assumes "shard_step cfg s s' bs"
  shows "sh_status s = Started \<and> sh_closed s' = sh_closed s \<and> sh_status s' \<noteq> NotStarted \<and>
    (sh_status s' = Returned \<longrightarrow> sh_closed s' \<and> held s' = [])"
  using assms
proof (cases rule: shard_step.cases)
  case receive
  from receive(3,2) obtain x xs rest where "s' = s\<lparr>sh_queue := xs, sh_pending := rest\<rparr>"
    by (rule shard_receive_cases)
  then show ?thesis
    using receive(1) by simp
qed (auto simp: shard_deadline_def shard_finish_def held_def)

section \<open>The invariant\<close>

text \<open>Every sample a shard holds belongs there, and a goroutine that has not started or has returned holds no
  pending samples or nothing at all.\<close>

definition shard_ok :: "nat \<Rightarrow> nat \<Rightarrow> shard \<Rightarrow> bool" where
  "shard_ok n i s \<longleftrightarrow> (\<forall>x \<in> set (held s). shard_index n (series_of x) = i) \<and>
     (sh_status s = NotStarted \<longrightarrow> sh_pending s = [] \<and> \<not> sh_closed s) \<and>
     (sh_status s = Returned \<longrightarrow> sh_closed s \<and> held s = [])"

definition shards_ok :: "shard list \<Rightarrow> bool" where
  "shards_ok ss \<longleftrightarrow> length ss < 2 ^ 64 \<and> (\<forall>i < length ss. shard_ok (length ss) i (ss ! i))"

text \<open>What the shards hold of one series.\<close>

definition held_of :: "Fingerprint \<Rightarrow> shard list \<Rightarrow> Sample list" where
  "held_of fp ss = (if ss = [] then []
     else filter (\<lambda>x. series_of x = fp) (held (ss ! shard_index (length ss) fp)))"

definition of_series :: "Fingerprint \<Rightarrow> Sample list \<Rightarrow> Sample list" where
  "of_series fp xs = filter (\<lambda>x. series_of x = fp) xs"

definition old_shards :: "qmanager \<Rightarrow> shard list" where
  "old_shards q = (case qm_old q of Some ss \<Rightarrow> ss | None \<Rightarrow> [])"

definition qm_inv :: "qmanager \<Rightarrow> bool" where
  "qm_inv q \<longleftrightarrow> shards_ok (qm_shards q) \<and> shards_ok (old_shards q) \<and>
     list_all (\<lambda>s. sh_status s \<noteq> NotStarted) (old_shards q) \<and>
     list_all (\<lambda>s. (sh_status s = NotStarted) = (qm_old q \<noteq> None)) (qm_shards q) \<and>
     (\<not> qm_stopping q \<longrightarrow> list_all (\<lambda>s. \<not> sh_closed s) (qm_shards q)) \<and>
     (qm_stopping q \<longrightarrow> qm_old q = None) \<and>
     (\<forall>fp. of_series fp (qm_accepted q) =
        of_series fp (concat (qm_sent q)) @ held_of fp (old_shards q) @ held_of fp (qm_shards q))"

lemma of_series_append [simp]: "of_series fp (xs @ ys) = of_series fp xs @ of_series fp ys"
  by (simp add: of_series_def)

lemma of_series_Nil [simp]: "of_series fp [] = []"
  by (simp add: of_series_def)

lemma shard_index_less: "0 < n \<Longrightarrow> n < 2 ^ 64 \<Longrightarrow> shard_index n fp < n"
  by (simp add: shard_index_def unat_mod unat_of_nat)

text \<open>Updates of one shard.\<close>

lemma shards_ok_update:
  "shards_ok ss \<Longrightarrow> i < length ss \<Longrightarrow> shard_ok (length ss) i s \<Longrightarrow> shards_ok (ss[i := s])"
  by (auto simp: shards_ok_def nth_list_update)

lemma held_of_update_same:
  "i < length ss \<Longrightarrow> held s = held (ss ! i) \<Longrightarrow> held_of fp (ss[i := s]) = held_of fp ss"
  by (auto simp: held_of_def nth_list_update)

text \<open>A worker step moves samples from the front of what its shard holds to the sent batches.\<close>

lemma work_conserves:
  assumes "shards_ok ss" "i < length ss" "shard_step cfg (ss ! i) s bs" "0 < MaxSamplesPerSend cfg"
  shows "of_series fp (concat bs) @ held_of fp (ss[i := s]) = held_of fp ss"
    and "shards_ok (ss[i := s])"
proof -
  have c: "concat bs @ held s = held (ss ! i)"
    using shard_step_conserves [OF assms(3,4)] .
  have ok: "shard_ok (length ss) i (ss ! i)"
    using assms(1,2) by (simp add: shards_ok_def)
  then have mine: "\<forall>x \<in> set (concat bs @ held s). shard_index (length ss) (series_of x) = i"
    unfolding c by (simp add: shard_ok_def)
  show "of_series fp (concat bs) @ held_of fp (ss[i := s]) = held_of fp ss"
  proof (cases "shard_index (length ss) fp = i")
    case True
    then show ?thesis
      using assms(2) arg_cong [OF c, of "of_series fp"] by (auto simp: held_of_def of_series_def)
  next
    case False
    then have "of_series fp (concat bs) = []"
      using mine by (auto simp: of_series_def filter_empty_conv)
    then show ?thesis
      using False by (auto simp: held_of_def)
  qed
  show "shards_ok (ss[i := s])"
    using assms(1,2) mine shard_step_status [OF assms(3)]
    by (intro shards_ok_update) (auto simp: shard_ok_def)
qed

lemma enqueue_cases:
  assumes "enqueue cfg ss x = Inr (ss', b)"
  obtains "b" "ss \<noteq> []" "\<not> sh_closed (ss ! shard_index (length ss) (series_of x))"
      "ss' = ss[shard_index (length ss) (series_of x) :=
         (ss ! shard_index (length ss) (series_of x))\<lparr>sh_queue := sh_queue (ss ! shard_index (length ss) (series_of x)) @ [x]\<rparr>]"
    | "\<not> b" "ss' = ss"
  using assms by (auto simp: enqueue_def Let_def split: if_splits)

lemma enqueue_held:
  assumes "enqueue cfg ss x = Inr (ss', True)" "shards_ok ss"
  shows "held_of fp ss' = held_of fp ss @ of_series fp [x]"
proof -
  let ?i = "shard_index (length ss) (series_of x)"
  have ss: "ss \<noteq> []" "ss' = ss[?i := (ss ! ?i)\<lparr>sh_queue := sh_queue (ss ! ?i) @ [x]\<rparr>]"
    using enqueue_cases [OF assms(1)] by auto
  then have i: "?i < length ss"
    using assms(2) by (intro shard_index_less) (auto simp: shards_ok_def)
  then show ?thesis
    using ss by (auto simp: held_of_def held_def of_series_def nth_list_update)
qed

lemma enqueue_True:
  assumes "enqueue cfg ss x = Inr (ss', True)" "shards_ok ss"
  obtains i where "shard_index (length ss) (series_of x) = i" "i < length ss"
    "ss' = ss[i := (ss ! i)\<lparr>sh_queue := sh_queue (ss ! i) @ [x]\<rparr>]"
proof -
  obtain i where idx: "shard_index (length ss) (series_of x) = i"
    by blast
  have ss: "ss \<noteq> []" "ss' = ss[i := (ss ! i)\<lparr>sh_queue := sh_queue (ss ! i) @ [x]\<rparr>]"
    using enqueue_cases [OF assms(1)] idx by auto
  then have "i < length ss"
    using assms(2) shard_index_less [of "length ss" "series_of x"] idx by (simp add: shards_ok_def)
  then show ?thesis
    using that idx ss by blast
qed

lemma enqueue_ok:
  assumes "enqueue cfg ss x = Inr (ss', True)" "shards_ok ss" "list_all (\<lambda>s. sh_status s \<noteq> Returned) ss"
  shows "shards_ok ss'"
proof -
  obtain i where idx: "shard_index (length ss) (series_of x) = i" and i: "i < length ss"
      and ss: "ss' = ss[i := (ss ! i)\<lparr>sh_queue := sh_queue (ss ! i) @ [x]\<rparr>]"
    using enqueue_True [OF assms(1,2)] .
  then have ok: "shard_ok (length ss) i (ss ! i)" "sh_status (ss ! i) \<noteq> Returned"
    using assms(2,3) by (auto simp: shards_ok_def list_all_length)
  have "held ((ss ! i)\<lparr>sh_queue := sh_queue (ss ! i) @ [x]\<rparr>) = held (ss ! i) @ [x]"
    by (simp add: held_def)
  then have "shard_ok (length ss) i ((ss ! i)\<lparr>sh_queue := sh_queue (ss ! i) @ [x]\<rparr>)"
    using ok idx by (simp add: shard_ok_def)
  then show ?thesis
    unfolding ss using i assms(2) by (intro shards_ok_update)
qed

lemma newShards_ok:
  assumes "newShards cfg n = Inr ss" "int64 n"
  shows "shards_ok ss" "held_of fp ss = []" "list_all (\<lambda>s. sh_status s = NotStarted \<and> \<not> sh_closed s) ss"
proof -
  have ss: "ss = replicate (nat n) new_shard" "length ss < 2 ^ 64"
    using assms by (auto simp: newShards_def int64_def split: if_splits)
  then show "shards_ok ss" "list_all (\<lambda>s. sh_status s = NotStarted \<and> \<not> sh_closed s) ss"
    by (auto simp: shards_ok_def shard_ok_def new_shard_def held_def list_all_iff)
  show "held_of fp ss = []"
    using ss shard_index_less [of "length ss" fp] by (auto simp: held_of_def new_shard_def held_def)
qed

lemma shards_start_ok:
  assumes "shards_ok ss" "list_all (\<lambda>s. sh_status s = NotStarted) ss"
  shows "shards_ok (shards_start ss)" "held_of fp (shards_start ss) = held_of fp ss"
proof -
  show "shards_ok (shards_start ss)"
    using assms by (auto simp: shards_ok_def shards_start_def shard_ok_def held_def list_all_length)
  show "held_of fp (shards_start ss) = held_of fp ss"
    using assms(1) shard_index_less [of "length ss" fp]
    by (auto simp: held_of_def shards_start_def held_def shards_ok_def)
qed

lemma returned_held: "shards_ok ss \<Longrightarrow> list_all (\<lambda>s. sh_status s = Returned) ss \<Longrightarrow> held_of fp ss = []"
  using shard_index_less [of "length ss" fp]
  by (auto simp: held_of_def shards_ok_def shard_ok_def list_all_length)

lemma qm_invD:
  assumes "qm_inv q"
  shows "shards_ok (qm_shards q)" "shards_ok (old_shards q)"
    "list_all (\<lambda>s. sh_status s \<noteq> NotStarted) (old_shards q)"
    "list_all (\<lambda>s. (sh_status s = NotStarted) = (qm_old q \<noteq> None)) (qm_shards q)"
    "\<not> qm_stopping q \<Longrightarrow> list_all (\<lambda>s. \<not> sh_closed s) (qm_shards q)"
    "qm_stopping q \<Longrightarrow> qm_old q = None"
    "of_series fp (qm_accepted q) =
       of_series fp (concat (qm_sent q)) @ held_of fp (old_shards q) @ held_of fp (qm_shards q)"
  using assms by (simp_all add: qm_inv_def)

lemma not_closed_not_returned:
  "shards_ok ss \<Longrightarrow> list_all (\<lambda>s. \<not> sh_closed s) ss \<Longrightarrow> list_all (\<lambda>s. sh_status s \<noteq> Returned) ss"
  by (auto simp: shards_ok_def shard_ok_def list_all_length)

lemma close_shard:
  assumes "shards_ok ss" "i < length ss" "sh_status (ss ! i) \<noteq> NotStarted"
  shows "shards_ok (ss[i := (ss ! i)\<lparr>sh_closed := True\<rparr>])"
    and "held_of fp (ss[i := (ss ! i)\<lparr>sh_closed := True\<rparr>]) = held_of fp ss"
proof -
  show "shards_ok (ss[i := (ss ! i)\<lparr>sh_closed := True\<rparr>])"
    using assms by (intro shards_ok_update) (simp_all add: shards_ok_def shard_ok_def held_def)
  show "held_of fp (ss[i := (ss ! i)\<lparr>sh_closed := True\<rparr>]) = held_of fp ss"
    using assms(2) by (intro held_of_update_same) (simp_all add: held_def)
qed

lemma qm_inv_accept:
  assumes "qm_inv q" "\<not> qm_stopping q" "enqueue cfg (qm_shards q) x = Inr (ss, True)"
  shows "qm_inv (q\<lparr>qm_shards := ss, qm_accepted := qm_accepted q @ [x]\<rparr>)"
proof -
  note inv = qm_invD [OF assms(1)]
  have ok: "shards_ok ss"
    by (rule enqueue_ok [OF assms(3) inv(1)]) (rule not_closed_not_returned [OF inv(1) inv(5) [OF assms(2)]])
  have "list_all (\<lambda>s. (sh_status s = NotStarted) = (qm_old q \<noteq> None)) ss" "list_all (\<lambda>s. \<not> sh_closed s) ss"
  proof -
    obtain i where i: "i < length (qm_shards q)"
        and ss: "ss = (qm_shards q)[i := (qm_shards q ! i)\<lparr>sh_queue := sh_queue (qm_shards q ! i) @ [x]\<rparr>]"
      using enqueue_True [OF assms(3) inv(1)] by metis
    show "list_all (\<lambda>s. (sh_status s = NotStarted) = (qm_old q \<noteq> None)) ss"
      unfolding ss using inv(4) i by (intro list_all_update) (simp_all add: list_all_length)
    show "list_all (\<lambda>s. \<not> sh_closed s) ss"
      unfolding ss using inv(5) [OF assms(2)] i by (intro list_all_update) (simp_all add: list_all_length)
  qed
  then show ?thesis
    using inv(2,3,6,7) ok enqueue_held [OF assms(3) inv(1)] assms(2)
    by (simp add: qm_inv_def old_shards_def)
qed

lemma qm_inv_work:
  assumes "qm_inv q" "i < length (qm_shards q)" "shard_step cfg (qm_shards q ! i) s bs" "0 < MaxSamplesPerSend cfg"
  shows "qm_inv (q\<lparr>qm_shards := (qm_shards q)[i := s], qm_sent := qm_sent q @ bs\<rparr>)"
proof -
  note inv = qm_invD [OF assms(1)] and st = shard_step_status [OF assms(3)]
  have "qm_old q = None"
    using inv(4) st assms(2) by (auto simp: list_all_length)
  moreover have "list_all (\<lambda>s. (sh_status s = NotStarted) = (qm_old q \<noteq> None)) ((qm_shards q)[i := s])"
    using inv(4) st calculation by (intro list_all_update) auto
  moreover have "\<not> qm_stopping q \<Longrightarrow> list_all (\<lambda>s. \<not> sh_closed s) ((qm_shards q)[i := s])"
    using inv(5) st assms(2) by (intro list_all_update) (auto simp: list_all_length)
  ultimately show ?thesis
    using inv(7) work_conserves [OF inv(1) assms(2-4)]
    by (simp add: qm_inv_def old_shards_def held_of_def [of _ "[]"] shards_ok_def [of "[]"])
qed

lemma qm_inv_work_old:
  assumes "qm_inv q" "qm_old q = Some old" "i < length old" "shard_step cfg (old ! i) s bs" "0 < MaxSamplesPerSend cfg"
  shows "qm_inv (q\<lparr>qm_old := Some (old[i := s]), qm_sent := qm_sent q @ bs\<rparr>)"
proof -
  note inv = qm_invD [OF assms(1), unfolded old_shards_def assms(2) option.case]
  have "list_all (\<lambda>s. sh_status s \<noteq> NotStarted) (old[i := s])"
    using inv(3) shard_step_status [OF assms(4)] by (intro list_all_update) auto
  then show ?thesis
    using inv work_conserves [OF inv(2) assms(3-5)]
    by (simp add: qm_inv_def old_shards_def assms(2)) (metis append.assoc)
qed

lemma qm_step_inv:
  assumes "qm_step cfg q q'" "qm_inv q" "0 < MaxSamplesPerSend cfg"
  shows "qm_inv q'"
  using assms(1)
proof (cases rule: qm_step.cases)
  case (accept x ss)
  then show ?thesis
    using qm_inv_accept [OF assms(2)] by simp
next
  case (drop x ss)
  then show ?thesis
    using enqueue_cases [OF drop(3)] assms(2) by (auto simp: qm_inv_def old_shards_def)
next
  case (work i s bs)
  then show ?thesis
    using qm_inv_work [OF assms(2) _ _ assms(3)] by simp
next
  case (work_old old i s bs)
  then show ?thesis
    using qm_inv_work_old [OF assms(2) _ _ _ assms(3)] by simp
next
  case (reshard_begin n ss)
  note new = newShards_ok [OF reshard_begin(5,4)]
  have "list_all (\<lambda>s. sh_status s = NotStarted) ss" "list_all (\<lambda>s. \<not> sh_closed s) ss"
    using new(3) by (auto simp: list_all_iff)
  then show ?thesis
    using qm_invD [OF assms(2)] reshard_begin new(1,2)
    by (simp add: qm_inv_def old_shards_def held_of_def [of _ "[]"])
next
  case (close_old old i)
  note inv = qm_invD [OF assms(2), unfolded old_shards_def close_old(2) option.case]
  have "list_all (\<lambda>s. sh_status s \<noteq> NotStarted) (old[i := (old ! i)\<lparr>sh_closed := True\<rparr>])"
    using inv(3) close_old(3) by (intro list_all_update) (auto simp: list_all_length)
  moreover have "sh_status (old ! i) \<noteq> NotStarted"
    using inv(3) close_old(3) by (auto simp: list_all_length)
  ultimately show ?thesis
    using inv close_shard [OF inv(2) close_old(3)] by (auto simp: close_old qm_inv_def old_shards_def)
next
  case (reshard_end old)
  note inv = qm_invD [OF assms(2), unfolded old_shards_def reshard_end(2) option.case]
  have ns: "list_all (\<lambda>s. sh_status s = NotStarted) (qm_shards q)"
    using inv(4) by simp
  have "list_all (\<lambda>s. sh_status s \<noteq> NotStarted) (shards_start (qm_shards q))"
      "\<not> qm_stopping q \<Longrightarrow> list_all (\<lambda>s. \<not> sh_closed s) (shards_start (qm_shards q))"
    using inv(5) by (auto simp: shards_start_def list_all_iff)
  then show ?thesis
    using inv shards_start_ok [OF inv(1) ns] returned_held [OF inv(2) reshard_end(3)]
    by (simp add: reshard_end qm_inv_def old_shards_def held_of_def [of _ "[]"] shards_ok_def [of "[]"])
next
  case stop_begin
  then show ?thesis
    using assms(2) by (simp add: qm_inv_def old_shards_def)
next
  case (stop_close i)
  note inv = qm_invD [OF assms(2)]
  have "qm_old q = None"
    using inv(6) stop_close by simp
  moreover have st: "sh_status (qm_shards q ! i) \<noteq> NotStarted"
    using inv(4) stop_close(3) calculation by (auto simp: list_all_length)
  moreover have "list_all (\<lambda>s. (sh_status s = NotStarted) = (qm_old q \<noteq> None))
      ((qm_shards q)[i := (qm_shards q ! i)\<lparr>sh_closed := True\<rparr>])"
    using inv(4) calculation by (intro list_all_update) auto
  ultimately show ?thesis
    using inv(2,7) close_shard [OF inv(1) stop_close(3) st]
    by (simp add: stop_close qm_inv_def old_shards_def held_of_def [of _ "[]"])
qed

lemma qm_start_inv: "qm_inv qm_start"
  by (auto simp: qm_inv_def qm_start_def old_shards_def shards_ok_def shard_ok_def shards_start_def new_shard_def
      held_def held_of_def shard_index_def)

lemma qm_reachable_inv:
  assumes "(qm_step cfg)\<^sup>*\<^sup>* qm_start q" "0 < MaxSamplesPerSend cfg"
  shows "qm_inv q"
  using assms(1)
  by (induction rule: rtranclp_induct) (auto intro: qm_start_inv qm_step_inv [OF _ _ assms(2)])

section \<open>Delivery\<close>

text \<open>C1. In every reachable state, under every interleaving of appends, shard goroutines, resharding and
  stopping: what has been handed to the storage client of a series, followed by what the stopping and
  then the current shards still hold of it, is exactly what was accepted of it, in the order of
  acceptance. No accepted sample is lost, sent twice or overtaken.\<close>

theorem qm_series_in_order:
  assumes "0 < MaxSamplesPerSend cfg" "(qm_step cfg)\<^sup>*\<^sup>* qm_start q"
  shows "of_series fp (qm_accepted q) =
    of_series fp (concat (qm_sent q)) @ held_of fp (old_shards q) @ held_of fp (qm_shards q)"
  using qm_invD(7) [OF qm_reachable_inv [OF assms(2,1)]] .

lemma qm_flushed:
  assumes "qm_inv q" "qm_stopping q" "list_all (\<lambda>s. sh_status s = Returned) (qm_shards q)"
  shows "of_series fp (concat (qm_sent q)) = of_series fp (qm_accepted q)"
proof -
  note inv = qm_invD [OF assms(1)]
  have "old_shards q = []"
    using inv(6) assms(2) by (simp add: old_shards_def)
  then show ?thesis
    using inv(7) [of fp] returned_held [OF inv(1) assms(3)] by (simp add: held_of_def [of _ "[]"])
qed

text \<open>Once \<open>Stop\<close> has seen all goroutines return, every accepted sample has been handed to the storage client,
  for each series in the order of acceptance.\<close>

theorem qm_stop_flushes:
  assumes "0 < MaxSamplesPerSend cfg" "(qm_step cfg)\<^sup>*\<^sup>* qm_start q"
    and "qm_stopping q" "list_all (\<lambda>s. sh_status s = Returned) (qm_shards q)"
  shows "of_series fp (concat (qm_sent q)) = of_series fp (qm_accepted q)"
  using qm_flushed [OF qm_reachable_inv [OF assms(2,1)] assms(3,4)] .

section \<open>Sizes\<close>

definition sizes_ok :: "QueueManagerConfig \<Rightarrow> shard \<Rightarrow> bool" where
  "sizes_ok cfg s \<longleftrightarrow> int (length (sh_queue s)) \<le> QueueCapacity cfg \<and>
     int (length (sh_pending s)) < MaxSamplesPerSend cfg"

definition batch_ok :: "QueueManagerConfig \<Rightarrow> Sample list \<Rightarrow> bool" where
  "batch_ok cfg b \<longleftrightarrow> b \<noteq> [] \<and> int (length b) \<le> MaxSamplesPerSend cfg"

definition qm_sizes :: "QueueManagerConfig \<Rightarrow> qmanager \<Rightarrow> bool" where
  "qm_sizes cfg q \<longleftrightarrow> list_all (sizes_ok cfg) (qm_shards q) \<and> list_all (sizes_ok cfg) (old_shards q) \<and>
     list_all (batch_ok cfg) (qm_sent q)"

lemma shard_step_sizes:
  assumes "shard_step cfg s s' bs" "0 < MaxSamplesPerSend cfg" "sizes_ok cfg s"
  shows "sizes_ok cfg s' \<and> list_all (batch_ok cfg) bs"
  using assms(1)
proof (cases rule: shard_step.cases)
  case receive
  from receive(3,2) obtain x xs rest where "sh_queue s = x # xs" "s' = s\<lparr>sh_queue := xs, sh_pending := rest\<rparr>"
      "batch_loop (MaxSamplesPerSend cfg) (sh_pending s @ [x]) = Some (Inr (bs, rest))"
    by (rule shard_receive_cases)
  then show ?thesis
    using batch_loop_ends [OF assms(2), of "sh_pending s @ [x]"] assms(2,3)
    by (auto simp: sizes_ok_def batch_ok_def list_all_iff)
qed (use assms(2,3) in \<open>auto simp: shard_deadline_def shard_finish_def sizes_ok_def batch_ok_def flush_def\<close>)

lemma enqueue_sizes:
  assumes "enqueue cfg ss x = Inr (ss', True)" "list_all (sizes_ok cfg) ss"
  shows "list_all (sizes_ok cfg) ss'"
proof -
  obtain i where ss: "ss' = ss[i := (ss ! i)\<lparr>sh_queue := sh_queue (ss ! i) @ [x]\<rparr>]"
      "int (length (sh_queue (ss ! i))) < QueueCapacity cfg"
    using assms(1) by (auto simp: enqueue_def Let_def split: if_splits)
  show ?thesis
  proof (cases "i < length ss")
    case True
    then have "sizes_ok cfg ((ss ! i)\<lparr>sh_queue := sh_queue (ss ! i) @ [x]\<rparr>)"
      using assms(2) ss(2) by (simp add: list_all_length sizes_ok_def)
    then show ?thesis
      unfolding ss(1) by (rule list_all_update [OF assms(2)])
  next
    case False
    then show ?thesis
      using assms(2) ss(1) list_update_beyond [of ss i] by simp
  qed
qed

lemma close_sizes: "list_all (sizes_ok cfg) ss \<Longrightarrow> i < length ss \<Longrightarrow> list_all (sizes_ok cfg) (ss[i := (ss ! i)\<lparr>sh_closed := True\<rparr>])"
  by (rule list_all_update) (simp_all add: list_all_length sizes_ok_def)

lemma qm_step_sizes:
  assumes "qm_step cfg q q'" "0 < MaxSamplesPerSend cfg" "0 \<le> QueueCapacity cfg" "qm_sizes cfg q"
  shows "qm_sizes cfg q'"
  using assms(1)
proof (cases rule: qm_step.cases)
  case (accept x ss)
  then have "list_all (sizes_ok cfg) ss"
    using assms(4) enqueue_sizes [OF accept(3)] by (simp add: qm_sizes_def)
  then show ?thesis
    using assms(4) accept by (simp add: qm_sizes_def old_shards_def)
next
  case (drop x ss)
  then show ?thesis
    using enqueue_cases [OF drop(3)] assms(4) by (auto simp: qm_sizes_def old_shards_def)
next
  case (work i s bs)
  then have "sizes_ok cfg s \<and> list_all (batch_ok cfg) bs"
    using assms(2,4) by (intro shard_step_sizes) (auto simp: qm_sizes_def list_all_length)
  then show ?thesis
    using assms(4) work by (auto simp: qm_sizes_def old_shards_def intro!: list_all_update)
next
  case (work_old old i s bs)
  then have "sizes_ok cfg s \<and> list_all (batch_ok cfg) bs"
    using assms(2,4) by (intro shard_step_sizes) (auto simp: qm_sizes_def old_shards_def list_all_length)
  then show ?thesis
    using assms(4) work_old by (auto simp: qm_sizes_def old_shards_def intro!: list_all_update)
next
  case (reshard_begin n ss)
  then have "list_all (sizes_ok cfg) ss"
    using assms(2,3) by (auto simp: newShards_def new_shard_def sizes_ok_def list_all_iff split: if_splits)
  then show ?thesis
    using assms(4) reshard_begin by (simp add: qm_sizes_def old_shards_def)
next
  case (close_old old i)
  then show ?thesis
    using assms(4) by (simp add: qm_sizes_def old_shards_def close_sizes)
next
  case (reshard_end old)
  then show ?thesis
    using assms(4) by (auto simp: qm_sizes_def old_shards_def sizes_ok_def shards_start_def list_all_iff)
next
  case stop_begin
  then show ?thesis
    using assms(4) by (simp add: qm_sizes_def old_shards_def)
next
  case (stop_close i)
  then show ?thesis
    using assms(4) by (simp add: qm_sizes_def old_shards_def close_sizes)
qed

text \<open>In every reachable state no queue is longer than its capacity, no shard keeps a full batch back, and every
  batch handed to the storage client has at least one and at most \<open>MaxSamplesPerSend\<close> samples.\<close>

theorem qm_sizes_bounded:
  assumes "0 < MaxSamplesPerSend cfg" "0 \<le> QueueCapacity cfg" "(qm_step cfg)\<^sup>*\<^sup>* qm_start q"
  shows "list_all (\<lambda>s. int (length (sh_queue s)) \<le> QueueCapacity cfg \<and>
      int (length (sh_pending s)) < MaxSamplesPerSend cfg) (qm_shards q @ old_shards q) \<and>
    list_all (\<lambda>b. b \<noteq> [] \<and> int (length b) \<le> MaxSamplesPerSend cfg) (qm_sent q)"
proof -
  have "qm_sizes cfg q"
    using assms(3)
  proof (induction rule: rtranclp_induct)
    case base
    show ?case
      using assms(1,2)
      by (simp add: qm_sizes_def qm_start_def old_shards_def sizes_ok_def shards_start_def new_shard_def)
  next
    case (step q q')
    then show ?case
      using qm_step_sizes assms(1,2) by blast
  qed
  then show ?thesis
    by (simp add: qm_sizes_def sizes_ok_def [abs_def] batch_ok_def [abs_def])
qed

section \<open>Draining\<close>

text \<open>A step of one of the goroutines of a set of shards, and how much they still have to do.\<close>

definition work_step :: "QueueManagerConfig \<Rightarrow> shard list \<Rightarrow> shard list \<Rightarrow> bool" where
  "work_step cfg ss ss' \<longleftrightarrow> (\<exists>i s bs. i < length ss \<and> shard_step cfg (ss ! i) s bs \<and> ss' = ss[i := s])"

definition work_left :: "shard \<Rightarrow> nat" where
  "work_left s = (if sh_status s = Returned then 0 else 1) + 2 * length (sh_queue s) +
     (if sh_pending s = [] then 0 else 1)"

definition drain_measure :: "shard list \<Rightarrow> nat" where
  "drain_measure ss = sum_list (map work_left ss)"

lemma shard_step_less:
  assumes "shard_step cfg s s' bs"
  shows "work_left s' < work_left s"
  using assms
proof (cases rule: shard_step.cases)
  case receive
  from receive(3,2) obtain x xs rest where "sh_queue s = x # xs" "s' = s\<lparr>sh_queue := xs, sh_pending := rest\<rparr>"
    by (rule shard_receive_cases)
  then show ?thesis
    using receive(1) by (simp add: work_left_def)
qed (auto simp: shard_deadline_def shard_finish_def work_left_def)

lemma work_step_less:
  assumes "work_step cfg ss ss'"
  shows "drain_measure ss' < drain_measure ss"
proof -
  obtain i s bs where i: "i < length ss" "shard_step cfg (ss ! i) s bs" "ss' = ss[i := s]"
    using assms by (auto simp: work_step_def)
  have "work_left (ss ! i) \<le> sum_list (map work_left ss)"
    using i(1) elem_le_sum_list [of i "map work_left ss"] by simp
  then show ?thesis
    using i shard_step_less [OF i(2)] by (simp add: drain_measure_def map_update sum_list_update)
qed

lemma work_steps_bounded: "((work_step cfg) ^^ n) ss ss' \<Longrightarrow> n + drain_measure ss' \<le> drain_measure ss"
proof (induction n arbitrary: ss')
  case (Suc n)
  then obtain t where "((work_step cfg) ^^ n) ss t" "work_step cfg t ss'"
    by auto
  then show ?case
    using Suc.IH work_step_less by fastforce
qed simp

lemma shard_step_progress:
  assumes "sh_closed s" "sh_status s = Started" "0 < MaxSamplesPerSend cfg"
  shows "\<exists>s' bs. shard_step cfg s s' bs"
proof (cases "sh_queue s")
  case Nil
  then show ?thesis
    using assms shard_step.finish [of s] by (metis surj_pair)
next
  case (Cons x xs)
  show ?thesis
  proof -
    obtain bs rest where "batch_loop (MaxSamplesPerSend cfg) (sh_pending s @ [x]) = Some (Inr (bs, rest))"
      using batch_loop_ends [OF assms(3)] by blast
    then have "shard_receive cfg s = Some (Inr (s\<lparr>sh_queue := xs, sh_pending := rest\<rparr>, bs))"
      using Cons by (simp add: shard_receive_def)
    from shard_step.receive [OF assms(2) _ this] show ?thesis
      using Cons by auto
  qed
qed

definition stopped :: "shard list \<Rightarrow> bool" where
  "stopped ss \<longleftrightarrow> list_all (\<lambda>s. sh_closed s \<and> sh_status s \<noteq> NotStarted) ss"

lemma work_steps_stopped: "(work_step cfg)\<^sup>*\<^sup>* ss ss' \<Longrightarrow> stopped ss \<Longrightarrow> stopped ss'"
proof (induction rule: rtranclp_induct)
  case (step t u)
  then obtain i s bs where "i < length t" "shard_step cfg (t ! i) s bs" "u = t[i := s]"
    by (auto simp: work_step_def)
  then show ?case
    using step(3) [OF step(4)] shard_step_status [of cfg "t ! i" s bs] nth_mem [of i t]
    unfolding stopped_def by (simp only:) (rule list_all_update, auto simp: list_all_iff)
qed

lemma stuck_returned:
  assumes "stopped ss" "\<nexists>ss'. work_step cfg ss ss'" "0 < MaxSamplesPerSend cfg"
  shows "list_all (\<lambda>s. sh_status s = Returned) ss"
proof -
  have "sh_status s = Returned" if s: "s \<in> set ss" for s
  proof (rule ccontr)
    assume "sh_status s \<noteq> Returned"
    then have "sh_closed s" "sh_status s = Started"
      using s assms(1) by (cases "sh_status s"; auto simp: stopped_def list_all_iff)+
    then obtain t bs where "shard_step cfg s t bs"
      using shard_step_progress [OF _ _ assms(3)] by blast
    moreover obtain i where "i < length ss" "s = ss ! i"
      using s by (auto simp: in_set_conv_nth)
    ultimately have "work_step cfg ss (ss[i := t])"
      by (auto simp: work_step_def)
    then show False
      using assms(2) by blast
  qed
  then show ?thesis
    by (simp add: list_all_iff)
qed

text \<open>A run of the goroutines to their end exists.\<close>

lemma drain_run:
  assumes "stopped ss" "0 < MaxSamplesPerSend cfg"
  shows "\<exists>ss'. (work_step cfg)\<^sup>*\<^sup>* ss ss' \<and> list_all (\<lambda>s. sh_status s = Returned) ss'"
  using assms(1)
proof (induction "drain_measure ss" arbitrary: ss rule: less_induct)
  case less
  show ?case
  proof (cases "\<exists>t. work_step cfg ss t")
    case True
    then obtain t where t: "work_step cfg ss t"
      by blast
    moreover have "stopped t"
      using t less.prems work_steps_stopped [of cfg ss t] by blast
    ultimately obtain ss' where "(work_step cfg)\<^sup>*\<^sup>* t ss'" "list_all (\<lambda>s. sh_status s = Returned) ss'"
      using less.hyps work_step_less by blast
    then show ?thesis
      using t by (meson converse_rtranclp_into_rtranclp)
  next
    case False
    then show ?thesis
      using stuck_returned [OF less.prems _ assms(2)] by blast
  qed
qed


section \<open>A run\<close>

definition ex_cfg :: QueueManagerConfig where
  "ex_cfg = defaultQueueManagerConfig\<lparr>QueueCapacity := 2, MaxSamplesPerSend := 1\<rparr>"

definition ex_sample :: "int \<Rightarrow> Sample" where
  "ex_sample t = \<lparr>s_Metric = [], s_Value = F_Fin 1, s_Timestamp = t\<rparr>"

definition ex_shard :: "Sample list \<Rightarrow> bool \<Rightarrow> shard_status \<Rightarrow> shard" where
  "ex_shard xs c st = \<lparr>sh_queue = xs, sh_closed = c, sh_pending = [], sh_status = st\<rparr>"

definition ex_qm :: "shard list \<Rightarrow> bool \<Rightarrow> Sample list list \<Rightarrow> Sample list \<Rightarrow> qmanager" where
  "ex_qm ss stop sent acc = \<lparr>qm_shards = ss, qm_old = None, qm_stopping = stop, qm_sent = sent,
     qm_accepted = acc, qm_dropped = []\<rparr>"

lemma ex_cfg_simps [simp]: "QueueCapacity ex_cfg = 2" "MaxSamplesPerSend ex_cfg = 1"
  by (simp_all add: ex_cfg_def)

lemma shard_index_one [simp]: "shard_index (Suc 0) fp = 0"
  by (simp add: shard_index_def)

lemma ex_batch: "batch_loop 1 [x] = Some (Inr ([[x]], []))"
  by (simp add: batch_loop.simps [of 1])

lemma ex_start: "qm_start = ex_qm [ex_shard [] False Started] False [] []"
  by (simp add: qm_start_def ex_qm_def ex_shard_def shards_start_def new_shard_def)

lemma ex_run: "(qm_step ex_cfg)\<^sup>*\<^sup>* qm_start (ex_qm [ex_shard [] True Returned] True [[x], [y]] [x, y])"
proof -
  let ?S = "\<lambda>xs c st. [ex_shard xs c st]"
  have 1: "qm_step ex_cfg (ex_qm (?S [] False Started) False [] []) (ex_qm (?S [x] False Started) False [] [x])"
    using qm_step.accept [of "ex_qm (?S [] False Started) False [] []" ex_cfg x "?S [x] False Started"]
    by (simp add: ex_qm_def ex_shard_def enqueue_def)
  have 2: "qm_step ex_cfg (ex_qm (?S [x] False Started) False [] [x]) (ex_qm (?S [x, y] False Started) False [] [x, y])"
    using qm_step.accept [of "ex_qm (?S [x] False Started) False [] [x]" ex_cfg y "?S [x, y] False Started"]
    by (simp add: ex_qm_def ex_shard_def enqueue_def)
  have r: "shard_step ex_cfg (ex_shard (z # zs) c Started) (ex_shard zs c Started) [[z]]" for z zs c
    by (rule shard_step.receive) (simp_all add: ex_shard_def shard_receive_def ex_batch)
  have 3: "qm_step ex_cfg (ex_qm (?S [x, y] False Started) False [] [x, y]) (ex_qm (?S [y] False Started) False [[x]] [x, y])"
    using qm_step.work [of 0 "ex_qm (?S [x, y] False Started) False [] [x, y]" ex_cfg "ex_shard [y] False Started" "[[x]]"]
      r [of x "[y]" False] by (simp add: ex_qm_def)
  have 4: "qm_step ex_cfg (ex_qm (?S [y] False Started) False [[x]] [x, y]) (ex_qm (?S [y] False Started) True [[x]] [x, y])"
    using qm_step.stop_begin [of "ex_qm (?S [y] False Started) False [[x]] [x, y]" ex_cfg] by (simp add: ex_qm_def)
  have 5: "qm_step ex_cfg (ex_qm (?S [y] False Started) True [[x]] [x, y]) (ex_qm (?S [y] True Started) True [[x]] [x, y])"
    using qm_step.stop_close [of "ex_qm (?S [y] False Started) True [[x]] [x, y]" 0 ex_cfg]
    by (simp add: ex_qm_def ex_shard_def)
  have 6: "qm_step ex_cfg (ex_qm (?S [y] True Started) True [[x]] [x, y]) (ex_qm (?S [] True Started) True [[x], [y]] [x, y])"
    using qm_step.work [of 0 "ex_qm (?S [y] True Started) True [[x]] [x, y]" ex_cfg "ex_shard [] True Started" "[[y]]"]
      r [of y "[]" True] by (simp add: ex_qm_def)
  have "shard_step ex_cfg (ex_shard [] True Started) (ex_shard [] True Returned) []"
    by (rule shard_step.finish) (simp_all add: ex_shard_def shard_finish_def flush_def)
  then have 7: "qm_step ex_cfg (ex_qm (?S [] True Started) True [[x], [y]] [x, y])
      (ex_qm (?S [] True Returned) True [[x], [y]] [x, y])"
    using qm_step.work [of 0 "ex_qm (?S [] True Started) True [[x], [y]] [x, y]" ex_cfg "ex_shard [] True Returned" "[]"]
    by (simp add: ex_qm_def)
  show ?thesis
    unfolding ex_start using 1 2 3 4 5 6 7 by (meson converse_rtranclp_into_rtranclp rtranclp.rtrancl_refl)
qed

theorem qm_series_in_order_witness:
  "of_series (labelset_FastFingerprint []) (qm_accepted (ex_qm [ex_shard [] True Returned] True
      [[ex_sample 1], [ex_sample 2]] [ex_sample 1, ex_sample 2])) = [ex_sample 1, ex_sample 2]"
  using qm_series_in_order [OF _ ex_run [of "ex_sample 1" "ex_sample 2"], of "labelset_FastFingerprint []"]
  by (simp add: ex_qm_def ex_shard_def held_of_def held_def old_shards_def of_series_def series_of_def ex_sample_def)

theorem qm_stop_flushes_witness:
  "of_series (labelset_FastFingerprint []) (concat [[ex_sample 1], [ex_sample 2]]) =
   of_series (labelset_FastFingerprint []) [ex_sample 1, ex_sample 2]"
  using qm_stop_flushes [OF _ ex_run [of "ex_sample 1" "ex_sample 2"], of "labelset_FastFingerprint []"]
  by (simp add: ex_qm_def ex_shard_def)

theorem qm_sizes_bounded_witness:
  "int (length [ex_sample 1]) \<le> MaxSamplesPerSend ex_cfg"
  using qm_sizes_bounded [OF _ _ ex_run [of "ex_sample 1" "ex_sample 2"]] by (simp add: ex_qm_def)


section \<open>Append\<close>

lemma add_external_get:
  "gm_get (add_external own acc ext) = gm_get acc ++ (map_of (rev ext) |` {k. \<not> gm_has own k})"
proof (induction own acc ext rule: add_external.induct)
  case (2 own acc nm lv ext)
  then show ?case
    by (auto simp: gomap_simps map_add_def restrict_map_def fun_eq_iff split: option.splits)
qed (simp add: restrict_map_def)

lemma gm_ok_add_external: "gm_ok acc \<Longrightarrow> gm_ok (add_external own acc ext)"
  by (induction own acc ext rule: add_external.induct) auto

text \<open>\<open>Append\<close> before the queue: the relabelling sees the sample's own labels and, for the names the sample does
  not have, the external labels; value and time are kept, and a sample whose metric is dropped never
  reaches a queue and never panics.\<close>

theorem qm_Append_labels:
  assumes "gm_ok (s_Metric s)" "gm_ok external"
  shows "\<exists>m. gm_ok m \<and> gm_get m = gm_get external ++ gm_get (s_Metric s) \<and>
    qm_Append cfg process external ss s = (case process m of
       None \<Rightarrow> Inr ss
     | Some m' \<Rightarrow> map_sum id fst (enqueue cfg ss (s\<lparr>s_Metric := m'\<rparr>)))"
proof -
  let ?m = "add_external (s_Metric s) (labelset_Clone (s_Metric s)) external"
  have "gm_get ?m = gm_get external ++ gm_get (s_Metric s)"
    unfolding add_external_get gm_get_Clone [OF assms(1)] map_of_rev_ok [OF assms(2)]
    by (auto simp: map_add_def restrict_map_def gm_has_iff gm_get_def [of external] fun_eq_iff split: option.splits)
  then show ?thesis
    using gm_ok_add_external [of "labelset_Clone (s_Metric s)"]
    by (intro exI [of _ ?m])
      (auto simp: qm_Append_def append_sample_def split: option.splits sum.splits)
qed

theorem qm_Append_labels_witness:
  "\<exists>m. gm_get m ''job'' = Some ''own'' \<and> gm_get m ''dc'' = Some ''x'' \<and>
     qm_Append ex_cfg (\<lambda>m. None) [(''dc'', ''x''), (''job'', ''ext'')] []
       \<lparr>s_Metric = [(''job'', ''own'')], s_Value = F_NaN, s_Timestamp = 0\<rparr> = Inr []"
proof -
  let ?s = "\<lparr>s_Metric = [(''job'', ''own'')], s_Value = F_NaN, s_Timestamp = 0\<rparr>" and ?e = "[(''dc'', ''x''), (''job'', ''ext'')]"
  obtain m where m: "gm_get m = gm_get ?e ++ gm_get (s_Metric ?s)" "qm_Append ex_cfg (\<lambda>m. None) ?e [] ?s = Inr []"
    using qm_Append_labels [of ?s ?e ex_cfg "\<lambda>m. None" "[]"] by (auto simp: gm_ok_def)
  have "gm_get m ''job'' = Some ''own''" "gm_get m ''dc'' = Some ''x''"
    unfolding m(1) by (simp_all add: gm_get_def map_add_def)
  then show ?thesis
    using m(2) by blast
qed

section \<open>When an append panics\<close>

text \<open>While the queue manager is not being stopped, an append can only panic when it has no shards, and then it
  divides by zero; a resharding never makes it send on a closed channel.\<close>

theorem qm_append_panics_iff:
  assumes "0 < MaxSamplesPerSend cfg" "(qm_step cfg)\<^sup>*\<^sup>* qm_start q" "\<not> qm_stopping q"
  shows "enqueue cfg (qm_shards q) x = Inl p \<longleftrightarrow> qm_shards q = [] \<and> p = DivideByZero"
proof -
  note inv = qm_invD [OF qm_reachable_inv [OF assms(2,1)]]
  have "\<not> sh_closed (qm_shards q ! shard_index (length (qm_shards q)) (series_of x))" if "qm_shards q \<noteq> []"
    using that inv(1) inv(5) [OF assms(3)] shard_index_less [of "length (qm_shards q)" "series_of x"]
    by (simp add: list_all_length shards_ok_def)
  then show ?thesis
    by (auto simp: enqueue_def Let_def)
qed

theorem qm_append_panics_iff_witness:
  "\<exists>q. (qm_step ex_cfg)\<^sup>*\<^sup>* qm_start q \<and> enqueue ex_cfg (qm_shards q) (ex_sample 1) = Inl DivideByZero"
proof -
  let ?q = "qm_start\<lparr>qm_shards := [], qm_old := Some (qm_shards qm_start)\<rparr>"
  have "(qm_step ex_cfg)\<^sup>*\<^sup>* qm_start ?q"
    using qm_step.reshard_begin [of qm_start 0 ex_cfg "[]"]
    by (auto simp: qm_start_def newShards_def int64_def)
  then show ?thesis
    using qm_append_panics_iff [of ex_cfg ?q "ex_sample 1" DivideByZero] by (auto simp: qm_start_def)
qed

text \<open>After \<open>Stop\<close> has closed the queues, every append panics by sending on a closed channel: the writer must
  not be appended to any more.\<close>

theorem qm_append_after_stop:
  assumes "0 < MaxSamplesPerSend cfg" "(qm_step cfg)\<^sup>*\<^sup>* qm_start q"
    and "list_all sh_closed (qm_shards q)" "qm_shards q \<noteq> []"
  shows "enqueue cfg (qm_shards q) x = Inl SendOnClosedChannel"
  using qm_invD(1) [OF qm_reachable_inv [OF assms(2,1)]] assms(3,4)
    shard_index_less [of "length (qm_shards q)" "series_of x"]
  by (auto simp: enqueue_def Let_def list_all_length shards_ok_def)

theorem qm_append_after_stop_witness:
  "enqueue ex_cfg [ex_shard [] True Returned] (ex_sample 3) = Inl SendOnClosedChannel"
  using qm_append_after_stop [OF _ ex_run [of "ex_sample 1" "ex_sample 2"], of "ex_sample 3"]
  by (simp add: ex_qm_def ex_shard_def)

end
