(* ===== verification/Shard_Count.thy ===== *)
theory Shard_Count
  imports Queue_Manager
begin

text \<open>
  How many shards a queue gets: the moving averages of \<open>src/storage/remote/ewma.go\<close> and
  \<open>calculateDesiredShards\<close> of \<open>queue_manager.go\<close>, in \<open>float64\<close> arithmetic.

  The lemmas give the bounds of what is sent to the resharding goroutine. There is an upper bound and no lower
  one: the number of shards can become 0 or negative, and then the next append or the next
  resharding panics.
\<close>

section \<open>Moving averages\<close>

record ewmaRate =
  ew_newEvents :: int
  ew_alpha :: float64
  ew_interval :: Duration
  ew_lastRate :: float64
  ew_init :: bool

definition newEWMARate :: "float64 \<Rightarrow> Duration \<Rightarrow> ewmaRate" where
  "newEWMARate alpha interval =
     \<lparr>ew_newEvents = 0, ew_alpha = alpha, ew_interval = interval, ew_lastRate = f_zero, ew_init = False\<rparr>"

definition ewma_rate :: "ewmaRate \<Rightarrow> float64" where
  "ewma_rate r = ew_lastRate r"

text \<open>\<open>Duration.Seconds\<close>: the whole seconds and the remaining nanoseconds are converted separately.\<close>

definition duration_Seconds :: "Duration \<Rightarrow> float64" where
  "duration_Seconds d = f_add (f_of_int (go_div d Second)) (f_mul (f_of_int (go_mod d Second)) (f_lit (1 / 1000000000)))"

definition ewma_tick :: "ewmaRate \<Rightarrow> ewmaRate" where
  "ewma_tick r =
    (let newEvents = ew_newEvents r;
         instantRate = f_div (f_of_int newEvents) (duration_Seconds (ew_interval r));
         r' = r\<lparr>ew_newEvents := wrap64 (ew_newEvents r + wrap64 (- newEvents))\<rparr> in
     if ew_init r
     then r'\<lparr>ew_lastRate := f_add (ew_lastRate r) (f_mul (ew_alpha r) (f_sub instantRate (ew_lastRate r)))\<rparr>
     else r'\<lparr>ew_init := True, ew_lastRate := instantRate\<rparr>)"

definition ewma_incr :: "int \<Rightarrow> ewmaRate \<Rightarrow> ewmaRate" where
  "ewma_incr n r = r\<lparr>ew_newEvents := wrap64 (ew_newEvents r + n)\<rparr>"

section \<open>The number of shards\<close>

definition ewmaWeight :: float64 where
  "ewmaWeight = f_lit (2 / 10)"

definition shardUpdateDuration :: Duration where
  "shardUpdateDuration = 10 * Second"

text \<open>The part of a queue manager that the computation reads and changes.\<close>

record qm_counters =
  qc_cfg :: QueueManagerConfig
  qc_numShards :: int
  qc_samplesIn :: ewmaRate
  qc_samplesOut :: ewmaRate
  qc_samplesOutDuration :: ewmaRate
  qc_integralAccumulator :: float64

definition new_counters :: "QueueManagerConfig \<Rightarrow> qm_counters" where
  "new_counters cfg = \<lparr>qc_cfg = cfg, qc_numShards = 1,
     qc_samplesIn = newEWMARate ewmaWeight shardUpdateDuration,
     qc_samplesOut = newEWMARate ewmaWeight shardUpdateDuration,
     qc_samplesOutDuration = newEWMARate ewmaWeight shardUpdateDuration,
     qc_integralAccumulator = f_zero\<rparr>"

text \<open>The counters after the ticks and the update of the integral accumulator.\<close>

definition tick_counters :: "qm_counters \<Rightarrow> qm_counters" where
  "tick_counters t =
    (let i = ewma_tick (qc_samplesIn t); out = ewma_tick (qc_samplesOut t);
         d = ewma_tick (qc_samplesOutDuration t);
         samplesPending = f_sub (ewma_rate i) (ewma_rate out) in
     t\<lparr>qc_samplesIn := i, qc_samplesOut := out, qc_samplesOutDuration := d,
       qc_integralAccumulator := f_add (qc_integralAccumulator t) (f_mul samplesPending (f_lit (1 / 10)))\<rparr>)"

definition desired_shards :: "qm_counters \<Rightarrow> float64" where
  "desired_shards t =
    (let samplesIn = ewma_rate (qc_samplesIn t); samplesOut = ewma_rate (qc_samplesOut t);
         samplesPending = f_sub samplesIn samplesOut;
         timePerSample = f_div (ewma_rate (qc_samplesOutDuration t)) samplesOut in
     f_div (f_mul timePerSample (f_add (f_add samplesIn samplesPending) (qc_integralAccumulator t)))
       (f_of_int Second))"

text \<open>The result has the number that was sent on \<open>reshardChan\<close>, if any. \<open>ready\<close> says whether the resharding
  goroutine is receiving, \<open>conv\<close> is the conversion of a float outside the range of \<open>int\<close>, which
  the language leaves open. The constants \<open>1. - shardToleranceFraction\<close> and \<open>1. +
  shardToleranceFraction\<close> are computed exactly before they are rounded.\<close>

definition calculateDesiredShards ::
  "(float64 \<Rightarrow> int) \<Rightarrow> bool \<Rightarrow> qm_counters \<Rightarrow> qm_counters \<times> int option" where
  "calculateDesiredShards conv ready t0 =
    (let t = tick_counters t0 in
     if f_le (ewma_rate (qc_samplesOut t)) f_zero then (t, None)
     else
       let desiredShards = desired_shards t;
           lowerBound = f_mul (f_of_int (qc_numShards t)) (f_lit (7 / 10));
           upperBound = f_mul (f_of_int (qc_numShards t)) (f_lit (13 / 10)) in
       if f_le lowerBound desiredShards \<and> f_le desiredShards upperBound then (t, None)
       else
         let c = (case f_to_int64 (f_ceil desiredShards) of Some i \<Rightarrow> i | None \<Rightarrow> conv (f_ceil desiredShards));
             numShards = (if c > MaxShards (qc_cfg t) then MaxShards (qc_cfg t) else c) in
         if numShards = qc_numShards t then (t, None)
         else if ready then (t\<lparr>qc_numShards := numShards\<rparr>, Some numShards)
         else (t, None))"

lemmas shard_count_defs = calculateDesiredShards_def tick_counters_def Let_def

text \<open>What the computation does to the number of shards: a number is only sent to the resharding goroutine
  when that is ready, it differs from the current one, is at most \<open>MaxShards\<close> and becomes the current
  one; in every other case, so also while nothing has been sent yet or while the goroutine is
  resharding, the number stays.\<close>

theorem calculateDesiredShards_bounds:
  "case calculateDesiredShards conv ready t of
     (t', Some n) \<Rightarrow> ready \<and> n \<le> MaxShards (qc_cfg t) \<and> n \<noteq> qc_numShards t \<and> qc_numShards t' = n \<and> qc_cfg t' = qc_cfg t
   | (t', None) \<Rightarrow> qc_numShards t' = qc_numShards t \<and> qc_cfg t' = qc_cfg t"
  by (simp add: shard_count_defs split: if_splits)

section \<open>There is no lower bound\<close>

lemma f_round_ge:
  assumes "y \<le> x" "rnd y = y" "0 < y"
  shows "f_round x = F_Inf True \<or> (\<exists>r. f_round x = F_Fin r \<and> y \<le> r)"
  using rnd_mono [OF assms(1)] assms(2,3) by (auto simp: f_round_def Let_def)

lemma rnd_half: "rnd (1 / 2) = 1 / 2" "rnd 1 = 1"
  using rnd_dyadic [of 1 1] rnd_dyadic [of 1 0] by simp_all

lemma lower_bound_pos:
  assumes "0 < n"
  shows "\<exists>y > 0. f_mul (f_of_int n) (f_lit (7 / 10)) = F_Fin y \<or> f_mul (f_of_int n) (f_lit (7 / 10)) = F_Inf True"
proof -
  have "(1 :: rat) \<le> of_int n"
    using assms by simp
  from f_round_ge [OF this rnd_half(2)] have n: "f_of_int n = F_Inf True \<or> (\<exists>r. f_of_int n = F_Fin r \<and> 1 \<le> r)"
    by (simp add: f_of_int_def)
  have "f_btw 788129934789836 (f_lit (7 / 10)) 788129934789837"
    by (rule f_btw_lit) simp_all
  then obtain s where s: "f_lit (7 / 10) = F_Fin s" "1 / 2 \<le> s"
    by (auto simp: f_btw_def)
  show ?thesis
  proof (cases "f_of_int n = F_Inf True")
    case True
    then show ?thesis
      using s by (intro exI [of _ 1]) auto
  next
    case False
    then obtain r where r: "f_of_int n = F_Fin r" "1 \<le> r"
      using n by blast
    have "1 / 2 \<le> r * s"
      using r(2) s(2) mult_mono [of 1 r "1 / 2" s] by simp
    from f_round_ge [OF this rnd_half(1)] show ?thesis
      using r s by (auto intro: exI [of _ "1 :: rat"])
  qed
qed

text \<open>C39. A backlog that is sent off after a stall makes the prediction negative, and nothing keeps the number of
  shards positive: whenever the desired number is negative or zero, a ready queue manager with at least
  one shard reshards to at most 0 shards.\<close>

theorem calculateDesiredShards_nonpositive:
  assumes "ready" "0 < qc_numShards t" "0 \<le> MaxShards (qc_cfg t)"
    and "\<not> f_le (ewma_rate (qc_samplesOut (tick_counters t))) f_zero"
    and "desired_shards (tick_counters t) = F_Fin d" "d \<le> 0" "- (2 ^ 62) < d"
  shows "calculateDesiredShards conv ready t = ((tick_counters t)\<lparr>qc_numShards := \<lceil>d\<rceil>\<rparr>, Some \<lceil>d\<rceil>) \<and> \<lceil>d\<rceil> \<le> 0"
proof -
  have num: "qc_numShards (tick_counters t) = qc_numShards t" "qc_cfg (tick_counters t) = qc_cfg t"
    by (simp_all add: tick_counters_def Let_def)
  obtain y where y: "0 < y" "f_mul (f_of_int (qc_numShards t)) (f_lit (7 / 10)) = F_Fin y \<or>
      f_mul (f_of_int (qc_numShards t)) (f_lit (7 / 10)) = F_Inf True"
    using lower_bound_pos [OF assms(2)] by blast
  then have out: "\<not> f_le (f_mul (f_of_int (qc_numShards t)) (f_lit (7 / 10))) (F_Fin d)"
    using assms(6) by (auto simp: f_le_def)
  have c: "\<lceil>d\<rceil> \<le> 0" "- (2 ^ 62) \<le> \<lceil>d\<rceil>"
    using assms(6,7) by (simp, simp add: le_ceiling_iff)
  have "f_trunc (of_int \<lceil>d\<rceil>) = \<lceil>d\<rceil>"
    by (simp add: f_trunc_def)
  then have conv: "f_to_int64 (f_ceil (F_Fin d)) = Some \<lceil>d\<rceil>"
    using c by simp
  have "\<not> MaxShards (qc_cfg t) < \<lceil>d\<rceil>" "\<lceil>d\<rceil> \<noteq> qc_numShards t"
    using c assms(2,3) by linarith+
  then show ?thesis
    using assms(1,4,5) out c(1) conv num
    by (simp only: calculateDesiredShards_def Let_def) (simp del: f_to_int64.simps f_ceil.simps ceiling_le_zero)
qed

text \<open>A queue manager whose last samples were sent while no new ones came in.\<close>

definition ex_counters :: qm_counters where
  "ex_counters = (new_counters defaultQueueManagerConfig)\<lparr>
     qc_samplesOut := ewma_incr 10 (newEWMARate ewmaWeight shardUpdateDuration),
     qc_samplesOutDuration := ewma_incr (10 * Second) (newEWMARate ewmaWeight shardUpdateDuration),
     qc_integralAccumulator := f_lit (1 / 10)\<rparr>"

lemma f_round_int: "\<bar>i\<bar> < 2 ^ 53 \<Longrightarrow> f_round (of_int i) = F_Fin (of_int i)"
  using f_of_int_exact [of i] by (simp add: f_of_int_def)

lemma f_round_ints:
  "f_round 0 = F_Fin 0" "f_round 1 = F_Fin 1" "f_round (- 1) = F_Fin (- 1)" "f_round 10 = F_Fin 10"
  "f_round 1000000000 = F_Fin 1000000000" "f_round (- 1000000000) = F_Fin (- 1000000000)"
  "f_round 10000000000 = F_Fin 10000000000"
  using f_round_int [of 0] f_round_int [of 1] f_round_int [of "- 1"] f_round_int [of 10]
    f_round_int [of 1000000000] f_round_int [of "- 1000000000"] f_round_int [of 10000000000] by simp_all

lemma ex_seconds: "duration_Seconds shardUpdateDuration = F_Fin 10"
proof -
  have "go_div shardUpdateDuration Second = 10" "go_mod shardUpdateDuration Second = 0"
    by (simp_all add: shardUpdateDuration_def Second_def go_div_def go_mod_def signed_divide_int_def
        signed_modulo_int_def wrap64_def)
  moreover obtain z where "f_lit (1 / 1000000000) = F_Fin z"
    using f_btw_lit [of 0 "1 / 1000000000" 2000000] by (auto simp: f_btw_def)
  ultimately show ?thesis
    by (simp add: duration_Seconds_def f_of_int_def f_round_ints)
qed

lemma ex_tick: "ewma_rate (ewma_tick (ewma_incr n (newEWMARate ewmaWeight shardUpdateDuration))) =
    f_div (f_of_int (wrap64 n)) (F_Fin 10)"
  by (simp add: ewma_rate_def ewma_tick_def ewma_incr_def newEWMARate_def Let_def ex_seconds)

lemma ex_tick_zero: "ewma_rate (ewma_tick (newEWMARate ewmaWeight shardUpdateDuration)) = F_Fin 0"
  by (simp add: ewma_rate_def ewma_tick_def newEWMARate_def Let_def ex_seconds f_of_int_def f_round_ints)

lemma ex_rates:
  "ewma_rate (qc_samplesIn (tick_counters ex_counters)) = F_Fin 0"
  "ewma_rate (qc_samplesOut (tick_counters ex_counters)) = F_Fin 1"
  "ewma_rate (qc_samplesOutDuration (tick_counters ex_counters)) = F_Fin 1000000000"
  by (simp_all add: tick_counters_def ex_counters_def new_counters_def Let_def ex_tick ex_tick_zero Second_def
      wrap64_def f_of_int_def f_round_ints)

lemma ex_integral: "qc_integralAccumulator (tick_counters ex_counters) = F_Fin 0"
proof -
  obtain z where z: "f_lit (1 / 10) = F_Fin z" "rnd z = z" "0 \<le> z" "z \<le> 1"
  proof -
    have "f_lit (1 / 10) = F_Fin (rnd (1 / 10))"
      using f_btw_lit [of 112589990684262 "1 / 10" 112589990684263]
      by (auto simp: f_btw_def f_lit_def f_round_def Let_def split: if_splits)
    moreover have "rnd (1 / 10) = of_int 7205759403792794 * 2 powi (- 4 - 52)"
      by (rule rnd_eqI) (simp_all add: power_int_def power_divide)
    moreover have "rnd (of_int 7205759403792794 / 2 ^ 56) = of_int 7205759403792794 / 2 ^ 56"
      by (rule rnd_dyadic) simp_all
    moreover have "(of_int 7205759403792794 :: rat) * 2 powi (- 4 - 52) = of_int 7205759403792794 / 2 ^ 56"
      by (simp add: power_int_def power_divide)
    ultimately have "f_lit (1 / 10) = F_Fin (of_int 7205759403792794 / 2 ^ 56)"
        "rnd (of_int 7205759403792794 / 2 ^ 56) = of_int 7205759403792794 / 2 ^ 56"
      by metis+
    then show ?thesis
      by (rule that) simp_all
  qed
  have "rnd (- z) = - z"
    using z(2,3) by (cases "z = 0") (auto simp: rnd_def)
  then have "f_round (- z) = F_Fin (- z)"
    using z(3,4) by (auto simp: f_round_def Let_def)
  then show ?thesis
    using ex_rates(1,2) z(1)
    by (simp add: tick_counters_def ex_counters_def new_counters_def Let_def f_sub_def f_round_ints)
qed

theorem calculateDesiredShards_nonpositive_witness:
  "snd (calculateDesiredShards (\<lambda>_. 0) True ex_counters) = Some (- 1) \<and>
   newShards defaultQueueManagerConfig (- 1) = Inl MakeNegativeLength"
proof -
  have "desired_shards (tick_counters ex_counters) = F_Fin (- 1)"
    by (simp add: desired_shards_def Let_def ex_rates ex_integral f_sub_def f_round_ints f_of_int_def Second_def)
  moreover have "0 < qc_numShards ex_counters" "0 \<le> MaxShards (qc_cfg ex_counters)"
    by (simp_all add: ex_counters_def new_counters_def defaultQueueManagerConfig_def)
  moreover have "\<lceil>- 1 :: rat\<rceil> = - 1"
    by (simp add: ceiling_def)
  ultimately show ?thesis
    using calculateDesiredShards_nonpositive [of True ex_counters "- 1" "\<lambda>_. 0"]
    by (simp add: ex_rates f_zero_def newShards_def)
qed

end
