(* ===== verification/Shard_Loop.thy ===== *)
theory Shard_Loop
  imports Shard_Count
begin

text \<open>
  The queue manager as a whole (\<open>src/storage/remote/queue_manager.go\<close>): the sharded queue of \<open>Queue_Manager\<close> and the
  counters of \<open>Shard_Count\<close> run together, joined by the goroutines \<open>updateShardsLoop\<close> and \<open>reshardLoop\<close>, the
  unbuffered channel between them, \<open>Stop\<close> and the panics that end the process.

  The composition refines the queue of \<open>Queue_Manager\<close>, so what is proved there of the order and the completeness
  of delivery holds of it; the field \<open>numShards\<close> is the number of shards or the number asked for; the process can only
  panic in three ways; and \<open>Stop\<close> can always finish when no negative number of shards was asked for.
\<close>

section \<open>The model\<close>

text \<open>What \<open>enqueue\<close> and \<open>sendSamples\<close> do to the counters; the duration is the time the sending took.\<close>

definition enqueue_count :: "qm_counters \<Rightarrow> qm_counters" where
  "enqueue_count c = c\<lparr>qc_samplesIn := ewma_incr 1 (qc_samplesIn c)\<rparr>"

definition sendSamples_count :: "Sample list \<Rightarrow> Duration \<Rightarrow> qm_counters \<Rightarrow> qm_counters" where
  "sendSamples_count samples took c =
     c\<lparr>qc_samplesOut := ewma_incr (int (length samples)) (qc_samplesOut c),
       qc_samplesOutDuration := ewma_incr took (qc_samplesOutDuration c)\<rparr>"

definition count_batches :: "Sample list list \<Rightarrow> Duration list \<Rightarrow> qm_counters \<Rightarrow> qm_counters" where
  "count_batches bs ds c = fold (\<lambda>(b, d). sendSamples_count b d) (zip bs ds) c"

text \<open>A remote storage never asks for throttling, it drops samples instead.\<close>

definition qm_NeedsThrottling :: "qmanager \<Rightarrow> bool" where
  "qm_NeedsThrottling q = False"

definition shards_len :: "shard list \<Rightarrow> int" where
  "shards_len ss = int (length ss)"

text \<open>Where \<open>reshardLoop\<close> is: waiting, holding a received number, waiting for the old shards, returned.\<close>

datatype resharder = Idle | Received int | Stopping_Old | Loop_Returned

record shard_system =
  sy_queue :: qmanager
  sy_counters :: qm_counters
  sy_quit :: bool
  sy_updating :: bool
  sy_resharder :: resharder
  sy_panic :: "panic option"

definition all_returned :: "shard list \<Rightarrow> bool" where
  "all_returned ss \<longleftrightarrow> list_all (\<lambda>s. sh_status s = Returned) ss"

definition close_shard_of :: "shard list \<Rightarrow> nat \<Rightarrow> shard list" where
  "close_shard_of ss i = ss[i := (ss ! i)\<lparr>sh_closed := True\<rparr>]"

text \<open>The select in \<open>calculateDesiredShards\<close> sends when \<open>reshardLoop\<close> is waiting in its receive, which it need not
  yet be when it is \<open>Idle\<close>. \<open>Append\<close> and \<open>Stop\<close> exclude each other by a mutex; an append after \<open>Stop\<close> has
  returned runs into the closed channels.\<close>

inductive sys_step :: "(float64 \<Rightarrow> int) \<Rightarrow> QueueManagerConfig \<Rightarrow> shard_system \<Rightarrow> shard_system \<Rightarrow> bool"
  for conv cfg where
  append: "\<lbrakk>sy_panic s = None; sy_queue s = q; \<not> qm_stopping q; enqueue cfg (qm_shards q) x = Inr (ss, ok)\<rbrakk> \<Longrightarrow>
    sys_step conv cfg s (s\<lparr>sy_counters := enqueue_count (sy_counters s),
      sy_queue := (if ok then q\<lparr>qm_shards := ss, qm_accepted := qm_accepted q @ [x]\<rparr>
                   else q\<lparr>qm_shards := ss, qm_dropped := qm_dropped q @ [x]\<rparr>)\<rparr>)"
| append_panic: "\<lbrakk>sy_panic s = None; sy_queue s = q; \<not> qm_stopping q \<or> all_returned (qm_shards q);
      enqueue cfg (qm_shards q) x = Inl p\<rbrakk> \<Longrightarrow>
    sys_step conv cfg s (s\<lparr>sy_counters := enqueue_count (sy_counters s), sy_panic := Some p\<rparr>)"
| work: "\<lbrakk>sy_panic s = None; sy_queue s = q; i < length (qm_shards q);
      shard_step cfg (qm_shards q ! i) sh bs; length ds = length bs\<rbrakk> \<Longrightarrow>
    sys_step conv cfg s (s\<lparr>sy_counters := count_batches bs ds (sy_counters s),
      sy_queue := q\<lparr>qm_shards := (qm_shards q)[i := sh], qm_sent := qm_sent q @ bs\<rparr>\<rparr>)"
| work_old: "\<lbrakk>sy_panic s = None; sy_queue s = q; qm_old q = Some old; i < length old;
      shard_step cfg (old ! i) sh bs; length ds = length bs\<rbrakk> \<Longrightarrow>
    sys_step conv cfg s (s\<lparr>sy_counters := count_batches bs ds (sy_counters s),
      sy_queue := q\<lparr>qm_old := Some (old[i := sh]), qm_sent := qm_sent q @ bs\<rparr>\<rparr>)"
| tick: "\<lbrakk>sy_panic s = None; sy_updating s; ready \<longrightarrow> sy_resharder s = Idle;
      calculateDesiredShards conv ready (sy_counters s) = (c, req)\<rbrakk> \<Longrightarrow>
    sys_step conv cfg s (s\<lparr>sy_counters := c,
      sy_resharder := (case req of Some n \<Rightarrow> Received n | None \<Rightarrow> sy_resharder s)\<rparr>)"
| reshard_begin: "\<lbrakk>sy_panic s = None; sy_queue s = q; sy_resharder s = Received n; newShards cfg n = Inr ss\<rbrakk> \<Longrightarrow>
    sys_step conv cfg s (s\<lparr>sy_queue := q\<lparr>qm_shards := ss, qm_old := Some (qm_shards q)\<rparr>,
      sy_resharder := Stopping_Old\<rparr>)"
| reshard_panic: "\<lbrakk>sy_panic s = None; sy_resharder s = Received n; newShards cfg n = Inl p\<rbrakk> \<Longrightarrow>
    sys_step conv cfg s (s\<lparr>sy_panic := Some p\<rparr>)"
| close_old: "\<lbrakk>sy_panic s = None; sy_queue s = q; qm_old q = Some old; i < length old; \<not> sh_closed (old ! i)\<rbrakk> \<Longrightarrow>
    sys_step conv cfg s (s\<lparr>sy_queue := q\<lparr>qm_old := Some (close_shard_of old i)\<rparr>\<rparr>)"
| reshard_end: "\<lbrakk>sy_panic s = None; sy_queue s = q; sy_resharder s = Stopping_Old; qm_old q = Some old; all_returned old\<rbrakk> \<Longrightarrow>
    sys_step conv cfg s (s\<lparr>sy_queue := q\<lparr>qm_old := None, qm_shards := shards_start (qm_shards q)\<rparr>,
      sy_resharder := Idle\<rparr>)"
| quit: "\<lbrakk>sy_panic s = None; \<not> sy_quit s\<rbrakk> \<Longrightarrow> sys_step conv cfg s (s\<lparr>sy_quit := True\<rparr>)"
| update_return: "\<lbrakk>sy_panic s = None; sy_quit s; sy_updating s\<rbrakk> \<Longrightarrow>
    sys_step conv cfg s (s\<lparr>sy_updating := False\<rparr>)"
| reshard_return: "\<lbrakk>sy_panic s = None; sy_quit s; sy_resharder s = Idle\<rbrakk> \<Longrightarrow>
    sys_step conv cfg s (s\<lparr>sy_resharder := Loop_Returned\<rparr>)"
| stop_begin: "\<lbrakk>sy_panic s = None; sy_queue s = q; sy_quit s; \<not> sy_updating s; sy_resharder s = Loop_Returned;
      \<not> qm_stopping q\<rbrakk> \<Longrightarrow>
    sys_step conv cfg s (s\<lparr>sy_queue := q\<lparr>qm_stopping := True\<rparr>\<rparr>)"
| stop_close: "\<lbrakk>sy_panic s = None; sy_queue s = q; qm_stopping q; i < length (qm_shards q); \<not> sh_closed (qm_shards q ! i)\<rbrakk> \<Longrightarrow>
    sys_step conv cfg s (s\<lparr>sy_queue := q\<lparr>qm_shards := close_shard_of (qm_shards q) i\<rparr>\<rparr>)"

definition sys_start :: "QueueManagerConfig \<Rightarrow> shard_system" where
  "sys_start cfg = \<lparr>sy_queue = qm_start, sy_counters = new_counters cfg, sy_quit = False, sy_updating = True,
     sy_resharder = Idle, sy_panic = None\<rparr>"

section \<open>The invariant\<close>

text \<open>The number of shards and the goroutines: \<open>numShards\<close> is the number of shards, or, until it is taken up, the number
  that was asked for.\<close>

definition loop_inv :: "QueueManagerConfig \<Rightarrow> shard_system \<Rightarrow> bool" where
  "loop_inv cfg s \<longleftrightarrow> qc_cfg (sy_counters s) = cfg \<and> int64 (qc_numShards (sy_counters s)) \<and>
     qc_numShards (sy_counters s) \<le> max 1 (MaxShards cfg) \<and>
     (qm_old (sy_queue s) \<noteq> None \<longleftrightarrow> sy_resharder s = Stopping_Old) \<and>
     (qm_stopping (sy_queue s) \<longrightarrow> sy_resharder s = Loop_Returned \<and> \<not> sy_updating s \<and> sy_quit s) \<and>
     (case sy_resharder s of
        Received n \<Rightarrow> qc_numShards (sy_counters s) = n \<and> shards_len (qm_shards (sy_queue s)) \<le> max 1 (MaxShards cfg)
      | _ \<Rightarrow> qc_numShards (sy_counters s) = shards_len (qm_shards (sy_queue s)))"

lemma shards_len_simps [simp]:
  "shards_len (ss[i := sh]) = shards_len ss" "shards_len (shards_start ss) = shards_len ss"
  "shards_len (close_shard_of ss i) = shards_len ss"
  by (simp_all add: shards_len_def shards_start_def close_shard_of_def)

lemma count_simps [simp]:
  "qc_cfg (enqueue_count c) = qc_cfg c" "qc_numShards (enqueue_count c) = qc_numShards c"
  "qc_cfg (count_batches bs ds c) = qc_cfg c" "qc_numShards (count_batches bs ds c) = qc_numShards c"
proof -
  have "qc_cfg (fold (\<lambda>(b, d). sendSamples_count b d) xs c) = qc_cfg c \<and>
      qc_numShards (fold (\<lambda>(b, d). sendSamples_count b d) xs c) = qc_numShards c" for xs
    by (induction xs arbitrary: c) (auto simp: sendSamples_count_def)
  then show "qc_cfg (count_batches bs ds c) = qc_cfg c" "qc_numShards (count_batches bs ds c) = qc_numShards c"
    by (simp_all add: count_batches_def)
qed (simp_all add: enqueue_count_def)

lemma enqueue_len: "enqueue cfg ss x = Inr (ss', ok) \<Longrightarrow> shards_len ss' = shards_len ss"
  by (auto simp: enqueue_def Let_def shards_len_def split: if_splits)

lemma newShards_len: "newShards cfg n = Inr ss \<Longrightarrow> shards_len ss = n"
  by (auto simp: newShards_def shards_len_def split: if_splits)

text \<open>What a tick does to the number of shards.\<close>

lemma desired_cases:
  assumes "calculateDesiredShards conv ready t = (t', req)" "\<And>x. int64 (conv x)" "int64 (MaxShards (qc_cfg t))"
  shows "qc_cfg t' = qc_cfg t" "req = None \<Longrightarrow> qc_numShards t' = qc_numShards t"
    "req = Some n \<Longrightarrow> ready \<and> qc_numShards t' = n \<and> n \<le> MaxShards (qc_cfg t) \<and> int64 n"
proof -
  have i64: "int64 i" if "f_to_int64 x = Some i" for x i
    using that by (cases x) (auto simp: int64_def Let_def split: if_splits)
  have "int64 (case f_to_int64 x of Some i \<Rightarrow> i | None \<Rightarrow> conv x)" for x
    using i64 assms(2) by (auto split: option.split)
  then show "qc_cfg t' = qc_cfg t" "req = None \<Longrightarrow> qc_numShards t' = qc_numShards t"
    "req = Some n \<Longrightarrow> ready \<and> qc_numShards t' = n \<and> n \<le> MaxShards (qc_cfg t) \<and> int64 n"
    using assms(1,3) by (auto simp: shard_count_defs simp del: f_to_int64.simps f_ceil.simps split: if_splits)
qed

lemma loop_inv_start: "loop_inv cfg (sys_start cfg)"
  by (simp add: loop_inv_def sys_start_def new_counters_def qm_start_def shards_len_def int64_def shards_start_def)

lemma loop_inv_same:
  assumes "loop_inv cfg s" "sy_resharder t = sy_resharder s" "sy_updating t = sy_updating s" "sy_quit t = sy_quit s"
    and "qm_old (sy_queue t) = None \<longleftrightarrow> qm_old (sy_queue s) = None"
    and "qm_stopping (sy_queue t) = qm_stopping (sy_queue s)"
    and "shards_len (qm_shards (sy_queue t)) = shards_len (qm_shards (sy_queue s))"
    and "qc_cfg (sy_counters t) = qc_cfg (sy_counters s)" "qc_numShards (sy_counters t) = qc_numShards (sy_counters s)"
  shows "loop_inv cfg t"
  using assms by (auto simp: loop_inv_def split: resharder.splits)

lemma loop_inv_step:
  assumes "sys_step conv cfg s t" "loop_inv cfg s" "\<And>x. int64 (conv x)" "int64 (MaxShards cfg)"
  shows "loop_inv cfg t"
  using assms(1)
proof (cases rule: sys_step.cases)
  case (append q x ss ok)
  then show ?thesis
    using enqueue_len [of cfg "qm_shards q" x ss ok] by (intro loop_inv_same [OF assms(2)]) (cases ok; simp)+
next
  case (tick ready c req)
  note d = desired_cases [OF tick(5) assms(3)]
  show ?thesis
  proof (cases req)
    case None
    then show ?thesis
      using tick d(1,2) assms(2,4) by (intro loop_inv_same [OF assms(2)]) (auto simp: loop_inv_def)
  next
    case (Some n)
    then show ?thesis
      using tick d(1,3) assms(2,4) by (auto simp: loop_inv_def)
  qed
next
  case (reshard_begin q n ss)
  then show ?thesis
    using assms(2) newShards_len [of cfg n ss] by (auto simp: loop_inv_def)
next
  case (reshard_end q old)
  then show ?thesis
    using assms(2) by (auto simp: loop_inv_def)
next
  case update_return
  then show ?thesis
    using assms(2) by (auto simp: loop_inv_def split: resharder.splits)
next
  case quit
  then show ?thesis
    using assms(2) by (auto simp: loop_inv_def split: resharder.splits)
next
  case reshard_return
  then show ?thesis
    using assms(2) by (auto simp: loop_inv_def)
next
  case (stop_begin q)
  then show ?thesis
    using assms(2) by (auto simp: loop_inv_def)
qed (auto intro!: loop_inv_same [OF assms(2)])

lemma loop_inv_reachable:
  assumes "(sys_step conv cfg)\<^sup>*\<^sup>* (sys_start cfg) s" "\<And>x. int64 (conv x)" "int64 (MaxShards cfg)"
  shows "loop_inv cfg s"
  using assms(1) by (induction rule: rtranclp_induct) (auto intro: loop_inv_start loop_inv_step [OF _ _ assms(2,3)])

section \<open>Refinement of the queue\<close>

lemma sys_step_refines:
  assumes "sys_step conv cfg s t" "loop_inv cfg s"
  shows "sy_queue t = sy_queue s \<or> qm_step cfg (sy_queue s) (sy_queue t)"
  using assms(1)
proof (cases rule: sys_step.cases)
  case (append q x ss ok)
  then show ?thesis
    by (cases ok) (auto intro: qm_step.accept qm_step.drop)
next
  case (reshard_begin q n ss)
  then have "\<not> qm_stopping q" "qm_old q = None" "int64 n"
    using assms(2) by (auto simp: loop_inv_def)
  then show ?thesis
    using reshard_begin by (auto intro: qm_step.reshard_begin)
next
  case (stop_begin q)
  then have "qm_old q = None"
    using assms(2) by (auto simp: loop_inv_def)
  then show ?thesis
    using stop_begin by (auto intro: qm_step.stop_begin)
next
  case (close_old q old i)
  then show ?thesis
    unfolding close_shard_of_def by (auto intro: qm_step.close_old)
next
  case (stop_close q i)
  then show ?thesis
    unfolding close_shard_of_def by (auto intro: qm_step.stop_close)
qed (auto simp: all_returned_def intro: qm_step.work qm_step.work_old qm_step.reshard_end)

text \<open>C3. The whole queue manager refines the queue of which the delivery is proved: whatever the update loop, the
  resharding loop, the appenders, the shards and \<open>Stop\<close> do together is a run of \<open>qm_step\<close>, with the numbers of
  shards chosen by \<open>calculateDesiredShards\<close>.\<close>

theorem shard_system_refines:
  assumes "\<And>x. int64 (conv x)" "int64 (MaxShards cfg)" "(sys_step conv cfg)\<^sup>*\<^sup>* (sys_start cfg) s"
  shows "(qm_step cfg)\<^sup>*\<^sup>* qm_start (sy_queue s)"
  using assms(3)
proof (induction rule: rtranclp_induct)
  case base
  then show ?case
    by (simp add: sys_start_def)
next
  case (step s t)
  then show ?case
    using sys_step_refines [OF step(2) loop_inv_reachable [OF step(1) assms(1,2)]]
    by (auto intro: rtranclp.rtrancl_into_rtrancl)
qed

text \<open>C18. In every reachable state the number of shards is at most \<open>MaxShards\<close>, or the one shard of the start, and
  \<open>numShards\<close>, from which the next number is computed, is the number of shards or the number that the resharding loop
  has received and not yet taken up.\<close>

theorem shard_number_bounded:
  assumes "\<And>x. int64 (conv x)" "int64 (MaxShards cfg)" "(sys_step conv cfg)\<^sup>*\<^sup>* (sys_start cfg) s"
  shows "shards_len (qm_shards (sy_queue s)) \<le> max 1 (MaxShards cfg) \<and>
    (case sy_resharder s of
       Received n \<Rightarrow> qc_numShards (sy_counters s) = n \<and> n \<le> max 1 (MaxShards cfg)
     | _ \<Rightarrow> qc_numShards (sy_counters s) = shards_len (qm_shards (sy_queue s)))"
  using loop_inv_reachable [OF assms(3,1,2)] by (auto simp: loop_inv_def split: resharder.splits)

lemma sys_queue_inv:
  assumes "\<And>x. int64 (conv x)" "int64 (MaxShards cfg)" "0 < MaxSamplesPerSend cfg" "(sys_step conv cfg)\<^sup>*\<^sup>* (sys_start cfg) s"
  shows "qm_inv (sy_queue s)"
  using assms(4)
proof (induction rule: rtranclp_induct)
  case base
  then show ?case
    by (simp add: sys_start_def qm_start_inv)
next
  case (step s t)
  then show ?case
    using sys_step_refines [OF step(2) loop_inv_reachable [OF step(1) assms(1,2)]] qm_step_inv [OF _ _ assms(3)] by metis
qed

section \<open>Panics\<close>

lemma open_shards_panic:
  assumes "qm_inv q" "\<not> qm_stopping q" "enqueue cfg (qm_shards q) x = Inl p"
  shows "p = DivideByZero \<and> qm_shards q = []"
  using assms shard_index_less [of "length (qm_shards q)" "series_of x"] qm_invD(1,5) [OF assms(1)]
  by (auto simp: enqueue_def Let_def shards_ok_def list_all_length split: if_splits)

definition panic_cause :: "QueueManagerConfig \<Rightarrow> shard_system \<Rightarrow> panic \<Rightarrow> bool" where
  "panic_cause cfg s p \<longleftrightarrow>
     p = DivideByZero \<and> qm_shards (sy_queue s) = [] \<or>
     p = SendOnClosedChannel \<and> qm_stopping (sy_queue s) \<and> all_returned (qm_shards (sy_queue s)) \<or>
     p = MakeNegativeLength \<and> (\<exists>n. sy_resharder s = Received n \<and> (n < 0 \<or> QueueCapacity cfg < 0))"

lemma sys_step_panic:
  assumes "sys_step conv cfg s t" "qm_inv (sy_queue s)" "sy_panic t = Some p"
  shows "panic_cause cfg t p"
  using assms(1)
proof (cases rule: sys_step.cases)
  case (append_panic q x p')
  then have "p' = DivideByZero \<and> qm_shards q = [] \<or> p' = SendOnClosedChannel \<and> qm_stopping q \<and> all_returned (qm_shards q)"
    using open_shards_panic [of q cfg x p'] assms(2)
    by (cases "qm_stopping q") (auto simp: enqueue_def Let_def split: if_splits)
  then show ?thesis
    using append_panic assms(3) by (auto simp: panic_cause_def)
next
  case (reshard_panic n p')
  then show ?thesis
    using assms(3) by (auto simp: panic_cause_def newShards_def split: if_splits)
qed (use assms(3) in auto)


section \<open>Stopping\<close>

text \<open>What \<open>stop\<close> and the goroutines do to the shards that are being stopped.\<close>

definition close_step :: "shard list \<Rightarrow> shard list \<Rightarrow> bool" where
  "close_step ss ss' \<longleftrightarrow> (\<exists>i < length ss. \<not> sh_closed (ss ! i) \<and> ss' = close_shard_of ss i)"

definition stop_step :: "QueueManagerConfig \<Rightarrow> shard list \<Rightarrow> shard list \<Rightarrow> bool" where
  "stop_step cfg ss ss' \<longleftrightarrow> close_step ss ss' \<or> work_step cfg ss ss'"

definition open_count :: "shard list \<Rightarrow> nat" where
  "open_count ss = length (filter (\<lambda>s. \<not> sh_closed s) ss)"

lemma close_one: "\<lbrakk>i < length ss; \<not> sh_closed (ss ! i)\<rbrakk> \<Longrightarrow> open_count (close_shard_of ss i) < open_count ss"
proof (induction ss arbitrary: i)
  case (Cons s ss)
  then show ?case
    by (cases i) (auto simp: open_count_def close_shard_of_def)
qed simp

lemma close_run:
  "list_all (\<lambda>s. sh_status s \<noteq> NotStarted) ss \<Longrightarrow> \<exists>ss'. close_step\<^sup>*\<^sup>* ss ss' \<and> stopped ss'"
proof (induction "open_count ss" arbitrary: ss rule: less_induct)
  case less
  show ?case
  proof (cases "list_all sh_closed ss")
    case True
    then show ?thesis
      using less.prems by (intro exI [of _ ss]) (auto simp: stopped_def list_all_iff)
  next
    case False
    then obtain i where i: "i < length ss" "\<not> sh_closed (ss ! i)"
      by (auto simp: list_all_length)
    have "list_all (\<lambda>s. sh_status s \<noteq> NotStarted) (close_shard_of ss i)"
      using less.prems i(1) unfolding close_shard_of_def by (simp add: list_all_length nth_list_update)
    from less.hyps [OF close_one [OF i] this] obtain ss' where "close_step\<^sup>*\<^sup>* (close_shard_of ss i) ss'" "stopped ss'"
      by blast
    moreover have "close_step ss (close_shard_of ss i)"
      using i by (auto simp: close_step_def)
    ultimately show ?thesis
      by (meson converse_rtranclp_into_rtranclp)
  qed
qed

lemma stop_run:
  assumes "list_all (\<lambda>s. sh_status s \<noteq> NotStarted) ss" "0 < MaxSamplesPerSend cfg"
  shows "\<exists>ss'. (stop_step cfg)\<^sup>*\<^sup>* ss ss' \<and> all_returned ss'"
proof -
  obtain t where t: "close_step\<^sup>*\<^sup>* ss t" "stopped t"
    using close_run [OF assms(1)] by blast
  obtain ss' where u: "(work_step cfg)\<^sup>*\<^sup>* t ss'" "all_returned ss'"
    using drain_run [OF t(2) assms(2)] by (auto simp: all_returned_def)
  have "(stop_step cfg)\<^sup>*\<^sup>* ss t" "(stop_step cfg)\<^sup>*\<^sup>* t ss'"
    using t(1) u(1) by (auto elim!: mono_rtranclp [rule_format, rotated] simp: stop_step_def)
  then show ?thesis
    using u(2) by (meson rtranclp_trans)
qed

text \<open>The rest of the system that such a run leaves alone.\<close>

definition agrees :: "shard_system \<Rightarrow> shard_system \<Rightarrow> bool" where
  "agrees s t \<longleftrightarrow> sy_panic t = sy_panic s \<and> sy_quit t = sy_quit s \<and> sy_updating t = sy_updating s \<and>
     sy_resharder t = sy_resharder s \<and> qm_accepted (sy_queue t) = qm_accepted (sy_queue s) \<and>
     qm_stopping (sy_queue t) = qm_stopping (sy_queue s)"

lemma agrees_trans: "agrees s t \<Longrightarrow> agrees t u \<Longrightarrow> agrees s u"
  by (simp add: agrees_def)

lemma run_old:
  assumes "(stop_step cfg)\<^sup>*\<^sup>* old old'" "sy_panic s = None" "qm_old (sy_queue s) = Some old"
  shows "\<exists>t. (sys_step conv cfg)\<^sup>*\<^sup>* s t \<and> agrees s t \<and> qm_old (sy_queue t) = Some old'"
  using assms(1)
proof (induction rule: rtranclp_induct)
  case base
  then show ?case
    using assms(3) by (auto simp: agrees_def)
next
  case (step old1 old2)
  then obtain t where t: "(sys_step conv cfg)\<^sup>*\<^sup>* s t" "agrees s t" "qm_old (sy_queue t) = Some old1"
    by blast
  have "\<exists>u. sys_step conv cfg t u \<and> agrees t u \<and> qm_old (sy_queue u) = Some old2"
  proof (cases "close_step old1 old2")
    case True
    then obtain i where "i < length old1" "\<not> sh_closed (old1 ! i)" "old2 = close_shard_of old1 i"
      by (auto simp: close_step_def)
    then show ?thesis
      using t(2,3) assms(2) sys_step.close_old [OF _ refl t(3), where conv = conv and cfg = cfg] by (fastforce simp: agrees_def)
  next
    case False
    then obtain i sh bs where "i < length old1" "shard_step cfg (old1 ! i) sh bs" "old2 = old1[i := sh]"
      using step(2) by (auto simp: stop_step_def work_step_def)
    then show ?thesis
      using t(2,3) assms(2)
        sys_step.work_old [OF _ refl t(3), of i cfg sh bs "replicate (length bs) 0" conv] by (fastforce simp: agrees_def)
  qed
  then show ?case
    using t(1,2) agrees_trans rtranclp.rtrancl_into_rtrancl [of "sys_step conv cfg"] by metis
qed

lemma run_current:
  assumes "(stop_step cfg)\<^sup>*\<^sup>* ss ss'" "sy_panic s = None" "qm_shards (sy_queue s) = ss" "qm_stopping (sy_queue s)"
  shows "\<exists>t. (sys_step conv cfg)\<^sup>*\<^sup>* s t \<and> agrees s t \<and> qm_shards (sy_queue t) = ss'"
  using assms(1)
proof (induction rule: rtranclp_induct)
  case base
  then show ?case
    using assms(3) by (auto simp: agrees_def)
next
  case (step ss1 ss2)
  then obtain t where t: "(sys_step conv cfg)\<^sup>*\<^sup>* s t" "agrees s t" "qm_shards (sy_queue t) = ss1"
    by blast
  have "\<exists>u. sys_step conv cfg t u \<and> agrees t u \<and> qm_shards (sy_queue u) = ss2"
  proof (cases "close_step ss1 ss2")
    case True
    then obtain i where "i < length ss1" "\<not> sh_closed (ss1 ! i)" "ss2 = close_shard_of ss1 i"
      by (auto simp: close_step_def)
    then show ?thesis
      using t(2,3) assms(2,4) sys_step.stop_close [OF _ refl, where conv = conv and cfg = cfg and s = t and i = i]
      by (fastforce simp: agrees_def)
  next
    case False
    then obtain i sh bs where "i < length ss1" "shard_step cfg (ss1 ! i) sh bs" "ss2 = ss1[i := sh]"
      using step(2) by (auto simp: stop_step_def work_step_def)
    then show ?thesis
      using t(2,3) assms(2)
        sys_step.work [OF _ refl, of t i cfg sh bs "replicate (length bs) 0" conv] by (fastforce simp: agrees_def)
  qed
  then show ?case
    using t(1,2) agrees_trans rtranclp.rtrancl_into_rtrancl [of "sys_step conv cfg"] by metis
qed

text \<open>The resharding loop gets back to waiting, or has returned.\<close>

lemma resharder_settles:
  assumes "qm_inv (sy_queue s)" "loop_inv cfg s" "sy_panic s = None" "0 < MaxSamplesPerSend cfg" "0 \<le> QueueCapacity cfg"
    and "\<And>n. sy_resharder s = Received n \<Longrightarrow> 0 \<le> n"
  shows "\<exists>t. (sys_step conv cfg)\<^sup>*\<^sup>* s t \<and> sy_panic t = None \<and> sy_quit t = sy_quit s \<and>
    sy_resharder t \<in> {Idle, Loop_Returned} \<and> qm_accepted (sy_queue t) = qm_accepted (sy_queue s)"
proof -
  have stopping: "\<exists>t. (sys_step conv cfg)\<^sup>*\<^sup>* u t \<and> sy_panic t = None \<and> sy_quit t = sy_quit u \<and>
      sy_resharder t = Idle \<and> qm_accepted (sy_queue t) = qm_accepted (sy_queue u)"
    if u: "sy_resharder u = Stopping_Old" "sy_panic u = None" "qm_old (sy_queue u) = Some old"
      "list_all (\<lambda>s. sh_status s \<noteq> NotStarted) old" for u old
  proof -
    obtain old' where "(stop_step cfg)\<^sup>*\<^sup>* old old'" and returned: "all_returned old'"
      using stop_run [OF u(4) assms(4)] by blast
    from run_old [OF this(1) u(2,3)] obtain t where t: "(sys_step conv cfg)\<^sup>*\<^sup>* u t" "agrees u t"
        "qm_old (sy_queue t) = Some old'"
      by blast
    have "\<exists>v. sys_step conv cfg t v \<and> sy_panic v = None \<and> sy_quit v = sy_quit t \<and> sy_resharder v = Idle \<and>
        qm_accepted (sy_queue v) = qm_accepted (sy_queue t)"
      using sys_step.reshard_end [OF _ refl _ t(3) returned, of conv cfg] t(2) u(1,2) by (fastforce simp: agrees_def)
    then show ?thesis
      using t(1,2) by (metis agrees_def rtranclp.rtrancl_into_rtrancl)
  qed
  note inv = qm_invD [OF assms(1)]
  show ?thesis
  proof (cases "sy_resharder s")
    case (Received n)
    let ?ss = "replicate (nat n) new_shard"
    let ?u = "s\<lparr>sy_queue := (sy_queue s)\<lparr>qm_shards := ?ss, qm_old := Some (qm_shards (sy_queue s))\<rparr>,
      sy_resharder := Stopping_Old\<rparr>"
    have new: "newShards cfg n = Inr ?ss" and "qm_old (sy_queue s) = None"
      using assms(2,5,6) Received by (auto simp: newShards_def loop_inv_def)
    then have "list_all (\<lambda>s. sh_status s \<noteq> NotStarted) (qm_shards (sy_queue s))"
      using inv(4) by (simp add: list_all_iff)
    then have "\<exists>t. (sys_step conv cfg)\<^sup>*\<^sup>* ?u t \<and> sy_panic t = None \<and> sy_quit t = sy_quit ?u \<and>
        sy_resharder t = Idle \<and> qm_accepted (sy_queue t) = qm_accepted (sy_queue ?u)"
      using assms(3) by (intro stopping) auto
    moreover have "sys_step conv cfg s ?u"
      by (rule sys_step.reshard_begin [OF assms(3) refl Received new])
    ultimately show ?thesis
      by (auto intro: converse_rtranclp_into_rtranclp)
  next
    case Stopping_Old
    then obtain old where old: "qm_old (sy_queue s) = Some old"
      using assms(2) by (auto simp: loop_inv_def)
    then have "list_all (\<lambda>s. sh_status s \<noteq> NotStarted) old"
      using inv(3) by (simp add: old_shards_def)
    then show ?thesis
      using stopping [OF Stopping_Old assms(3) old] by blast
  qed (use assms(3) in auto)
qed

lemma reaches_stop:
  assumes "sy_panic s = None" "sy_resharder s \<in> {Idle, Loop_Returned}"
  shows "(sys_step conv cfg)\<^sup>*\<^sup>* s (s\<lparr>sy_quit := True, sy_updating := False, sy_resharder := Loop_Returned,
    sy_queue := (sy_queue s)\<lparr>qm_stopping := True\<rparr>\<rparr>)"
proof -
  let ?R = "(sys_step conv cfg)\<^sup>*\<^sup>*"
  let ?a = "s\<lparr>sy_quit := True\<rparr>" let ?b = "?a\<lparr>sy_updating := False\<rparr>" let ?c = "?b\<lparr>sy_resharder := Loop_Returned\<rparr>"
  let ?d = "?c\<lparr>sy_queue := (sy_queue s)\<lparr>qm_stopping := True\<rparr>\<rparr>"
  have "?a = s \<or> sys_step conv cfg s ?a"
    using sys_step.quit [OF assms(1), of conv cfg] by (cases "sy_quit s") auto
  moreover have "?b = ?a \<or> sys_step conv cfg ?a ?b"
    using sys_step.update_return [of ?a conv cfg] assms(1) by (cases "sy_updating s") auto
  moreover have "?c = ?b \<or> sys_step conv cfg ?b ?c"
    using sys_step.reshard_return [of ?b conv cfg] assms by (cases "sy_resharder s = Idle") auto
  moreover have "?d = ?c \<or> sys_step conv cfg ?c ?d"
    using sys_step.stop_begin [of ?c "sy_queue s" conv cfg] assms(1) by (cases "qm_stopping (sy_queue s)") auto
  ultimately have "?R s ?a" "?R ?a ?b" "?R ?b ?c" "?R ?c ?d"
    by (metis r_into_rtranclp rtranclp.rtrancl_refl)+
  then show ?thesis
    by (meson rtranclp_trans)
qed

text \<open>C11. \<open>Stop\<close> is never in a dead end: from every state the queue manager can be in, unless a negative number of
  shards is about to be taken up, it can be stopped so that all shards return, and then every sample accepted until
  now has been handed to the storage client, each series in the order of its acceptance.\<close>

theorem shard_system_can_stop:
  assumes "\<And>x. int64 (conv x)" "int64 (MaxShards cfg)" "0 < MaxSamplesPerSend cfg" "0 \<le> QueueCapacity cfg"
    and "(sys_step conv cfg)\<^sup>*\<^sup>* (sys_start cfg) s" "sy_panic s = None" "\<And>n. sy_resharder s = Received n \<Longrightarrow> 0 \<le> n"
  shows "\<exists>t. (sys_step conv cfg)\<^sup>*\<^sup>* s t \<and> sy_panic t = None \<and> qm_stopping (sy_queue t) \<and>
    all_returned (qm_shards (sy_queue t)) \<and>
    (\<forall>fp. of_series fp (concat (qm_sent (sy_queue t))) = of_series fp (qm_accepted (sy_queue s)))"
proof -
  note inv = sys_queue_inv [OF assms(1,2,3)]
  obtain t where t: "(sys_step conv cfg)\<^sup>*\<^sup>* s t" "sy_panic t = None" "sy_resharder t \<in> {Idle, Loop_Returned}"
      "qm_accepted (sy_queue t) = qm_accepted (sy_queue s)"
    using resharder_settles [OF inv [OF assms(5)] loop_inv_reachable [OF assms(5,1,2)] assms(6,3,4,7), of conv] by blast
  let ?u = "t\<lparr>sy_quit := True, sy_updating := False, sy_resharder := Loop_Returned,
    sy_queue := (sy_queue t)\<lparr>qm_stopping := True\<rparr>\<rparr>"
  have su: "(sys_step conv cfg)\<^sup>*\<^sup>* s ?u"
    using t(1) reaches_stop [OF t(2,3), of conv cfg] by (rule rtranclp_trans)
  then have inv_u: "qm_inv (sy_queue ?u)"
    using assms(5) by (intro inv) (rule rtranclp_trans)
  then have "list_all (\<lambda>s. sh_status s \<noteq> NotStarted) (qm_shards (sy_queue ?u))"
    using qm_invD(4,6) [OF inv_u] by (simp add: list_all_iff)
  from stop_run [OF this assms(3)] obtain ss' where
    ss': "(stop_step cfg)\<^sup>*\<^sup>* (qm_shards (sy_queue ?u)) ss'" "all_returned ss'"
    by blast
  from run_current [OF ss'(1) _ refl, of conv] obtain v where
    v: "(sys_step conv cfg)\<^sup>*\<^sup>* ?u v" "agrees ?u v" "qm_shards (sy_queue v) = ss'"
    using t(2) by auto
  have sv: "(sys_step conv cfg)\<^sup>*\<^sup>* s v"
    using su v(1) by (rule rtranclp_trans)
  then have inv_v: "qm_inv (sy_queue v)"
    using assms(5) by (intro inv) (rule rtranclp_trans)
  have "qm_stopping (sy_queue v)" "sy_panic v = None" "qm_accepted (sy_queue v) = qm_accepted (sy_queue s)"
    using v(2) t(2,4) by (simp_all add: agrees_def)
  then show ?thesis
    using sv v(3) ss'(2) qm_flushed [OF inv_v] by (intro exI [of _ v]) (simp add: all_returned_def)
qed

section \<open>Runs\<close>

text \<open>A queue manager with one accepted sample, and one that is stopped and then gets a sample.\<close>

definition ex_sys :: "bool \<Rightarrow> shard \<Rightarrow> Sample list \<Rightarrow> shard_system" where
  "ex_sys stop sh acc = \<lparr>sy_queue = ex_qm [sh] stop [] acc, sy_counters = new_counters ex_cfg, sy_quit = stop,
     sy_updating = \<not> stop, sy_resharder = (if stop then Loop_Returned else Idle), sy_panic = None\<rparr>"

lemma ex_sys_start: "sys_start ex_cfg = ex_sys False (ex_shard [] False Started) []"
  by (simp add: sys_start_def ex_sys_def ex_start)

lemma ex_sys_append:
  "sys_step (\<lambda>_. 0) ex_cfg (sys_start ex_cfg)
     ((ex_sys False (ex_shard [x] False Started) [x])\<lparr>sy_counters := enqueue_count (new_counters ex_cfg)\<rparr>)"
  using sys_step.append [of "sys_start ex_cfg" "sy_queue (sys_start ex_cfg)" ex_cfg x "[ex_shard [x] False Started]" True]
  by (simp add: ex_sys_start) (simp add: ex_sys_def ex_qm_def enqueue_def ex_shard_def)

lemma ex_sys_stopped:
  "(sys_step (\<lambda>_. 0) ex_cfg)\<^sup>*\<^sup>* (sys_start ex_cfg) (ex_sys True (ex_shard [] True Returned) [])"
proof -
  have 1: "(sys_step (\<lambda>_. 0) ex_cfg)\<^sup>*\<^sup>* (sys_start ex_cfg) (ex_sys True (ex_shard [] False Started) [])"
    using reaches_stop [of "sys_start ex_cfg" "\<lambda>_. 0" ex_cfg] by (simp add: ex_sys_start) (simp add: ex_sys_def ex_qm_def)
  have 2: "sys_step (\<lambda>_. 0) ex_cfg (ex_sys True (ex_shard [] False Started) []) (ex_sys True (ex_shard [] True Started) [])"
    using sys_step.stop_close [of "ex_sys True (ex_shard [] False Started) []" _ 0 "\<lambda>_. 0" ex_cfg, OF _ refl]
    by (simp add: ex_sys_def ex_qm_def close_shard_of_def ex_shard_def)
  have "shard_step ex_cfg (ex_shard [] True Started) (ex_shard [] True Returned) []"
    by (rule shard_step.finish) (simp_all add: ex_shard_def shard_finish_def flush_def)
  then have "sys_step (\<lambda>_. 0) ex_cfg (ex_sys True (ex_shard [] True Started) []) (ex_sys True (ex_shard [] True Returned) [])"
    using sys_step.work [of "ex_sys True (ex_shard [] True Started) []" _ 0 ex_cfg "ex_shard [] True Returned" "[]" "[]" "\<lambda>_. 0", OF _ refl]
    by (simp add: ex_sys_def ex_qm_def count_batches_def)
  with 1 2 show ?thesis
    by (meson rtranclp.rtrancl_into_rtrancl)
qed

definition ex_panicked :: shard_system where
  "ex_panicked = (ex_sys True (ex_shard [] True Returned) [])\<lparr>sy_counters := enqueue_count (new_counters ex_cfg),
     sy_panic := Some SendOnClosedChannel\<rparr>"

lemma ex_sys_panicked: "(sys_step (\<lambda>_. 0) ex_cfg)\<^sup>*\<^sup>* (sys_start ex_cfg) ex_panicked"
proof -
  have "sys_step (\<lambda>_. 0) ex_cfg (ex_sys True (ex_shard [] True Returned) []) ex_panicked"
    using sys_step.append_panic [of "ex_sys True (ex_shard [] True Returned) []" _ ex_cfg _ SendOnClosedChannel "\<lambda>_. 0", OF _ refl]
    by (simp add: ex_panicked_def) (simp add: ex_sys_def ex_qm_def all_returned_def ex_shard_def enqueue_def)
  then show ?thesis
    using ex_sys_stopped by (rule rtranclp.rtrancl_into_rtrancl [rotated])
qed

lemma ex_int64: "int64 (MaxShards ex_cfg)" "int64 0"
  by (simp_all add: ex_cfg_def defaultQueueManagerConfig_def int64_def)

theorem shard_system_refines_witness: "(qm_step ex_cfg)\<^sup>*\<^sup>* qm_start (sy_queue ex_panicked)"
  using shard_system_refines [of "\<lambda>_. 0", OF _ ex_int64(1) ex_sys_panicked] ex_int64(2) by simp

theorem shard_number_bounded_witness:
  "shards_len (qm_shards (sy_queue ex_panicked)) \<le> 1000 \<and> qc_numShards (sy_counters ex_panicked) = 1"
proof -
  have "MaxShards ex_cfg = 1000"
    by (simp add: ex_cfg_def defaultQueueManagerConfig_def)
  then show ?thesis
    using shard_number_bounded [of "\<lambda>_. 0", OF _ ex_int64(1) ex_sys_panicked] ex_int64(2)
    by (simp add: ex_panicked_def ex_sys_def ex_qm_def shards_len_def)
qed


theorem shard_system_can_stop_witness:
  "\<exists>t. (sys_step (\<lambda>_. 0) ex_cfg)\<^sup>*\<^sup>* (sys_start ex_cfg) t \<and> qm_stopping (sy_queue t) \<and>
     of_series (series_of (ex_sample 1)) (concat (qm_sent (sy_queue t))) = [ex_sample 1]"
proof -
  let ?s = "(ex_sys False (ex_shard [ex_sample 1] False Started) [ex_sample 1])\<lparr>sy_counters := enqueue_count (new_counters ex_cfg)\<rparr>"
  have s: "(sys_step (\<lambda>_. 0) ex_cfg)\<^sup>*\<^sup>* (sys_start ex_cfg) ?s"
    using ex_sys_append by blast
  obtain t where "(sys_step (\<lambda>_. 0) ex_cfg)\<^sup>*\<^sup>* ?s t" "qm_stopping (sy_queue t)"
      "of_series (series_of (ex_sample 1)) (concat (qm_sent (sy_queue t))) =
       of_series (series_of (ex_sample 1)) (qm_accepted (sy_queue ?s))"
    using shard_system_can_stop [of "\<lambda>_. 0", OF _ ex_int64(1) _ _ s] ex_int64(2) by (auto simp: ex_sys_def)
  moreover have "of_series (series_of (ex_sample 1)) (qm_accepted (sy_queue ?s)) = [ex_sample 1]"
    by (simp add: ex_sys_def ex_qm_def of_series_def)
  ultimately show ?thesis
    using s by (metis (no_types, lifting) rtranclp_trans)
qed

end
