(* ===== verification/Relabel.thy ===== *)
theory Relabel
  imports Model_Types
begin

text \<open>
  Relabelling (the vendored package \<open>relabel\<close>), as the targets and the samples of the proxy go through it.
  A compiled regular expression is a record of the four methods the package calls; \<open>md5.Sum\<close> is a
  parameter. An action is one of the seven the configuration accepts, and a modulus it accepts is not 0.
\<close>

record regex =
  re_MatchString :: "string \<Rightarrow> bool"
  re_FindStringSubmatchIndex :: "string \<Rightarrow> nat list option"
  re_ExpandString :: "string \<Rightarrow> string \<Rightarrow> nat list \<Rightarrow> string"
  re_ReplaceAllString :: "string \<Rightarrow> string \<Rightarrow> string"

datatype RelabelAction =
  RelabelReplace | RelabelKeep | RelabelDrop | RelabelHashMod | RelabelLabelMap | RelabelLabelDrop | RelabelLabelKeep

record RelabelConfig =
  rc_SourceLabels :: "LabelName list"
  rc_Separator :: string
  rc_Regex :: regex
  rc_Modulus :: "64 word"
  rc_TargetLabel :: string
  rc_Replacement :: string
  rc_Action :: RelabelAction

definition labelname_char :: "bool \<Rightarrow> char \<Rightarrow> bool" where
  "labelname_char first c \<longleftrightarrow> (CHR ''a'' \<le> c \<and> c \<le> CHR ''z'') \<or> (CHR ''A'' \<le> c \<and> c \<le> CHR ''Z'') \<or> c = CHR ''_'' \<or>
     (CHR ''0'' \<le> c \<and> c \<le> CHR ''9'' \<and> \<not> first)"

fun labelname_IsValid :: "LabelName \<Rightarrow> bool" where
  "labelname_IsValid [] = False"
| "labelname_IsValid (c # cs) = (labelname_char True c \<and> list_all (labelname_char False) cs)"

text \<open>\<open>sum64\<close> over the bytes at the positions \<open>i\<close> to \<open>15\<close>; a shift by 64 or more gives 0.\<close>

fun sum64_loop :: "64 word \<Rightarrow> nat \<Rightarrow> 8 word list \<Rightarrow> 64 word" where
  "sum64_loop s i [] = s"
| "sum64_loop s i (b # bs) = sum64_loop (or s (push_bit ((16 - i - 1) * 8) (ucast b))) (Suc i) bs"

definition sum64 :: "8 word list \<Rightarrow> 64 word" where
  "sum64 hash = sum64_loop 0 0 hash"

fun label_map_loop :: "regex \<Rightarrow> string \<Rightarrow> LabelSet \<Rightarrow> LabelSet \<Rightarrow> LabelSet" where
  "label_map_loop re repl out [] = out"
| "label_map_loop re repl out ((nm, lv) # ls) =
     label_map_loop re repl (if re_MatchString re nm then gm_put out (re_ReplaceAllString re nm repl) lv else out) ls"

definition relabel :: "(string \<Rightarrow> 8 word list) \<Rightarrow> LabelSet \<Rightarrow> RelabelConfig \<Rightarrow> LabelSet option" where
  "relabel md5 labels cfg =
    (let re = rc_Regex cfg;
         val = str_join (map (gm_str labels) (rc_SourceLabels cfg)) (rc_Separator cfg) in
     (case rc_Action cfg of
        RelabelDrop \<Rightarrow> if re_MatchString re val then None else Some labels
      | RelabelKeep \<Rightarrow> if \<not> re_MatchString re val then None else Some labels
      | RelabelReplace \<Rightarrow>
         Some (case re_FindStringSubmatchIndex re val of
             None \<Rightarrow> labels
           | Some indexes \<Rightarrow>
              (let target = re_ExpandString re (rc_TargetLabel cfg) val indexes;
                   res = re_ExpandString re (rc_Replacement cfg) val indexes in
               if \<not> labelname_IsValid target then gm_del labels (rc_TargetLabel cfg)
               else if res = [] then gm_del labels (rc_TargetLabel cfg)
               else gm_put labels target res))
      | RelabelHashMod \<Rightarrow>
         Some (gm_put labels (rc_TargetLabel cfg) (itoa (uint (sum64 (md5 val) mod rc_Modulus cfg))))
      | RelabelLabelMap \<Rightarrow> Some (label_map_loop re (rc_Replacement cfg) (labelset_Clone labels) labels)
      | RelabelLabelDrop \<Rightarrow> Some (gm_del_if (re_MatchString re) labels)
      | RelabelLabelKeep \<Rightarrow> Some (gm_del_if (\<lambda>nm. \<not> re_MatchString re nm) labels)))"

fun relabel_Process :: "(string \<Rightarrow> 8 word list) \<Rightarrow> RelabelConfig list \<Rightarrow> LabelSet \<Rightarrow> LabelSet option" where
  "relabel_Process md5 [] labels = Some labels"
| "relabel_Process md5 (cfg # cfgs) labels =
     (case relabel md5 labels cfg of None \<Rightarrow> None | Some labels' \<Rightarrow> relabel_Process md5 cfgs labels')"

section \<open>Lemmas\<close>

lemma gm_ok_label_map_loop: "gm_ok out \<Longrightarrow> gm_ok (label_map_loop re repl out ls)"
  by (induction re repl out ls rule: label_map_loop.induct) auto

lemma gm_ok_relabel: "gm_ok labels \<Longrightarrow> relabel md5 labels cfg = Some r \<Longrightarrow> gm_ok r"
  by (auto simp: relabel_def Let_def gm_ok_label_map_loop split: RelabelAction.splits option.splits if_splits)

lemma gm_ok_relabel_Process: "gm_ok labels \<Longrightarrow> relabel_Process md5 cfgs labels = Some r \<Longrightarrow> gm_ok r"
  by (induction md5 cfgs labels rule: relabel_Process.induct) (auto split: option.splits dest: gm_ok_relabel)

lemma relabel_Process_append:
  "relabel_Process md5 (cs @ ds) labels = Option.bind (relabel_Process md5 cs labels) (relabel_Process md5 ds)"
  by (induction md5 cs labels rule: relabel_Process.induct) (auto split: option.split)

text \<open>\<open>sum64\<close> reads the last eight of sixteen bytes, the first of them as the most significant one.\<close>

lemma push_bit_ge_64: "64 \<le> n \<Longrightarrow> push_bit n (w :: 64 word) = 0"
  by (rule bit_word_eqI) (auto simp: bit_push_bit_iff)

lemma sum64_shift:
  "length bs = 16 - i \<Longrightarrow> i \<le> 8 \<Longrightarrow> sum64_loop s i bs = sum64_loop s 8 (drop (8 - i) bs)"
proof (induction "8 - i" arbitrary: i bs)
  case (Suc n)
  then obtain b bs' where bs: "bs = b # bs'"
    by (cases bs) auto
  have "64 \<le> (16 - i - 1) * 8"
    using Suc.hyps(2) by simp
  then have "sum64_loop s i bs = sum64_loop s (Suc i) bs'"
    unfolding bs sum64_loop.simps push_bit_ge_64 [OF \<open>64 \<le> (16 - i - 1) * 8\<close>] by simp
  also have "\<dots> = sum64_loop s 8 (drop (8 - Suc i) bs')"
    using Suc.hyps(2) Suc.prems bs by (intro Suc.hyps(1)) auto
  also have "drop (8 - Suc i) bs' = drop (8 - i) bs"
  proof -
    have "8 - i = Suc (8 - Suc i)"
      using Suc.hyps(2) by simp
    then show ?thesis
      by (simp add: bs)
  qed
  finally show ?case .
qed simp

lemma bit_word_rcat:
  "bit (word_rcat (ws :: 8 word list) :: 64 word) n \<longleftrightarrow>
     n < 64 \<and> n div 8 < length ws \<and> bit (rev ws ! (n div 8)) (n mod 8)"
  using bit_horner_sum_uint_exp_iff [of "rev ws" n]
  by (simp add: word_rcat_def bit_word_of_int_iff)

lemma word_rcat_Cons:
  "word_rcat (b # bs) = or (push_bit (length bs * 8) (ucast b)) (word_rcat bs :: 64 word)" for b :: "8 word"
proof (rule bit_word_eqI)
  fix n
  assume n: "n < LENGTH(64)"
  consider "n div 8 < length bs" | "n div 8 = length bs" | "length bs < n div 8"
    by linarith
  then show "bit (word_rcat (b # bs) :: 64 word) n \<longleftrightarrow>
      bit (or (push_bit (length bs * 8) (ucast b)) (word_rcat bs :: 64 word)) n"
  proof cases
    case 1
    then have "n < length bs * 8"
      by (metis less_mult_imp_div_less div_less_iff_less_mult zero_less_numeral)
    then show ?thesis
      using 1 n by (simp add: bit_word_rcat bit_or_iff bit_push_bit_iff nth_append)
  next
    case 2
    then have "n = length bs * 8 + n mod 8"
      by (metis div_mult_mod_eq)
    then have "n - length bs * 8 = n mod 8" "length bs * 8 \<le> n" "n mod 8 < 64"
      by linarith+
    then show ?thesis
      using 2 n by (simp add: bit_word_rcat bit_or_iff bit_push_bit_iff nth_append bit_ucast_iff)
  next
    case 3
    then have "length bs * 8 + 8 \<le> n"
      by (metis Suc_leI add.commute div_le_mono mult_Suc less_eq_div_iff_mult_less_eq zero_less_numeral)
    then have "\<not> bit b (n - length bs * 8)"
      using bit_imp_le_length [of b "n - length bs * 8"] by auto
    then show ?thesis
      using 3 n by (auto simp: bit_word_rcat bit_or_iff bit_push_bit_iff bit_ucast_iff)
  qed
qed

lemma sum64_loop_rcat: "length bs = 16 - i \<Longrightarrow> sum64_loop s i bs = or s (word_rcat bs)"
proof (induction bs arbitrary: s i)
  case Nil
  then show ?case
    by (simp add: word_rcat_def)
next
  case (Cons b bs)
  then have l: "length bs = 16 - i - 1"
    by simp
  have "sum64_loop s i (b # bs) = or (or s (push_bit ((16 - i - 1) * 8) (ucast b))) (word_rcat bs)"
    using Cons.IH [of "Suc i"] l by simp
  then show ?case
    by (simp add: word_rcat_Cons l or.assoc)
qed

lemma sum64_rcat: "length bs = 16 \<Longrightarrow> sum64 bs = word_rcat bs"
  by (simp add: sum64_def sum64_loop_rcat)

text \<open>Only the last eight of the sixteen bytes count.\<close>

lemma sum64_last_bytes: "length bs = 16 \<Longrightarrow> sum64 bs = word_rcat (drop 8 bs)"
  using sum64_shift [of bs 0 0] by (simp add: sum64_def sum64_loop_rcat)

end
