(* ===== verification/Metrics.thy ===== *)
theory Metrics
  imports Relabel
begin

text \<open>
  The Prometheus metrics that \<open>src/storage/remote/queue_manager.go\<close> declares and registers when the process starts, and
  what of the vendored package \<open>client_golang/prometheus\<close> this runs through: \<open>BuildFQName\<close>, \<open>NewDesc\<close> and \<open>Register\<close>.
  \<open>init\<close> panics when a registration fails, so the process starts only if all the names, help texts and labels pass.
\<close>

section \<open>Descriptors\<close>

datatype metric_kind = CounterVec | GaugeVec | HistogramVec

text \<open>\<open>mo_DefBuckets\<close>: the bounds of the histogram are those of \<open>prometheus.DefBuckets\<close>.\<close>

record metric_opts =
  mo_kind :: metric_kind
  mo_Namespace :: string
  mo_Subsystem :: string
  mo_Name :: string
  mo_Help :: string
  mo_DefBuckets :: bool
  mo_labels :: "string list"

definition BuildFQName :: "string \<Rightarrow> string \<Rightarrow> string \<Rightarrow> string" where
  "BuildFQName ns sub nm =
    (if nm = [] then []
     else if ns \<noteq> [] \<and> sub \<noteq> [] then ns @ ''_'' @ sub @ ''_'' @ nm
     else if ns \<noteq> [] then ns @ ''_'' @ nm
     else if sub \<noteq> [] then sub @ ''_'' @ nm
     else nm)"

definition IsValidMetricName :: "string \<Rightarrow> bool" where
  "IsValidMetricName n \<longleftrightarrow> (case n of [] \<Rightarrow> False
     | c # cs \<Rightarrow> (labelname_char True c \<or> c = CHR '':'') \<and> list_all (\<lambda>d. labelname_char False d \<or> d = CHR '':'') cs)"

definition checkLabelName :: "string \<Rightarrow> bool" where
  "checkLabelName l \<longleftrightarrow> labelname_IsValid l \<and> take 2 l \<noteq> ''__''"

text \<open>A descriptor without constant labels. \<open>ds_err\<close> is set where the code sets \<open>err\<close>; the hashes are not computed
  then.\<close>

record metric_desc =
  ds_fqName :: string
  ds_err :: bool
  ds_id :: "64 word"
  ds_dimHash :: "64 word"

definition NewDesc :: "string \<Rightarrow> string \<Rightarrow> string list \<Rightarrow> metric_desc" where
  "NewDesc fqName help labels =
    (if help = [] \<or> \<not> IsValidMetricName fqName \<or> \<not> list_all checkLabelName labels \<or> \<not> distinct labels
     then \<lparr>ds_fqName = fqName, ds_err = True, ds_id = 0, ds_dimHash = 0\<rparr>
     else \<lparr>ds_fqName = fqName, ds_err = False,
       ds_id = hashAddByte (hashAdd hashNew fqName) SeparatorByte,
       ds_dimHash = fold (\<lambda>l h. hashAddByte (hashAdd h l) SeparatorByte) (sort (map (\<lambda>l. CHR ''$'' # l) labels))
         (hashAddByte (hashAdd hashNew help) SeparatorByte)\<rparr>)"

definition metric_desc_of :: "metric_opts \<Rightarrow> metric_desc" where
  "metric_desc_of m = NewDesc (BuildFQName (mo_Namespace m) (mo_Subsystem m) (mo_Name m)) (mo_Help m) (mo_labels m)"

section \<open>The registry\<close>

text \<open>A vector has one descriptor, so the hash of the descriptor is the hash of the collector.\<close>

record registry =
  rg_ids :: "64 word list"
  rg_dimHashes :: "(string \<times> 64 word) list"

datatype register_error = InvalidDescriptor | InconsistentDescriptor | AlreadyRegistered

definition Register :: "registry \<Rightarrow> metric_desc \<Rightarrow> register_error + registry" where
  "Register r d =
    (if ds_err d then Inl InvalidDescriptor
     else if map_of (rg_dimHashes r) (ds_fqName d) \<notin> {None, Some (ds_dimHash d)} then Inl InconsistentDescriptor
     else if ds_id d \<in> set (rg_ids r) then Inl AlreadyRegistered
     else Inr \<lparr>rg_ids = ds_id d # rg_ids r, rg_dimHashes = AList.update (ds_fqName d) (ds_dimHash d) (rg_dimHashes r)\<rparr>)"

text \<open>\<open>MustRegister\<close> of one metric after the other.\<close>

fun register_metrics :: "registry \<Rightarrow> metric_opts list \<Rightarrow> panic + registry" where
  "register_metrics r [] = Inr r"
| "register_metrics r (m # ms) =
    (case Register r (metric_desc_of m) of
       Inl e \<Rightarrow> Inl (ExplicitPanic ''prometheus.MustRegister'')
     | Inr r' \<Rightarrow> register_metrics r' ms)"

section \<open>The metrics of the queue manager\<close>

definition queue_metric :: "metric_kind \<Rightarrow> string \<Rightarrow> string \<Rightarrow> metric_opts" where
  "queue_metric k nm help = \<lparr>mo_kind = k, mo_Namespace = ''prometheus'', mo_Subsystem = ''remote_storage'',
     mo_Name = nm, mo_Help = help, mo_DefBuckets = (k = HistogramVec), mo_labels = [''queue'']\<rparr>"

definition queue_metric_opts :: "metric_opts list" where
  "queue_metric_opts =
    [queue_metric CounterVec ''succeeded_samples_total'' ''Total number of samples successfully sent to remote storage.'',
     queue_metric CounterVec ''failed_samples_total'' ''Total number of samples which failed on send to remote storage.'',
     queue_metric CounterVec ''dropped_samples_total'' ''Total number of samples which were dropped due to the queue being full.'',
     queue_metric HistogramVec ''sent_batch_duration_seconds'' ''Duration of sample batch send calls to the remote storage.'',
     queue_metric GaugeVec ''queue_length'' ''The number of processed samples queued to be sent to the remote storage.'',
     queue_metric GaugeVec ''queue_capacity'' ''The capacity of the queue of samples to be sent to the remote storage.'',
     queue_metric GaugeVec ''shards'' ''The number of shards used for parallel sending to the remote storage.'']"

definition queue_metrics_init :: "panic + registry" where
  "queue_metrics_init = register_metrics \<lparr>rg_ids = [], rg_dimHashes = []\<rparr> queue_metric_opts"

section \<open>Registering them\<close>

lemma update_new: "k \<notin> fst ` set al \<Longrightarrow> AList.update k v al = al @ [(k, v)]"
  by (induction al) auto

lemma register_all:
  assumes "list_all (\<lambda>d. \<not> ds_err d) (map metric_desc_of ms)"
    and "distinct (map ds_fqName (map metric_desc_of ms))" "distinct (map ds_id (map metric_desc_of ms))"
    and "ds_fqName ` set (map metric_desc_of ms) \<inter> fst ` set (rg_dimHashes r) = {}"
    and "ds_id ` set (map metric_desc_of ms) \<inter> set (rg_ids r) = {}"
  shows "register_metrics r ms = Inr
    \<lparr>rg_ids = rev (map ds_id (map metric_desc_of ms)) @ rg_ids r,
     rg_dimHashes = rg_dimHashes r @ map (\<lambda>d. (ds_fqName d, ds_dimHash d)) (map metric_desc_of ms)\<rparr>"
  using assms
proof (induction ms arbitrary: r)
  case (Cons m ms)
  let ?d = "metric_desc_of m"
  let ?r = "\<lparr>rg_ids = ds_id ?d # rg_ids r, rg_dimHashes = rg_dimHashes r @ [(ds_fqName ?d, ds_dimHash ?d)]\<rparr>"
  have "ds_fqName ?d \<notin> fst ` set (rg_dimHashes r)" "ds_id ?d \<notin> set (rg_ids r)" "\<not> ds_err ?d"
    using Cons.prems(1,4,5) by auto
  then have "Register r ?d = Inr ?r"
    using map_of_eq_None_iff [of "rg_dimHashes r" "ds_fqName ?d"] by (simp add: Register_def update_new)
  moreover have "register_metrics ?r ms = Inr
    \<lparr>rg_ids = rev (map ds_id (map metric_desc_of ms)) @ rg_ids ?r,
     rg_dimHashes = rg_dimHashes ?r @ map (\<lambda>d. (ds_fqName d, ds_dimHash d)) (map metric_desc_of ms)\<rparr>"
    using Cons.prems by (intro Cons.IH) auto
  ultimately show ?case
    by simp
qed simp

text \<open>The hash over the integers, for evaluation.\<close>

fun hash_int :: "int \<Rightarrow> string \<Rightarrow> int" where
  "hash_int h [] = h"
| "hash_int h (c # s) = hash_int (((h XOR of_char c) * 1099511628211) mod 18446744073709551616) s"

lemma uint_of_char: "uint (of_char c :: 64 word) = of_char c"
proof -
  have "take_bit 64 (of_char c :: nat) = of_char c"
    by (intro take_bit_nat_eq_self order.strict_trans [OF nat_of_char_less_256]) simp
  then have "uint (of_nat (of_char c) :: 64 word) = int (of_char c)"
    by (simp add: unsigned_of_nat del: of_nat_of_char)
  then show ?thesis
    by (simp add: of_nat_of_char)
qed

lemma uint_hashAdd: "uint (hashAdd h s) = hash_int (uint h) s"
  by (induction h s rule: hashAdd.induct)
    (simp_all add: hashAddByte_def uint_word_ariths uint_xor uint_of_char)

lemma hash_int_append: "hash_int h (s @ t) = hash_int (hash_int h s) t"
  by (induction h s rule: hash_int.induct) simp_all

lemma hash_prefix: "hash_int 14695981039346656037 ''prometheus_remote_storage_'' = 830614570608646027"
  by simp

lemma desc_of_queue_metric:
  assumes "m \<in> set queue_metric_opts"
  shows "metric_desc_of m = NewDesc (''prometheus_remote_storage_'' @ mo_Name m) (mo_Help m) [''queue'']"
  using assms by (auto simp: queue_metric_opts_def queue_metric_def metric_desc_of_def BuildFQName_def)

lemma desc_ok:
  assumes "help \<noteq> []" "list_all (labelname_char False) nm"
  shows "\<not> ds_err (NewDesc (''prometheus_remote_storage_'' @ nm) help [''queue''])"
    and "ds_fqName (NewDesc (''prometheus_remote_storage_'' @ nm) help [''queue'']) = ''prometheus_remote_storage_'' @ nm"
    and "uint (ds_id (NewDesc (''prometheus_remote_storage_'' @ nm) help [''queue''])) =
      ((hash_int 830614570608646027 nm XOR 255) * 1099511628211) mod 18446744073709551616"
proof -
  have "IsValidMetricName (''prometheus_remote_storage_'' @ nm)"
    using assms(2) by (auto simp: IsValidMetricName_def labelname_char_def list_all_iff)
  moreover have "checkLabelName ''queue''"
    by (simp add: checkLabelName_def labelname_char_def)
  ultimately have nd: "NewDesc (''prometheus_remote_storage_'' @ nm) help [''queue''] =
     \<lparr>ds_fqName = ''prometheus_remote_storage_'' @ nm, ds_err = False,
       ds_id = hashAddByte (hashAdd hashNew (''prometheus_remote_storage_'' @ nm)) SeparatorByte,
       ds_dimHash = hashAddByte (hashAdd (hashAddByte (hashAdd hashNew help) SeparatorByte) ''$queue'') SeparatorByte\<rparr>"
    using assms(1) by (simp add: NewDesc_def)
  show "\<not> ds_err (NewDesc (''prometheus_remote_storage_'' @ nm) help [''queue''])"
    and "ds_fqName (NewDesc (''prometheus_remote_storage_'' @ nm) help [''queue'']) = ''prometheus_remote_storage_'' @ nm"
    unfolding nd by simp_all
  have h: "uint (hashAdd hashNew (''prometheus_remote_storage_'' @ nm)) = hash_int 830614570608646027 nm"
    unfolding uint_hashAdd hash_int_append by (simp add: hashNew_def hash_prefix del: hash_int.simps append_Cons)
  show "uint (ds_id (NewDesc (''prometheus_remote_storage_'' @ nm) help [''queue''])) =
      ((hash_int 830614570608646027 nm XOR 255) * 1099511628211) mod 18446744073709551616"
    unfolding nd using h by (simp add: hashAddByte_def SeparatorByte_def uint_word_ariths uint_xor)
qed

definition queue_metric_ids :: "int list" where
  "queue_metric_ids = [4568766799076540762, 16498304612755324188, 17835890515540184083, 2857194941292259874,
     14814322163752993008, 3886068098632625756, 7928151049156256663]"

lemma queue_descs:
  "list_all (\<lambda>d. \<not> ds_err d) (map metric_desc_of queue_metric_opts)"
  "map ds_fqName (map metric_desc_of queue_metric_opts) = map (\<lambda>m. ''prometheus_remote_storage_'' @ mo_Name m) queue_metric_opts"
  "map uint (map ds_id (map metric_desc_of queue_metric_opts)) = queue_metric_ids"
proof -
  have ok: "mo_Help m \<noteq> [] \<and> list_all (labelname_char False) (mo_Name m)" if "m \<in> set queue_metric_opts" for m
    using that by (auto simp: queue_metric_opts_def queue_metric_def labelname_char_def)
  show "list_all (\<lambda>d. \<not> ds_err d) (map metric_desc_of queue_metric_opts)"
    using ok desc_ok(1) by (auto simp: list_all_iff desc_of_queue_metric)
  show "map ds_fqName (map metric_desc_of queue_metric_opts) = map (\<lambda>m. ''prometheus_remote_storage_'' @ mo_Name m) queue_metric_opts"
    using ok desc_ok(2) by (auto simp: desc_of_queue_metric)
  have "map uint (map ds_id (map metric_desc_of queue_metric_opts)) =
      map (\<lambda>nm. ((hash_int 830614570608646027 nm XOR 255) * 1099511628211) mod 18446744073709551616) (map mo_Name queue_metric_opts)"
    using ok desc_ok(3) by (auto simp: desc_of_queue_metric)
  also have "\<dots> = queue_metric_ids"
    by (simp add: queue_metric_opts_def queue_metric_def queue_metric_ids_def)
  finally show "map uint (map ds_id (map metric_desc_of queue_metric_opts)) = queue_metric_ids" .
qed

text \<open>The process does not panic in \<open>init\<close>: all seven metrics have a help text, valid names and labels, and names
  with different hashes, so the registry takes them all, each under its full name.\<close>

theorem queue_metrics_registered:
  "\<exists>r. queue_metrics_init = Inr r \<and> length (rg_ids r) = 7 \<and> distinct (rg_ids r) \<and>
     map fst (rg_dimHashes r) = map (\<lambda>m. ''prometheus_remote_storage_'' @ mo_Name m) queue_metric_opts"
proof -
  have "distinct (map uint (map ds_id (map metric_desc_of queue_metric_opts)))"
    unfolding queue_descs(3) by (simp add: queue_metric_ids_def)
  then have ids: "distinct (map ds_id (map metric_desc_of queue_metric_opts))"
    by (rule distinct_map [THEN iffD1, THEN conjunct1])
  have names: "distinct (map ds_fqName (map metric_desc_of queue_metric_opts))"
    unfolding queue_descs(2) by (simp add: queue_metric_opts_def queue_metric_def)
  let ?ds = "map metric_desc_of queue_metric_opts"
  let ?r = "\<lparr>rg_ids = rev (map ds_id ?ds), rg_dimHashes = map (\<lambda>d. (ds_fqName d, ds_dimHash d)) ?ds\<rparr>"
  have "queue_metrics_init = Inr ?r"
    unfolding queue_metrics_init_def by (subst register_all [OF queue_descs(1) names ids]) simp_all
  moreover have "length (rg_ids ?r) = 7"
    by (simp add: queue_metric_opts_def)
  moreover have "distinct (rg_ids ?r)"
    unfolding registry.select_convs distinct_rev by (rule ids)
  moreover have "map fst (map (\<lambda>d. (ds_fqName d, ds_dimHash d)) ds) = map ds_fqName ds" for ds
    by (induction ds) simp_all
  then have "map fst (rg_dimHashes ?r) = map (\<lambda>m. ''prometheus_remote_storage_'' @ mo_Name m) queue_metric_opts"
    unfolding registry.select_convs queue_descs(2) [symmetric] .
  ultimately show ?thesis
    by (intro exI [of _ ?r] conjI)
qed

end
