(* ===== verification/Write_Path.thy ===== *)
theory Write_Path
  imports Shard_Loop Metrics
begin

text \<open>
  The whole path of a sample to a remote endpoint, with its books (\<open>src/storage/remote/queue_manager.go\<close>): the queue
  manager of \<open>Shard_Loop\<close>, whose shards send their batches with \<open>sendSamplesWithBackoff\<close> through a client of
  \<open>client.go\<close>, together with the Prometheus metrics that it keeps.

  The theorems say where an accepted sample is at every time and where it has gone after \<open>Stop\<close>, and what the metrics
  say of it. A counter is a natural number here; the code counts in \<open>float64\<close>, which is exact up to \<open>2\<^sup>5\<^sup>3\<close>.
\<close>

section \<open>The metrics\<close>

text \<open>The values under the label of one queue: those of the metrics of theory \<open>Metrics\<close>, the histogram by the number of its
  observations.\<close>

record queue_metrics =
  mt_succeeded :: nat
  mt_failed :: nat
  mt_dropped :: nat
  mt_sentBatches :: nat
  mt_queueLength :: int
  mt_queueCapacity :: int
  mt_shards :: int

definition new_metrics :: "QueueManagerConfig \<Rightarrow> queue_metrics" where
  "new_metrics cfg = \<lparr>mt_succeeded = 0, mt_failed = 0, mt_dropped = 0, mt_sentBatches = 0, mt_queueLength = 0,
     mt_queueCapacity = QueueCapacity cfg, mt_shards = 1\<rparr>"

section \<open>Sending\<close>

text \<open>The storage client of a queue: attempt \<open>n\<close> meets the world \<open>w n\<close>.\<close>

definition endpoint_store :: "'h Client \<Rightarrow> (nat \<Rightarrow> 'h store_env) storage" where
  "endpoint_store c w samples = (client_Store (w 0) c samples, \<lambda>n. w (Suc n))"

text \<open>Batches sent one after the other, with what the metrics count of each.\<close>

fun send_batches ::
  "QueueManagerConfig \<Rightarrow> 'w storage \<Rightarrow> Sample list list \<Rightarrow> 'w \<Rightarrow> (Sample list \<times> 'w send_result) list" where
  "send_batches cfg store [] w = []"
| "send_batches cfg store (b # bs) w =
    (let r = sendSamplesWithBackoff cfg store b w in (b, r) # send_batches cfg store bs (sr_world r))"

definition count_sends :: "(Sample list \<times> 'w send_result) list \<Rightarrow> queue_metrics \<Rightarrow> queue_metrics" where
  "count_sends rs mt = fold (\<lambda>(b, r) mt. mt\<lparr>mt_succeeded := mt_succeeded mt + sr_succeeded r,
     mt_failed := mt_failed mt + sr_failed r, mt_sentBatches := mt_sentBatches mt + sr_attempts r\<rparr>) rs mt"

text \<open>A batch of which nothing failed was acknowledged.\<close>

definition outcomes :: "(Sample list \<times> 'w send_result) list \<Rightarrow> (Sample list \<times> bool) list" where
  "outcomes rs = map (\<lambda>(b, r). (b, sr_failed r = 0)) rs"

section \<open>The metered queue manager\<close>

text \<open>\<open>Append\<close> counts a sample after it has released the lock, and a shard after it has received it; until then the
  sample is in \<open>mq_to_inc\<close>, \<open>mq_to_drop\<close> or \<open>mq_to_dec\<close>. \<open>mq_outcomes\<close> are the batches sent, with whether the endpoint
  has acknowledged them.\<close>

record metered_queue =
  mq_sys :: shard_system
  mq_metrics :: queue_metrics
  mq_to_inc :: nat
  mq_to_drop :: nat
  mq_to_dec :: nat
  mq_outcomes :: "(Sample list \<times> bool) list"

definition buffered :: "qmanager \<Rightarrow> nat" where
  "buffered q = sum_list (map (\<lambda>s. length (sh_queue s)) (old_shards q @ qm_shards q))"

text \<open>How many samples the step of a shard has received.\<close>

definition received :: "shard \<Rightarrow> shard \<Rightarrow> nat" where
  "received s s' = length (sh_queue s) - length (sh_queue s')"

definition after_sends ::
  "QueueManagerConfig \<Rightarrow> 'h Client \<Rightarrow> (nat \<Rightarrow> 'h store_env) \<Rightarrow> Sample list list \<Rightarrow> metered_queue \<Rightarrow> metered_queue" where
  "after_sends cfg c w bs m =
    (let rs = send_batches cfg (endpoint_store c) bs w in
     m\<lparr>mq_metrics := count_sends rs (mq_metrics m), mq_outcomes := mq_outcomes m @ outcomes rs\<rparr>)"

text \<open>Every step of the queue manager with what it does to the metrics, and the late countings. As in \<open>Shard_Loop\<close>, a
  shard receives a sample and sends the batches it completes in one step, and \<open>reshard\<close> sets its gauge, makes the shards
  and swaps them in one step; when the number is negative it panics with the gauge set.\<close>

inductive met_step ::
  "(float64 \<Rightarrow> int) \<Rightarrow> QueueManagerConfig \<Rightarrow> 'h Client \<Rightarrow> metered_queue \<Rightarrow> metered_queue \<Rightarrow> bool" for conv cfg c where
  accepted: "\<lbrakk>sys_step conv cfg (mq_sys m) t; q = sy_queue (mq_sys m); enqueue cfg (qm_shards q) x = Inr (ss, True);
      sy_queue t = q\<lparr>qm_shards := ss, qm_accepted := qm_accepted q @ [x]\<rparr>\<rbrakk> \<Longrightarrow>
    met_step conv cfg c m (m\<lparr>mq_sys := t, mq_to_inc := mq_to_inc m + 1\<rparr>)"
| refused: "\<lbrakk>sys_step conv cfg (mq_sys m) t; q = sy_queue (mq_sys m); enqueue cfg (qm_shards q) x = Inr (ss, False);
      sy_queue t = q\<lparr>qm_shards := ss, qm_dropped := qm_dropped q @ [x]\<rparr>\<rbrakk> \<Longrightarrow>
    met_step conv cfg c m (m\<lparr>mq_sys := t, mq_to_drop := mq_to_drop m + 1\<rparr>)"
| count_in: "0 < mq_to_inc m \<Longrightarrow> met_step conv cfg c m (m\<lparr>mq_to_inc := mq_to_inc m - 1,
      mq_metrics := (mq_metrics m)\<lparr>mt_queueLength := mt_queueLength (mq_metrics m) + 1\<rparr>\<rparr>)"
| count_drop: "0 < mq_to_drop m \<Longrightarrow> met_step conv cfg c m (m\<lparr>mq_to_drop := mq_to_drop m - 1,
      mq_metrics := (mq_metrics m)\<lparr>mt_dropped := mt_dropped (mq_metrics m) + 1\<rparr>\<rparr>)"
| count_out: "0 < mq_to_dec m \<Longrightarrow> met_step conv cfg c m (m\<lparr>mq_to_dec := mq_to_dec m - 1,
      mq_metrics := (mq_metrics m)\<lparr>mt_queueLength := mt_queueLength (mq_metrics m) - 1\<rparr>\<rparr>)"
| work: "\<lbrakk>sys_step conv cfg (mq_sys m) t; q = sy_queue (mq_sys m); i < length (qm_shards q);
      shard_step cfg (qm_shards q ! i) sh bs;
      sy_queue t = q\<lparr>qm_shards := (qm_shards q)[i := sh], qm_sent := qm_sent q @ bs\<rparr>\<rbrakk> \<Longrightarrow>
    met_step conv cfg c m (after_sends cfg c w bs
      (m\<lparr>mq_sys := t, mq_to_dec := mq_to_dec m + received (qm_shards q ! i) sh\<rparr>))"
| work_old: "\<lbrakk>sys_step conv cfg (mq_sys m) t; q = sy_queue (mq_sys m); qm_old q = Some old; i < length old;
      shard_step cfg (old ! i) sh bs;
      sy_queue t = q\<lparr>qm_old := Some (old[i := sh]), qm_sent := qm_sent q @ bs\<rparr>\<rbrakk> \<Longrightarrow>
    met_step conv cfg c m (after_sends cfg c w bs
      (m\<lparr>mq_sys := t, mq_to_dec := mq_to_dec m + received (old ! i) sh\<rparr>))"
| reshard: "\<lbrakk>sys_step conv cfg (mq_sys m) t; sy_resharder (mq_sys m) = Received n; q = sy_queue (mq_sys m);
      (sy_queue t, sy_panic t) = (case newShards cfg n of
         Inl p \<Rightarrow> (q, Some p)
       | Inr ss \<Rightarrow> (q\<lparr>qm_shards := ss, qm_old := Some (qm_shards q)\<rparr>, None))\<rbrakk> \<Longrightarrow>
    met_step conv cfg c m (m\<lparr>mq_sys := t, mq_metrics := (mq_metrics m)\<lparr>mt_shards := n\<rparr>\<rparr>)"
| other: "\<lbrakk>sys_step conv cfg (mq_sys m) t; q = sy_queue (mq_sys m);
      qm_accepted (sy_queue t) = qm_accepted q; qm_dropped (sy_queue t) = qm_dropped q; qm_sent (sy_queue t) = qm_sent q;
      buffered (sy_queue t) = buffered q; shards_len (qm_shards (sy_queue t)) = shards_len (qm_shards q)\<rbrakk> \<Longrightarrow>
    met_step conv cfg c m (m\<lparr>mq_sys := t\<rparr>)"

definition met_start :: "QueueManagerConfig \<Rightarrow> metered_queue" where
  "met_start cfg = \<lparr>mq_sys = sys_start cfg, mq_metrics = new_metrics cfg, mq_to_inc = 0, mq_to_drop = 0, mq_to_dec = 0,
     mq_outcomes = []\<rparr>"

section \<open>Where the accepted samples are\<close>

lemma count_of_series: "count (mset (of_series (series_of x) xs)) x = count (mset xs) x"
  by (induction xs) (auto simp: of_series_def)

lemma count_held_of:
  assumes "shards_ok ss"
  shows "count (mset (held_of (series_of x) ss)) x = count (mset (concat (map held ss))) x"
proof (cases "ss = []")
  case True
  then show ?thesis
    by (simp add: held_of_def)
next
  case False
  let ?i = "shard_index (length ss) (series_of x)"
  have i: "?i < length ss"
    using False assms by (intro shard_index_less) (auto simp: shards_ok_def)
  have zero: "count (mset (held (ss ! j))) x = 0" if "j < length ss" "j \<noteq> ?i" for j
    using that assms by (auto simp: shards_ok_def shard_ok_def count_eq_zero_iff)
  have "count (mset (concat (map held ss))) x = (\<Sum>j = 0..<length ss. count (mset (held (ss ! j))) x)"
    by (induction ss rule: rev_induct) (simp_all add: nth_append)
  also have "\<dots> = count (mset (held (ss ! ?i))) x"
    using i zero by (subst sum.remove [of _ ?i]) (auto intro!: sum.neutral)
  also have "\<dots> = count (mset (held_of (series_of x) ss)) x"
    using False count_of_series [of x "held (ss ! ?i)"] by (simp add: held_of_def of_series_def)
  finally show ?thesis
    by simp
qed

text \<open>Every accepted sample was handed to the sending of a batch or is held by a shard.\<close>

lemma accepted_somewhere:
  assumes "qm_inv q"
  shows "mset (qm_accepted q) = mset (concat (qm_sent q)) + mset (concat (map held (old_shards q @ qm_shards q)))"
proof (rule multiset_eqI)
  fix x
  note inv = qm_invD [OF assms]
  have "count (mset (qm_accepted q)) x = count (mset (of_series (series_of x) (qm_accepted q))) x"
    by (simp add: count_of_series)
  also have "\<dots> = count (mset (of_series (series_of x) (concat (qm_sent q)))) x +
      count (mset (held_of (series_of x) (old_shards q))) x + count (mset (held_of (series_of x) (qm_shards q))) x"
    using inv(7) [of "series_of x"] by simp
  finally show "count (mset (qm_accepted q)) x =
      count (mset (concat (qm_sent q)) + mset (concat (map held (old_shards q @ qm_shards q)))) x"
    using count_held_of [OF inv(1)] count_held_of [OF inv(2)] by (simp add: count_of_series)
qed

lemma returned_shard_empty:
  assumes "shards_ok ss" "all_returned ss" "s \<in> set ss"
  shows "held s = []"
proof -
  from assms(3) obtain i where i: "i < length ss" "s = ss ! i"
    by (metis in_set_conv_nth)
  then have "sh_status (ss ! i) = Returned"
    using assms(2,3) by (simp add: all_returned_def list_all_iff)
  then show ?thesis
    using i assms(1) by (simp add: shards_ok_def shard_ok_def)
qed

section \<open>The books\<close>

definition acknowledged :: "metered_queue \<Rightarrow> Sample list list" where
  "acknowledged m = map fst (filter snd (mq_outcomes m))"

definition given_up :: "metered_queue \<Rightarrow> Sample list list" where
  "given_up m = map fst (filter (\<lambda>(b, ok). \<not> ok) (mq_outcomes m))"

lemma outcomes_split:
  "mset (concat (map fst (mq_outcomes m))) = mset (concat (acknowledged m)) + mset (concat (given_up m))"
proof -
  have "mset (concat (map fst rs)) =
      mset (concat (map fst (filter snd rs))) + mset (concat (map fst (filter (\<lambda>(b, ok). \<not> ok) rs)))"
    for rs :: "(Sample list \<times> bool) list"
  proof (induction rs)
    case (Cons r rs)
    then show ?case
      by (cases r; cases "snd r") (simp_all add: ac_simps)
  qed simp
  then show ?thesis
    unfolding acknowledged_def given_up_def .
qed

lemma send_loop_counts:
  "sr_succeeded (send_loop cfg store b n d w) = (if sr_failed (send_loop cfg store b n d w) = 0 then length b else 0) \<and>
   sr_failed (send_loop cfg store b n d w) \<in> {0, length b}"
  by (induction cfg store b n d w rule: send_loop.induct)
    (auto simp: Let_def split: prod.splits option.splits store_error.splits)

lemma send_loop_acknowledged:
  "sr_failed (send_loop cfg (endpoint_store c) b n d w) = 0 \<Longrightarrow> b \<noteq> [] \<Longrightarrow> \<exists>env. client_Store env c b = None"
proof (induction n arbitrary: d w)
  case (Suc n)
  show ?case
  proof (cases "client_Store (w 0) c b")
    case (Some e)
    then show ?thesis
      using Suc by (cases e) (auto simp: endpoint_store_def Let_def)
  qed blast
qed simp

lemma count_sends_eq:
  "count_sends (send_batches cfg store bs w) mt = mt
    \<lparr>mt_succeeded := mt_succeeded mt + length (concat (map fst (filter snd (outcomes (send_batches cfg store bs w))))),
     mt_failed := mt_failed mt + length (concat (map fst (filter (\<lambda>(b, ok). \<not> ok) (outcomes (send_batches cfg store bs w))))),
     mt_sentBatches := mt_sentBatches mt + sum_list (map (\<lambda>(b, r). sr_attempts r) (send_batches cfg store bs w))\<rparr>"
proof (induction bs arbitrary: w mt)
  case (Cons b bs)
  let ?r = "sendSamplesWithBackoff cfg store b w"
  have r: "sr_succeeded ?r = (if sr_failed ?r = 0 then length b else 0)" "sr_failed ?r = 0 \<or> sr_failed ?r = length b"
    using send_loop_counts [of cfg store b _ _ w] by (simp_all add: sendSamplesWithBackoff_def)
  have "count_sends (send_batches cfg store (b # bs) w) mt = count_sends (send_batches cfg store bs (sr_world ?r))
      (mt\<lparr>mt_succeeded := mt_succeeded mt + sr_succeeded ?r, mt_failed := mt_failed mt + sr_failed ?r,
          mt_sentBatches := mt_sentBatches mt + sr_attempts ?r\<rparr>)"
    by (simp add: count_sends_def Let_def)
  then show ?case
    using r by (auto simp: Cons.IH outcomes_def Let_def)
qed (simp add: count_sends_def outcomes_def)

lemma outcomes_batches: "map fst (outcomes (send_batches cfg store bs w)) = bs"
  by (induction bs arbitrary: w) (auto simp: outcomes_def Let_def)

lemma outcomes_acknowledged:
  "(b, True) \<in> set (outcomes (send_batches cfg (endpoint_store c) bs w)) \<Longrightarrow> b \<noteq> [] \<Longrightarrow> \<exists>env. client_Store env c b = None"
proof (induction bs arbitrary: w)
  case (Cons b' bs)
  let ?r = "sendSamplesWithBackoff cfg (endpoint_store c) b' w"
  have "b = b' \<and> sr_failed ?r = 0 \<or> (b, True) \<in> set (outcomes (send_batches cfg (endpoint_store c) bs (sr_world ?r)))"
    using Cons.prems(1) by (simp add: outcomes_def Let_def)
  then show ?case
    using Cons.IH Cons.prems(2) send_loop_acknowledged by (metis sendSamplesWithBackoff_def)
qed (simp add: outcomes_def)

lemma outcomes_acknowledged_batch:
  assumes "(b, True) \<in> set (outcomes (send_batches cfg (endpoint_store c) bs w))" "[] \<notin> set bs"
  shows "\<exists>env. client_Store env c b = None"
proof -
  have "b \<in> set (map fst (outcomes (send_batches cfg (endpoint_store c) bs w)))"
    using assms(1) by force
  then show ?thesis
    using assms outcomes_acknowledged by (metis outcomes_batches)
qed

lemma buffered_update:
  assumes "i < length ss" "length (sh_queue sh) \<le> length (sh_queue (ss ! i))"
  shows "sum_list (map (\<lambda>s. length (sh_queue s)) (ss[i := sh])) + received (ss ! i) sh =
    sum_list (map (\<lambda>s. length (sh_queue s)) ss)"
proof -
  have "length (sh_queue (ss ! i)) \<le> sum_list (map (\<lambda>s. length (sh_queue s)) ss)"
    using assms(1) elem_le_sum_list [of i "map (\<lambda>s. length (sh_queue s)) ss"] by simp
  then show ?thesis
    using assms by (simp add: map_update sum_list_update received_def)
qed

lemma shard_step_queue:
  assumes "shard_step cfg s s' bs"
  shows "length (sh_queue s') \<le> length (sh_queue s)"
  using assms
proof (cases rule: shard_step.cases)
  case receive
  from receive(3,2) obtain x xs rest where "sh_queue s = x # xs" "s' = s\<lparr>sh_queue := xs, sh_pending := rest\<rparr>"
    by (rule shard_receive_cases)
  then show ?thesis
    by simp
qed (auto simp: shard_deadline_def shard_finish_def)

lemma shard_step_batches:
  assumes "shard_step cfg s s' bs" "0 < MaxSamplesPerSend cfg"
  shows "[] \<notin> set bs"
  using assms(1)
proof (cases rule: shard_step.cases)
  case receive
  from receive(3,2) obtain x xs rest where
      "batch_loop (MaxSamplesPerSend cfg) (sh_pending s @ [x]) = Some (Inr (bs, rest))"
    by (rule shard_receive_cases)
  then show ?thesis
    using batch_loop_ends [OF assms(2), of "sh_pending s @ [x]"] assms(2) by (auto simp: list_all_iff)
qed (auto simp: shard_deadline_def shard_finish_def flush_def split: if_splits)

lemma enqueue_buffered:
  assumes "enqueue cfg ss x = Inr (ss', ok)" "length ss < 2 ^ 64"
  shows "sum_list (map (\<lambda>s. length (sh_queue s)) ss') =
    sum_list (map (\<lambda>s. length (sh_queue s)) ss) + (if ok then 1 else 0)"
proof -
  let ?i = "shard_index (length ss) (series_of x)"
  have "?i < length ss \<and> length (sh_queue (ss ! ?i)) \<le> sum_list (map (\<lambda>s. length (sh_queue s)) ss)" if "ss \<noteq> []"
    using that assms(2) shard_index_less [of "length ss" "series_of x"] elem_le_sum_list [of ?i "map (\<lambda>s. length (sh_queue s)) ss"]
    by simp
  then show ?thesis
    using assms by (auto simp: enqueue_def Let_def map_update sum_list_update split: if_splits)
qed

definition books :: "QueueManagerConfig \<Rightarrow> 'h Client \<Rightarrow> metered_queue \<Rightarrow> bool" where
  "books cfg c m \<longleftrightarrow> (let q = sy_queue (mq_sys m); mt = mq_metrics m in
     mt_queueLength mt + int (mq_to_inc m) = int (buffered q) + int (mq_to_dec m) \<and>
     mt_dropped mt + mq_to_drop m = length (qm_dropped q) \<and>
     map fst (mq_outcomes m) = qm_sent q \<and>
     mt_succeeded mt = length (concat (acknowledged m)) \<and> mt_failed mt = length (concat (given_up m)) \<and>
     (sy_panic (mq_sys m) = None \<longrightarrow> mt_shards mt = shards_len (qm_shards q)) \<and>
     mt_queueCapacity mt = QueueCapacity cfg \<and>
     (\<forall>b. (b, True) \<in> set (mq_outcomes m) \<longrightarrow> (\<exists>env. client_Store env c b = None)))"

lemma sys_step_alive: "sys_step conv cfg s t \<Longrightarrow> sy_panic s = None"
  by (cases rule: sys_step.cases)

lemma books_sends:
  assumes "books cfg c m" "sy_panic s = None \<Longrightarrow> sy_panic (mq_sys m) = None" "[] \<notin> set bs"
    and "qm_sent (sy_queue s) = qm_sent (sy_queue (mq_sys m)) @ bs"
    and "qm_dropped (sy_queue s) = qm_dropped (sy_queue (mq_sys m))"
    and "buffered (sy_queue s) + n = buffered (sy_queue (mq_sys m))"
    and "shards_len (qm_shards (sy_queue s)) = shards_len (qm_shards (sy_queue (mq_sys m)))"
  shows "books cfg c (after_sends cfg c w bs (m\<lparr>mq_sys := s, mq_to_dec := mq_to_dec m + n\<rparr>))"
proof -
  let ?o = "outcomes (send_batches cfg (endpoint_store c) bs w)"
  have "acknowledged (after_sends cfg c w bs (m\<lparr>mq_sys := s, mq_to_dec := mq_to_dec m + n\<rparr>)) = acknowledged m @ map fst (filter snd ?o)"
    "given_up (after_sends cfg c w bs (m\<lparr>mq_sys := s, mq_to_dec := mq_to_dec m + n\<rparr>)) = given_up m @ map fst (filter (\<lambda>(b, ok). \<not> ok) ?o)"
    by (simp_all add: acknowledged_def given_up_def after_sends_def Let_def)
  then show ?thesis
    using assms outcomes_batches [of cfg "endpoint_store c" bs w] outcomes_acknowledged_batch [OF _ assms(3), of _ cfg c w]
    by (auto simp: books_def Let_def after_sends_def count_sends_eq)
qed

lemma books_system:
  assumes "books cfg c m" "sys_step conv cfg (mq_sys m) t"
    and "qm_sent (sy_queue t) = qm_sent (sy_queue (mq_sys m))"
    and "length (qm_dropped (sy_queue t)) = length (qm_dropped (sy_queue (mq_sys m))) + d"
    and "buffered (sy_queue t) = buffered (sy_queue (mq_sys m)) + n"
    and "shards_len (qm_shards (sy_queue t)) = shards_len (qm_shards (sy_queue (mq_sys m)))"
  shows "books cfg c (m\<lparr>mq_sys := t, mq_to_inc := mq_to_inc m + n, mq_to_drop := mq_to_drop m + d\<rparr>)"
  using assms sys_step_alive [OF assms(2)]
  by (auto simp: books_def Let_def acknowledged_def given_up_def)

lemma books_step:
  assumes "met_step conv cfg c m m'" "books cfg c m" "loop_inv cfg (mq_sys m)" "qm_inv (sy_queue (mq_sys m))"
    and "0 < MaxSamplesPerSend cfg"
  shows "books cfg c m'"
  using assms(1)
proof (cases rule: met_step.cases)
  case (accepted t q x ss)
  have "length (qm_shards q) < 2 ^ 64"
    using assms(4) accepted(3) by (simp add: qm_inv_def shards_ok_def)
  from enqueue_buffered [OF accepted(4) this] have "buffered (sy_queue t) = buffered q + 1"
    using accepted(5) by (simp add: buffered_def old_shards_def)
  then show ?thesis
    using books_system [OF assms(2) accepted(2), of 0 1] accepted enqueue_len [OF accepted(4)] by simp
next
  case (refused t q x ss)
  have "length (qm_shards q) < 2 ^ 64"
    using assms(4) refused(3) by (simp add: qm_inv_def shards_ok_def)
  from enqueue_buffered [OF refused(4) this] have "buffered (sy_queue t) = buffered q"
    using refused(5) by (simp add: buffered_def old_shards_def)
  then show ?thesis
    using books_system [OF assms(2) refused(2), of 1 0] refused enqueue_len [OF refused(4)] by simp
next
  case count_in
  then show ?thesis
    using assms(2) by (auto simp: books_def Let_def acknowledged_def given_up_def)
next
  case count_drop
  then show ?thesis
    using assms(2) by (auto simp: books_def Let_def acknowledged_def given_up_def)
next
  case count_out
  then show ?thesis
    using assms(2) by (auto simp: books_def Let_def acknowledged_def given_up_def)
next
  case (work t q i sh bs w)
  have "buffered (sy_queue t) + received (qm_shards q ! i) sh = buffered q"
    using work(6) buffered_update [OF work(4) shard_step_queue [OF work(5)]] by (simp add: buffered_def old_shards_def)
  then show ?thesis
    using work sys_step_alive [OF work(2)] shard_step_batches [OF work(5) assms(5)] by (auto intro!: books_sends [OF assms(2)])
next
  case (work_old t q old i sh bs w)
  have "buffered (sy_queue t) + received (old ! i) sh = buffered q"
    using work_old(4,7) buffered_update [OF work_old(5) shard_step_queue [OF work_old(6)]] by (simp add: buffered_def old_shards_def)
  then show ?thesis
    using work_old sys_step_alive [OF work_old(2)] shard_step_batches [OF work_old(6) assms(5)] by (auto intro!: books_sends [OF assms(2)])
next
  case (reshard t n q)
  show ?thesis
  proof (cases "newShards cfg n")
    case (Inl p)
    then show ?thesis
      using reshard assms(2) by (auto simp: books_def Let_def acknowledged_def given_up_def)
  next
    case (Inr ss)
    have "qm_old q = None"
      using reshard(3,4) assms(3) by (auto simp: loop_inv_def)
    moreover have "ss = replicate (nat n) new_shard"
      using Inr by (auto simp: newShards_def split: if_splits)
    then have "(\<Sum>s\<leftarrow>ss. length (sh_queue s)) = 0"
      by (simp add: new_shard_def)
    ultimately have "buffered (sy_queue t) = buffered q"
      using reshard(5) Inr by (simp add: buffered_def old_shards_def)
    then show ?thesis
      using reshard assms(2) Inr newShards_len [OF Inr] by (auto simp: books_def Let_def acknowledged_def given_up_def)
  qed
next
  case (other t q)
  then show ?thesis
    using books_system [OF assms(2) other(2), of 0 0] by simp
qed

lemma met_step_system:
  assumes "met_step conv cfg c m m'"
  shows "mq_sys m' = mq_sys m \<or> sys_step conv cfg (mq_sys m) (mq_sys m')"
  using assms by (cases rule: met_step.cases) (simp_all add: after_sends_def Let_def)

lemma metered_system:
  "(met_step conv cfg c)\<^sup>*\<^sup>* (met_start cfg) m \<Longrightarrow> (sys_step conv cfg)\<^sup>*\<^sup>* (sys_start cfg) (mq_sys m)"
proof (induction rule: rtranclp_induct)
  case (step m m')
  then show ?case
    using met_step_system [OF step(2)] by (metis rtranclp.rtrancl_into_rtrancl)
qed (simp add: met_start_def)

lemma books_start: "books cfg c (met_start cfg)"
  by (simp add: books_def met_start_def new_metrics_def Let_def sys_start_def qm_start_def buffered_def old_shards_def
      shards_start_def new_shard_def shards_len_def acknowledged_def given_up_def)

lemma books_reachable:
  assumes "\<And>x. int64 (conv x)" "int64 (MaxShards cfg)" "0 < MaxSamplesPerSend cfg"
    and "(met_step conv cfg c)\<^sup>*\<^sup>* (met_start cfg) m"
  shows "books cfg c m"
  using assms(4)
proof (induction rule: rtranclp_induct)
  case base
  then show ?case
    by (rule books_start)
next
  case (step m m')
  note s = metered_system [OF step(1)]
  show ?case
    by (rule books_step [OF step(2,3) loop_inv_reachable [OF s assms(1,2)] sys_queue_inv [OF assms(1,2,3) s] assms(3)])
qed

text \<open>The books say nothing of steps that the metered queue manager cannot make: it makes all steps of the unmetered one.\<close>

lemma met_step_total:
  assumes "sys_step conv cfg (mq_sys m) t" "loop_inv cfg (mq_sys m)" "qm_inv (sy_queue (mq_sys m))"
  shows "\<exists>m'. met_step conv cfg c m m' \<and> mq_sys m' = t"
  using assms(1)
proof (cases rule: sys_step.cases)
  case (append q x ss ok)
  then show ?thesis
    using met_step.accepted [OF assms(1), of _ x ss c] met_step.refused [OF assms(1), of _ x ss c]
    by (cases ok) fastforce+
next
  case (work q i sh bs ds)
  then show ?thesis
    using met_step.work [OF assms(1), of _ i sh bs c] by (fastforce simp: after_sends_def Let_def)
next
  case (work_old q old i sh bs ds)
  then show ?thesis
    using met_step.work_old [OF assms(1), of _ old i sh bs c] by (fastforce simp: after_sends_def Let_def)
next
  case (reshard_begin q n ss)
  then show ?thesis
    using met_step.reshard [OF assms(1), of n q c] by (fastforce)
next
  case (reshard_panic n p)
  then show ?thesis
    using met_step.reshard [OF assms(1), of n "sy_queue (mq_sys m)" c] by fastforce
next
  case (close_old q old i)
  have "(\<Sum>s\<leftarrow>close_shard_of old i. length (sh_queue s)) = (\<Sum>s\<leftarrow>old. length (sh_queue s))"
    using close_old(5) elem_le_sum_list [of i "map (\<lambda>s. length (sh_queue s)) old"]
    by (simp add: close_shard_of_def map_update sum_list_update)
  then show ?thesis
    using close_old met_step.other [OF assms(1), of q c] by (fastforce simp: buffered_def old_shards_def)
next
  case (stop_close q i)
  have "(\<Sum>s\<leftarrow>close_shard_of (qm_shards q) i. length (sh_queue s)) = (\<Sum>s\<leftarrow>qm_shards q. length (sh_queue s))"
    using stop_close(5) elem_le_sum_list [of i "map (\<lambda>s. length (sh_queue s)) (qm_shards q)"]
    by (simp add: close_shard_of_def map_update sum_list_update)
  then show ?thesis
    using stop_close met_step.other [OF assms(1), of q c] by (fastforce simp: buffered_def old_shards_def)
next
  case (reshard_end q old)
  have "held s = []" if "s \<in> set old" for s
    using that returned_shard_empty [OF qm_invD(2) [OF assms(3)]] reshard_end(3,5,6) by (simp add: old_shards_def)
  then have "(\<Sum>s\<leftarrow>old. length (sh_queue s)) = 0"
    by (auto simp: held_def)
  then have "buffered (sy_queue t) = buffered q"
    using reshard_end by (simp add: buffered_def old_shards_def shards_start_def comp_def)
  then have "met_step conv cfg c m (m\<lparr>mq_sys := t\<rparr>)"
    using reshard_end(1,3) by (intro met_step.other [OF assms(1) refl]) simp_all
  then show ?thesis
    by (intro exI [of _ "m\<lparr>mq_sys := t\<rparr>"]) simp
next
  case (tick c' req)
  then show ?thesis
    using met_step.other [OF assms(1) refl, of c] by fastforce
qed (use met_step.other [OF assms(1) refl, of c] in \<open>fastforce simp: buffered_def old_shards_def\<close>)+

lemma metered_run:
  assumes "\<And>x. int64 (conv x)" "int64 (MaxShards cfg)" "0 < MaxSamplesPerSend cfg"
    and "(sys_step conv cfg)\<^sup>*\<^sup>* (sys_start cfg) s"
  shows "\<exists>m. (met_step conv cfg c)\<^sup>*\<^sup>* (met_start cfg) m \<and> mq_sys m = s"
  using assms(4)
proof (induction rule: rtranclp_induct)
  case base
  have "mq_sys (met_start cfg) = sys_start cfg"
    by (simp add: met_start_def)
  then show ?case
    by blast
next
  case (step s t)
  then obtain m where m: "(met_step conv cfg c)\<^sup>*\<^sup>* (met_start cfg) m" "mq_sys m = s"
    by blast
  obtain m' where m': "met_step conv cfg c m m'" "mq_sys m' = t"
    using met_step_total [of conv cfg m t c] m(2) step(2) loop_inv_reachable [OF step(1) assms(1,2)]
      sys_queue_inv [OF assms(1,2,3) step(1)] by auto
  show ?case
    using rtranclp.rtrancl_into_rtrancl [OF m(1) m'(1)] m'(2) by blast
qed

section \<open>What the books say\<close>


text \<open>A batch that reached the endpoint: a POST of the batch to the URL of the client that was answered with a 2xx status.\<close>

definition delivered :: "'h Client \<Rightarrow> Sample list \<Rightarrow> bool" where
  "delivered c b \<longleftrightarrow> (\<exists>env data resp. se_marshal env (write_request b) = Inr data \<and>
     se_do env (c_client c) (c_timeout c) (store_request env c data) = Inr resp \<and> go_div (rs_StatusCode resp) 100 = 2)"

lemma client_Store_None: "client_Store env c b = None \<Longrightarrow> delivered c b"
  by (auto simp: client_Store_def delivered_def store_request_def status_error_def
      split: sum.splits option.splits if_splits)


section \<open>Runs\<close>

lemma ex_receive: "shard_step ex_cfg (ex_shard [x] False Started) (ex_shard [] False Started) [[x]]"
  by (rule shard_step.receive) (simp_all add: ex_shard_def shard_receive_def ex_batch)

definition ex_sent :: "bool \<Rightarrow> shard \<Rightarrow> Sample \<Rightarrow> shard_system" where
  "ex_sent stop sh x = (ex_sys stop sh [x])\<lparr>sy_queue := ex_qm [sh] stop [[x]] [x],
     sy_counters := count_batches [[x]] [0] (enqueue_count (new_counters ex_cfg))\<rparr>"

lemma ex_sys_sent:
  "sys_step (\<lambda>_. 0) ex_cfg ((ex_sys False (ex_shard [x] False Started) [x])\<lparr>sy_counters := enqueue_count (new_counters ex_cfg)\<rparr>)
     (ex_sent False (ex_shard [] False Started) x)"
  using sys_step.work [of "(ex_sys False (ex_shard [x] False Started) [x])\<lparr>sy_counters := enqueue_count (new_counters ex_cfg)\<rparr>"
      _ 0 ex_cfg "ex_shard [] False Started" "[[x]]" "[0]" "\<lambda>_. 0", OF _ refl] ex_receive [of x]
  by (simp add: ex_sys_def ex_sent_def ex_qm_def)

lemma ex_sys_sent_stopped: "(sys_step (\<lambda>_. 0) ex_cfg)\<^sup>*\<^sup>* (sys_start ex_cfg) (ex_sent True (ex_shard [] True Returned) x)"
proof -
  let ?R = "(sys_step (\<lambda>_. 0) ex_cfg)\<^sup>*\<^sup>*"
  have 1: "?R (sys_start ex_cfg) (ex_sent False (ex_shard [] False Started) x)"
    using ex_sys_append [of x] ex_sys_sent [of x] by (meson r_into_rtranclp rtranclp.rtrancl_into_rtrancl)
  have 2: "?R (ex_sent False (ex_shard [] False Started) x) (ex_sent True (ex_shard [] False Started) x)"
    using reaches_stop [of "ex_sent False (ex_shard [] False Started) x" "\<lambda>_. 0" ex_cfg]
    by (simp add: ex_sent_def ex_sys_def ex_qm_def)
  have 3: "sys_step (\<lambda>_. 0) ex_cfg (ex_sent True (ex_shard [] False Started) x) (ex_sent True (ex_shard [] True Started) x)"
    using sys_step.stop_close [of "ex_sent True (ex_shard [] False Started) x" _ 0 "\<lambda>_. 0" ex_cfg, OF _ refl]
    by (simp add: ex_sent_def ex_sys_def ex_qm_def close_shard_of_def ex_shard_def)
  have "shard_step ex_cfg (ex_shard [] True Started) (ex_shard [] True Returned) []"
    by (rule shard_step.finish) (simp_all add: ex_shard_def shard_finish_def flush_def)
  then have 4: "sys_step (\<lambda>_. 0) ex_cfg (ex_sent True (ex_shard [] True Started) x) (ex_sent True (ex_shard [] True Returned) x)"
    using sys_step.work [of "ex_sent True (ex_shard [] True Started) x" _ 0 ex_cfg "ex_shard [] True Returned" "[]" "[]" "\<lambda>_. 0", OF _ refl]
    by (simp add: ex_sent_def ex_sys_def ex_qm_def count_batches_def)
  from 1 2 have "?R (sys_start ex_cfg) (ex_sent True (ex_shard [] False Started) x)"
    by (rule rtranclp_trans)
  from this 3 have "?R (sys_start ex_cfg) (ex_sent True (ex_shard [] True Started) x)"
    by (rule rtranclp.rtrancl_into_rtrancl)
  from this 4 show ?thesis
    by (rule rtranclp.rtrancl_into_rtrancl)
qed

text \<open>A queue manager that has accepted one sample, has sent it and is stopped.\<close>

lemma ex_metered_stopped:
  "\<exists>m. (met_step (\<lambda>_. 0) ex_cfg c)\<^sup>*\<^sup>* (met_start ex_cfg) m \<and> mq_sys m = ex_sent True (ex_shard [] True Returned) x"
  using metered_run [OF _ ex_int64(1) _ ex_sys_sent_stopped] ex_int64(2) by simp



text \<open>\<open>Append\<close> counts after it has released the lock, so the shard may count first: the length gauge can be \<open>-1\<close>.\<close>

lemma queue_length_negative:
  "\<exists>m. (met_step (\<lambda>_. 0) ex_cfg ex_client)\<^sup>*\<^sup>* (met_start ex_cfg) m \<and> mt_queueLength (mq_metrics m) = - 1"
proof -
  let ?x = "ex_sample 1"
  let ?M = "met_step (\<lambda>_. 0) ex_cfg ex_client"
  let ?s1 = "(ex_sys False (ex_shard [?x] False Started) [?x])\<lparr>sy_counters := enqueue_count (new_counters ex_cfg)\<rparr>"
  let ?m1 = "(met_start ex_cfg)\<lparr>mq_sys := ?s1, mq_to_inc := 1\<rparr>"
  have 1: "?M (met_start ex_cfg) ?m1"
    using met_step.accepted [of "\<lambda>_. 0" ex_cfg "met_start ex_cfg" ?s1 _ ?x "[ex_shard [?x] False Started]" ex_client, OF _ refl]
      ex_sys_append [of ?x]
    by (simp add: met_start_def ex_sys_start) (simp add: ex_sys_def ex_qm_def enqueue_def ex_shard_def)
  let ?m2 = "after_sends ex_cfg ex_client (\<lambda>_. ex_store_env 200) [[?x]]
    (?m1\<lparr>mq_sys := ex_sent False (ex_shard [] False Started) ?x, mq_to_dec := 1\<rparr>)"
  have 2: "?M ?m1 ?m2"
    using met_step.work [of "\<lambda>_. 0" ex_cfg ?m1 "ex_sent False (ex_shard [] False Started) ?x" _ 0
        "ex_shard [] False Started" "[[?x]]" ex_client "\<lambda>_. ex_store_env 200", OF _ refl] ex_sys_sent [of ?x] ex_receive [of ?x]
    by (simp add: met_start_def) (simp add: ex_sys_def ex_sent_def ex_qm_def received_def ex_shard_def)
  let ?m3 = "?m2\<lparr>mq_to_dec := 0, mq_metrics := (mq_metrics ?m2)\<lparr>mt_queueLength := mt_queueLength (mq_metrics ?m2) - 1\<rparr>\<rparr>"
  have "mq_to_dec ?m2 = 1"
    by (simp add: after_sends_def Let_def)
  then have 3: "?M ?m2 ?m3"
    using met_step.count_out [of ?m2 "\<lambda>_. 0" ex_cfg ex_client] by simp
  have "mt_queueLength (mq_metrics ?m3) = - 1"
    by (simp add: after_sends_def Let_def count_sends_def met_start_def new_metrics_def)
  moreover have "?M\<^sup>*\<^sup>* (met_start ex_cfg) ?m3"
    using 1 2 3 by (meson r_into_rtranclp rtranclp.rtrancl_into_rtrancl)
  ultimately show ?thesis
    by blast
qed

end
