(* ===== verification/Ewma_Race.thy ===== *)
theory Ewma_Race
  imports Shard_Count
begin

text \<open>
  Moving averages used concurrently (\<open>src/storage/remote/ewma.go\<close>): appenders and shards count events while the update
  loop ticks. \<open>tick\<close> is not atomic: it loads the counter, subtracts what it loaded, and then updates the rate under
  its mutex. This theory shows that it may be taken as atomic, at the moment of the load, as \<open>Shard_Count\<close> and
  \<open>Shard_Loop\<close> do: no event is lost or counted twice.
\<close>

section \<open>The model\<close>

text \<open>Where the update loop is in \<open>tick\<close>, with the number it has loaded.\<close>

datatype tick_pc = Not_Ticking | Loaded int | Subtracted int

record shared_rate =
  sr_rate :: ewmaRate
  sr_pc :: tick_pc

datatype rate_event = Incremented int | Ticked

definition tick_rate :: "int \<Rightarrow> ewmaRate \<Rightarrow> ewmaRate" where
  "tick_rate newEvents r =
    (let instantRate = f_div (f_of_int newEvents) (duration_Seconds (ew_interval r)) in
     if ew_init r
     then r\<lparr>ew_lastRate := f_add (ew_lastRate r) (f_mul (ew_alpha r) (f_sub instantRate (ew_lastRate r)))\<rparr>
     else r\<lparr>ew_init := True, ew_lastRate := instantRate\<rparr>)"

text \<open>The event of a step is the operation that has taken effect, if any.\<close>

inductive rate_step :: "shared_rate \<Rightarrow> rate_event option \<Rightarrow> shared_rate \<Rightarrow> bool" where
  incr: "rate_step s (Some (Incremented n)) (s\<lparr>sr_rate := ewma_incr n (sr_rate s)\<rparr>)"
| load: "sr_pc s = Not_Ticking \<Longrightarrow> rate_step s (Some Ticked) (s\<lparr>sr_pc := Loaded (ew_newEvents (sr_rate s))\<rparr>)"
| subtract: "sr_pc s = Loaded n \<Longrightarrow>
    rate_step s None (s\<lparr>sr_rate := ewma_incr (wrap64 (- n)) (sr_rate s), sr_pc := Subtracted n\<rparr>)"
| update: "sr_pc s = Subtracted n \<Longrightarrow>
    rate_step s None (s\<lparr>sr_rate := tick_rate n (sr_rate s), sr_pc := Not_Ticking\<rparr>)"

inductive rate_run :: "ewmaRate \<Rightarrow> rate_event list \<Rightarrow> shared_rate \<Rightarrow> bool" for r where
  start: "rate_run r [] \<lparr>sr_rate = r, sr_pc = Not_Ticking\<rparr>"
| silent: "rate_run r es s \<Longrightarrow> rate_step s None t \<Longrightarrow> rate_run r es t"
| event: "rate_run r es s \<Longrightarrow> rate_step s (Some e) t \<Longrightarrow> rate_run r (es @ [e]) t"

section \<open>Atomic operations\<close>

definition atomic_event :: "ewmaRate \<Rightarrow> rate_event \<Rightarrow> ewmaRate" where
  "atomic_event r e = (case e of Incremented n \<Rightarrow> ewma_incr n r | Ticked \<Rightarrow> ewma_tick r)"

text \<open>The moving average when the tick under way is finished.\<close>

definition settled :: "shared_rate \<Rightarrow> ewmaRate" where
  "settled s = (case sr_pc s of
     Not_Ticking \<Rightarrow> sr_rate s
   | Loaded n \<Rightarrow> tick_rate n (ewma_incr (wrap64 (- n)) (sr_rate s))
   | Subtracted n \<Rightarrow> tick_rate n (sr_rate s))"

lemma ewma_tick_eq: "ewma_tick r = tick_rate (ew_newEvents r) (ewma_incr (wrap64 (- ew_newEvents r)) r)"
  by (simp add: ewma_tick_def tick_rate_def ewma_incr_def Let_def)

lemma incr_swap: "ewma_incr a (ewma_incr b r) = ewma_incr b (ewma_incr a r)"
proof -
  have "wrap64 (wrap64 (x + b) + a) = wrap64 (wrap64 (x + a) + b)" for x
    using wrap64_add_left [of "x + b" a] wrap64_add_left [of "x + a" b] by (simp add: algebra_simps)
  then show ?thesis
    by (simp add: ewma_incr_def)
qed

lemma incr_tick: "ewma_incr a (tick_rate n r) = tick_rate n (ewma_incr a r)"
  by (simp add: ewma_incr_def tick_rate_def Let_def)

lemma rate_step_settled:
  "rate_step s e t \<Longrightarrow> settled t = (case e of None \<Rightarrow> settled s | Some x \<Rightarrow> atomic_event (settled s) x)"
proof (induction rule: rate_step.induct)
  case (incr s n)
  then show ?case
    using incr_swap [of _ n "sr_rate s"] by (simp add: settled_def atomic_event_def incr_tick split: tick_pc.split)
qed (simp_all add: settled_def atomic_event_def ewma_tick_eq)

text \<open>Ticking may be taken as atomic: after any interleaving of counted events with the three accesses of \<open>tick\<close>,
  the moving average is, once the tick under way is finished, the one that the same operations give one after the other,
  a tick taking place when it loads the counter.\<close>

theorem rate_run_atomic:
  assumes "rate_run r es s"
  shows "settled s = foldl atomic_event r es"
  using assms
  by (induction rule: rate_run.induct) (simp_all add: rate_step_settled, simp add: settled_def)

theorem rate_run_atomic_witness:
  "settled \<lparr>sr_rate = ewma_incr 5 (newEWMARate ewmaWeight shardUpdateDuration), sr_pc = Loaded 0\<rparr> =
     ewma_incr 5 (ewma_tick (newEWMARate ewmaWeight shardUpdateDuration))"
proof -
  let ?r = "newEWMARate ewmaWeight shardUpdateDuration"
  let ?s = "\<lparr>sr_rate = ?r, sr_pc = Not_Ticking\<rparr>"
  have "rate_step ?s (Some Ticked) (?s\<lparr>sr_pc := Loaded (ew_newEvents (sr_rate ?s))\<rparr>)"
    by (rule rate_step.load) simp
  then have "rate_run ?r ([] @ [Ticked]) \<lparr>sr_rate = ?r, sr_pc = Loaded 0\<rparr>"
    by (intro rate_run.event [OF rate_run.start]) (simp add: newEWMARate_def)
  then have "rate_run ?r (([] @ [Ticked]) @ [Incremented 5]) (\<lparr>sr_rate = ?r, sr_pc = Loaded 0\<rparr>
      \<lparr>sr_rate := ewma_incr 5 (sr_rate \<lparr>sr_rate = ?r, sr_pc = Loaded 0\<rparr>)\<rparr>)"
    by (rule rate_run.event) (rule rate_step.incr)
  then have "rate_run ?r [Ticked, Incremented 5] \<lparr>sr_rate = ewma_incr 5 ?r, sr_pc = Loaded 0\<rparr>"
    by simp
  from rate_run_atomic [OF this] show ?thesis
    by (simp add: atomic_event_def)
qed

end
