(* ===== verification/Sample_Appender.thy ===== *)
theory Sample_Appender
  imports Model_Types
begin

text \<open>
  The interface through which samples are stored, and the fan-out of samples over several storages
  (\<open>src/storage/storage.go\<close>). An appender acts on the state of all storage; its result is the error and the new state.

  The locale is the contract of the appenders that drop samples rather than ask their callers to wait: they report no
  errors and never ask for throttling. It holds of a fan-out over such appenders.
\<close>

record ('s, 'e) SampleAppender =
  sa_Append :: "Sample \<Rightarrow> 's \<Rightarrow> 'e option \<times> 's"
  sa_NeedsThrottling :: "'s \<Rightarrow> bool"

type_synonym ('s, 'e) Fanout = "('s, 'e) SampleAppender list"

fun fanout_loop :: "('s, 'e) Fanout \<Rightarrow> Sample \<Rightarrow> 'e option \<Rightarrow> 's \<Rightarrow> 'e option \<times> 's" where
  "fanout_loop [] s err st = (err, st)"
| "fanout_loop (a # f) s err st = (case sa_Append a s st of
       (e, st') \<Rightarrow> fanout_loop f s (if e \<noteq> None \<and> err = None then e else err) st')"

definition fanout_Append :: "('s, 'e) Fanout \<Rightarrow> Sample \<Rightarrow> 's \<Rightarrow> 'e option \<times> 's" where
  "fanout_Append f s st = fanout_loop f s None st"

fun fanout_NeedsThrottling :: "('s, 'e) Fanout \<Rightarrow> 's \<Rightarrow> bool" where
  "fanout_NeedsThrottling [] st = False"
| "fanout_NeedsThrottling (a # f) st = (if sa_NeedsThrottling a st then True else fanout_NeedsThrottling f st)"

definition fanout_appender :: "('s, 'e) Fanout \<Rightarrow> ('s, 'e) SampleAppender" where
  "fanout_appender f = \<lparr>sa_Append = fanout_Append f, sa_NeedsThrottling = fanout_NeedsThrottling f\<rparr>"

text \<open>The errors of the appenders, each in the state the ones before it left.\<close>

fun fanout_errors :: "('s, 'e) Fanout \<Rightarrow> Sample \<Rightarrow> 's \<Rightarrow> 'e list" where
  "fanout_errors [] s st = []"
| "fanout_errors (a # f) s st = (case sa_Append a s st of
     (e, st') \<Rightarrow> (case e of None \<Rightarrow> [] | Some x \<Rightarrow> [x]) @ fanout_errors f s st')"

lemma fanout_loop_spec:
  "fanout_loop f s err st =
     ((case err of Some e \<Rightarrow> Some e | None \<Rightarrow> (case fanout_errors f s st of [] \<Rightarrow> None | e # _ \<Rightarrow> Some e)),
      foldl (\<lambda>st a. snd (sa_Append a s st)) st f)"
  by (induction f arbitrary: err st) (auto split: prod.split option.split)

lemma fanout_throttled: "fanout_NeedsThrottling f st \<longleftrightarrow> list_ex (\<lambda>a. sa_NeedsThrottling a st) f"
  by (induction f) auto

text \<open>The fan-out gives the sample to every appender, in order and each in the state the one before it left, even
  after an error, and returns the first error; it asks for throttling exactly when some appender does.\<close>

theorem fanout_correct:
  "fanout_Append f s st =
     ((case fanout_errors f s st of [] \<Rightarrow> None | e # _ \<Rightarrow> Some e), foldl (\<lambda>st a. snd (sa_Append a s st)) st f) \<and>
   fanout_NeedsThrottling f st = list_ex (\<lambda>a. sa_NeedsThrottling a st) f"
  by (simp add: fanout_Append_def fanout_loop_spec fanout_throttled)

section \<open>Appenders that drop samples\<close>

locale tolerant_appender =
  fixes app :: "('s, 'e) SampleAppender"
  assumes no_error: "fst (sa_Append app s st) = None"
    and no_throttling: "\<not> sa_NeedsThrottling app st"
begin

text \<open>So a batch may be appended sample by sample, looking at the results or not.\<close>

lemma append_all:
  "fold (\<lambda>s (errs, st). case sa_Append app s st of (e, st') \<Rightarrow> (errs @ (case e of None \<Rightarrow> [] | Some x \<Rightarrow> [x]), st')) samples (errs, st) =
     (errs, fold (\<lambda>s st. snd (sa_Append app s st)) samples st)"
proof (induction samples arbitrary: st)
  case (Cons s samples)
  then show ?case
    using no_error [of s st] by (cases "sa_Append app s st") simp
qed simp

end

locale tolerant_fanout =
  fixes f :: "('s, 'e) Fanout"
  assumes tolerant: "a \<in> set f \<Longrightarrow> tolerant_appender a"
begin

lemma errors_none: "fanout_errors f s st = []"
proof -
  have "fanout_errors g s st = []" if "set g \<subseteq> set f" for g st
    using that
  proof (induction g arbitrary: st)
    case (Cons a g)
    then show ?case
      using tolerant_appender.no_error [OF tolerant, of a s st] by (cases "sa_Append a s st") simp
  qed simp
  then show ?thesis
    by blast
qed

end

sublocale tolerant_fanout \<subseteq> fan: tolerant_appender "fanout_appender f"
proof
  show "fst (sa_Append (fanout_appender f) s st) = None" for s st
    by (simp add: fanout_appender_def fanout_Append_def fanout_loop_spec errors_none)
  show "\<not> sa_NeedsThrottling (fanout_appender f) st" for st
    using tolerant_appender.no_throttling [OF tolerant] by (auto simp: fanout_appender_def fanout_throttled list_ex_iff)
qed

end
