(* ===== verification/Target.thy ===== *)
theory Target
  imports Label_Matcher Url_Query Relabel Sample_Appender
begin

text \<open>
  Targets (\<open>src/retrieval/target.go\<close>): their labels, URL and identifying hash, the appenders that merge
  target labels into samples, and the construction of targets from a target group with
  \<open>populateLabels\<close>.

  Parameters are \<open>relabel.Process\<close> (\<open>None\<close> is the nil label set of a dropped target; theory Relabel defines it), the rendering of a
  URL by \<open>url.URL.String\<close>, and the quoting verb \<open>%q\<close>. \<open>net.SplitHostPort\<close> and \<open>utf8.ValidString\<close> are
  modelled as far as their success.
\<close>

section \<open>Labels\<close>

definition ReservedLabelPrefix :: string where "ReservedLabelPrefix = ''__''"
definition MetaLabelPrefix :: string where "MetaLabelPrefix = ''__meta_''"
definition ParamLabelPrefix :: string where "ParamLabelPrefix = ''__param_''"
definition ExportedLabelPrefix :: string where "ExportedLabelPrefix = ''exported_''"
definition SchemeLabel :: LabelName where "SchemeLabel = ''__scheme__''"
definition AddressLabel :: LabelName where "AddressLabel = ''__address__''"
definition MetricsPathLabel :: LabelName where "MetricsPathLabel = ''__metrics_path__''"

lemmas label_names = ReservedLabelPrefix_def MetaLabelPrefix_def ParamLabelPrefix_def ExportedLabelPrefix_def
  SchemeLabel_def AddressLabel_def MetricsPathLabel_def InstanceLabel_def JobLabel_def

section \<open>The target\<close>

datatype TargetHealth = HealthUnknown | HealthGood | HealthBad

record Target =
  t_discoveredLabels :: LabelSet
  t_labels :: LabelSet
  t_params :: url_Values
  t_lastError :: "string option"
  t_lastScrape :: int
  t_health :: TargetHealth

text \<open>The zero value of \<open>lastScrape\<close> is the zero time.\<close>

definition NewTarget :: "LabelSet \<Rightarrow> LabelSet \<Rightarrow> url_Values \<Rightarrow> Target" where
  "NewTarget labels discoveredLabels params =
     \<lparr>t_discoveredLabels = discoveredLabels, t_labels = labels, t_params = params,
      t_lastError = None, t_lastScrape = 0, t_health = HealthUnknown\<rparr>"

record target_url =
  tu_Scheme :: string
  tu_Host :: string
  tu_Path :: string
  tu_RawQuery :: string

fun url_params_labels :: "url_Values \<Rightarrow> LabelSet \<Rightarrow> url_Values" where
  "url_params_labels params [] = params"
| "url_params_labels params ((k, v) # ls) =
    (if \<not> has_prefix k ParamLabelPrefix then url_params_labels params ls
     else let ks = drop (length ParamLabelPrefix) k in
       url_params_labels
         (case gm_get params ks of
            Some (_ # vs) \<Rightarrow> gm_put params ks (v # vs)
          | _ \<Rightarrow> gm_put params ks [v]) ls)"

text \<open>The first loop copies the parameters; the values of the target are not shared.\<close>

definition target_params :: "Target \<Rightarrow> url_Values" where
  "target_params t = url_params_labels (foldl (\<lambda>acc (k, v). gm_put acc k v) [] (t_params t)) (t_labels t)"

definition target_URL :: "Target \<Rightarrow> target_url" where
  "target_URL t = \<lparr>tu_Scheme = gm_str (t_labels t) SchemeLabel, tu_Host = gm_str (t_labels t) AddressLabel,
     tu_Path = gm_str (t_labels t) MetricsPathLabel, tu_RawQuery = values_Encode (target_params t)\<rparr>"

definition target_String :: "(target_url \<Rightarrow> string) \<Rightarrow> Target \<Rightarrow> string" where
  "target_String render t = render (target_URL t)"

text \<open>\<open>Fingerprint.String\<close> is the verb \<open>%016x\<close>; the hash is FNV-1a over both strings.\<close>

definition lower_hex :: "nat \<Rightarrow> char" where
  "lower_hex n = char_of (if n < 10 then 48 + n else 87 + n)"

definition fingerprint_String :: "Fingerprint \<Rightarrow> string" where
  "fingerprint_String fp = map (\<lambda>i. lower_hex (unat (drop_bit (4 * (15 - i)) fp) mod 16)) [0..<16]"

definition target_hash :: "(target_url \<Rightarrow> string) \<Rightarrow> Target \<Rightarrow> 64 word" where
  "target_hash render t =
     hashAdd (hashAdd hashNew (fingerprint_String (labelset_Fingerprint (t_labels t)))) (render (target_URL t))"

text \<open>The offset at the time \<open>now\<close>; a zero interval panics.\<close>

definition target_offset :: "(target_url \<Rightarrow> string) \<Rightarrow> int \<Rightarrow> Target \<Rightarrow> Duration \<Rightarrow> panic + Duration" where
  "target_offset render now t interval =
    (if interval = 0 then Inl DivideByZero
     else let base = go_mod now interval;
              offset = target_hash render t mod of_int interval;
              next = wrap64 (base + wrap64 (uint offset)) in
       Inr (if next > interval then wrap64 (next - interval) else next))"

definition target_Labels :: "Target \<Rightarrow> LabelSet" where
  "target_Labels t = foldl (\<lambda>lset (nm, lv). if \<not> has_prefix nm ReservedLabelPrefix then gm_put lset nm lv else lset)
     [] (t_labels t)"

definition target_DiscoveredLabels :: "Target \<Rightarrow> LabelSet" where
  "target_DiscoveredLabels t = labelset_Clone (t_discoveredLabels t)"

definition target_report :: "int \<Rightarrow> Duration \<Rightarrow> string option \<Rightarrow> Target \<Rightarrow> Target" where
  "target_report start dur err t =
     t\<lparr>t_health := (if err = None then HealthGood else HealthBad), t_lastError := err, t_lastScrape := start\<rparr>"

definition target_LastError :: "Target \<Rightarrow> string option" where
  "target_LastError t = t_lastError t"

definition target_LastScrape :: "Target \<Rightarrow> int" where
  "target_LastScrape t = t_lastScrape t"

definition target_Health :: "Target \<Rightarrow> TargetHealth" where
  "target_Health t = t_health t"

text \<open>\<open>Targets\<close> is sorted by the URLs; an index out of range is a panic.\<close>

definition targets_Len :: "Target list \<Rightarrow> int" where
  "targets_Len ts = int (length ts)"

definition targets_Less :: "(target_url \<Rightarrow> string) \<Rightarrow> Target list \<Rightarrow> nat \<Rightarrow> nat \<Rightarrow> panic + bool" where
  "targets_Less render ts i j =
    (if i < length ts \<and> j < length ts then Inr (target_String render (ts ! i) < target_String render (ts ! j))
     else Inl IndexOutOfRange)"

definition targets_Swap :: "Target list \<Rightarrow> nat \<Rightarrow> nat \<Rightarrow> panic + Target list" where
  "targets_Swap ts i j =
    (if i < length ts \<and> j < length ts then Inr (ts[i := ts ! j, j := ts ! i]) else Inl IndexOutOfRange)"

section \<open>Appenders\<close>

fun ruleLabels_loop :: "LabelSet \<Rightarrow> LabelSet \<Rightarrow> LabelSet" where
  "ruleLabels_loop metric [] = metric"
| "ruleLabels_loop metric ((nm, lv) # labels) =
    ruleLabels_loop
      (gm_put (case gm_get metric nm of
           Some v \<Rightarrow> if v \<noteq> [] then gm_put metric (ExportedLabelPrefix @ nm) v else metric
         | None \<Rightarrow> metric) nm lv) labels"

text \<open>An appender is the effect of \<open>Append\<close> on the state of the storage behind it.\<close>

type_synonym 's sink = "Sample \<Rightarrow> 's \<Rightarrow> string option \<times> 's"

definition ruleLabelsAppender :: "LabelSet \<Rightarrow> 's sink \<Rightarrow> 's sink" where
  "ruleLabelsAppender labels app s = app (s\<lparr>s_Metric := ruleLabels_loop (s_Metric s) labels\<rparr>)"

definition honorLabelsAppender :: "LabelSet \<Rightarrow> 's sink \<Rightarrow> 's sink" where
  "honorLabelsAppender labels app s = app (s\<lparr>s_Metric := gm_fill (s_Metric s) labels\<rparr>)"

definition relabelAppender :: "(LabelSet \<Rightarrow> LabelSet option) \<Rightarrow> 's sink \<Rightarrow> 's sink" where
  "relabelAppender process app s st = (case process (s_Metric s) of
       None \<Rightarrow> (None, st)
     | Some labels \<Rightarrow> app (s\<lparr>s_Metric := labels\<rparr>) st)"

definition bufferAppender :: "Sample list sink" where
  "bufferAppender s buffer = (None, buffer @ [s])"

definition bufferAppender_NeedsThrottling :: "Sample list \<Rightarrow> bool" where
  "bufferAppender_NeedsThrottling buffer = False"

interpretation buffer_app: tolerant_appender "\<lparr>sa_Append = bufferAppender, sa_NeedsThrottling = bufferAppender_NeedsThrottling\<rparr>"
  by unfold_locales (simp_all add: bufferAppender_def bufferAppender_NeedsThrottling_def)

definition countingAppender :: "'s sink \<Rightarrow> (int \<times> 's) sink" where
  "countingAppender app s = (\<lambda>(count, st). case app s st of (e, st') \<Rightarrow> (e, (wrap64 (count + 1), st')))"

section \<open>Building targets\<close>

record ScrapeConfig =
  sc_JobName :: string
  sc_Scheme :: string
  sc_MetricsPath :: string
  sc_Params :: url_Values
  sc_RelabelConfigs :: "RelabelConfig list"

type_synonym relabeller = "RelabelConfig list \<Rightarrow> LabelSet \<Rightarrow> LabelSet option"

text \<open>Whether \<open>net.SplitHostPort\<close> succeeds.\<close>

definition last_colon :: "string \<Rightarrow> nat option" where
  "last_colon s = (if CHR '':'' \<in> set s then Some (length s - 1 - length (takeWhile (\<lambda>c. c \<noteq> CHR '':'') (rev s))) else None)"

definition split_host_port_ok :: "string \<Rightarrow> bool" where
  "split_host_port_ok s = (case last_colon s of
       None \<Rightarrow> False
     | Some i \<Rightarrow>
        (if s \<noteq> [] \<and> hd s = CHR ''['' then
           (let e = length (takeWhile (\<lambda>c. c \<noteq> CHR '']'') s) in
            e < length s \<and> e + 1 = i \<and>
            CHR ''['' \<notin> set (drop 1 s) \<and> CHR '']'' \<notin> set (drop (e + 1) s))
         else
           CHR '':'' \<notin> set (take i s) \<and> CHR ''%'' \<notin> set (take i s) \<and>
           CHR ''['' \<notin> set s \<and> CHR '']'' \<notin> set s))"

text \<open>UTF-8: the bytes that may follow a leading byte.\<close>

definition cont_byte :: "nat \<Rightarrow> bool" where
  "cont_byte n \<longleftrightarrow> 128 \<le> n \<and> n \<le> 191"

fun utf8_valid :: "nat list \<Rightarrow> bool" where
  "utf8_valid [] = True"
| "utf8_valid (a # bs) =
    (if a < 128 then utf8_valid bs
     else if 194 \<le> a \<and> a \<le> 223 then
       (case bs of b # r \<Rightarrow> cont_byte b \<and> utf8_valid r | _ \<Rightarrow> False)
     else if 224 \<le> a \<and> a \<le> 239 then
       (case bs of b # c # r \<Rightarrow>
          (if a = 224 then 160 else 128) \<le> b \<and> b \<le> (if a = 237 then 159 else 191) \<and> cont_byte c \<and> utf8_valid r
        | _ \<Rightarrow> False)
     else if 240 \<le> a \<and> a \<le> 244 then
       (case bs of b # c # d # r \<Rightarrow>
          (if a = 240 then 144 else 128) \<le> b \<and> b \<le> (if a = 244 then 143 else 191) \<and>
          cont_byte c \<and> cont_byte d \<and> utf8_valid r
        | _ \<Rightarrow> False)
     else False)"

definition labelvalue_IsValid :: "LabelValue \<Rightarrow> bool" where
  "labelvalue_IsValid lv = utf8_valid (map of_char lv)"

definition addPort :: "string \<Rightarrow> bool" where
  "addPort s = (if split_host_port_ok s then False else split_host_port_ok (s @ '':1234''))"

definition CheckTargetAddress :: "(string \<Rightarrow> string) \<Rightarrow> LabelValue \<Rightarrow> string option" where
  "CheckTargetAddress quote address =
     (if str_contains address ''/'' then Some (quote address @ '' is not a valid hostname'') else None)"

fun param_labels :: "LabelSet \<Rightarrow> url_Values \<Rightarrow> LabelSet" where
  "param_labels lset [] = lset"
| "param_labels lset ((k, v) # ps) =
     param_labels (case v of x # _ \<Rightarrow> gm_put lset (ParamLabelPrefix @ k) x | [] \<Rightarrow> lset) ps"

text \<open>The last loop deletes the meta labels and stops at an invalid value; it visits the entries of the list \<open>todo\<close>.\<close>

fun drop_meta :: "(string \<Rightarrow> string) \<Rightarrow> LabelSet \<Rightarrow> LabelSet \<Rightarrow> string + LabelSet" where
  "drop_meta quote lset [] = Inr lset"
| "drop_meta quote lset ((nm, lv) # todo) =
    (if has_prefix nm MetaLabelPrefix then drop_meta quote (gm_del lset nm) todo
     else if \<not> labelvalue_IsValid lv then Inl (''invalid label value for '' @ quote nm @ '': '' @ quote lv)
     else drop_meta quote lset todo)"

definition scrape_labels :: "ScrapeConfig \<Rightarrow> LabelSet" where
  "scrape_labels cfg = [(SchemeLabel, sc_Scheme cfg), (MetricsPathLabel, sc_MetricsPath cfg), (JobLabel, sc_JobName cfg)]"

definition add_port_label :: "(string \<Rightarrow> string) \<Rightarrow> ScrapeConfig \<Rightarrow> LabelSet \<Rightarrow> string + LabelSet" where
  "add_port_label quote cfg lset =
    (let addr = gm_str lset AddressLabel; scheme = gm_str lset SchemeLabel in
     if addPort addr then
       (if scheme = ''http'' \<or> scheme = [] then Inr (gm_put lset AddressLabel (addr @ '':80''))
        else if scheme = ''https'' then Inr (gm_put lset AddressLabel (addr @ '':443''))
        else Inl (''invalid scheme: '' @ quote (sc_Scheme cfg)))
     else Inr lset)"

text \<open>A dropped target is \<open>Inr None\<close>; otherwise the labels of the target and the labels before relabelling.\<close>

definition populateLabels ::
  "(string \<Rightarrow> string) \<Rightarrow> relabeller \<Rightarrow> LabelSet \<Rightarrow> ScrapeConfig \<Rightarrow>
   string + (LabelSet \<times> LabelSet) option" where
  "populateLabels quote process lset0 cfg =
    (let lset1 = param_labels (gm_fill (labelset_Clone lset0) (scrape_labels cfg)) (sc_Params cfg);
         preRelabelLabels = labelset_Clone lset1 in
     (case process (sc_RelabelConfigs cfg) lset1 of
        None \<Rightarrow> Inr None
      | Some lset2 \<Rightarrow>
         if \<not> gm_has lset2 AddressLabel then Inl ''no address''
         else (case add_port_label quote cfg lset2 of
            Inl err \<Rightarrow> Inl err
          | Inr lset3 \<Rightarrow>
             (case CheckTargetAddress quote (gm_str lset3 AddressLabel) of
                Some err \<Rightarrow> Inl err
              | None \<Rightarrow>
                 (case drop_meta quote lset3 lset3 of
                    Inl err \<Rightarrow> Inl err
                  | Inr lset4 \<Rightarrow>
                     Inr (Some (if gm_has lset4 InstanceLabel then lset4
                                else gm_put lset4 InstanceLabel (gm_str lset4 AddressLabel),
                                preRelabelLabels)))))))"

record TargetGroup =
  tg_Targets :: "LabelSet list"
  tg_Labels :: LabelSet
  tg_Source :: string

fun targetsFromGroup_loop ::
  "(string \<Rightarrow> string) \<Rightarrow> relabeller \<Rightarrow> ScrapeConfig \<Rightarrow> TargetGroup \<Rightarrow> nat \<Rightarrow> LabelSet list \<Rightarrow>
   string + Target list" where
  "targetsFromGroup_loop quote process cfg tg i [] = Inr []"
| "targetsFromGroup_loop quote process cfg tg i (lset # lsets) =
    (case populateLabels quote process (gm_fill lset (tg_Labels tg)) cfg of
       Inl err \<Rightarrow> Inl (''instance '' @ itoa (int i) @ '' in group '' @ tg_Source tg @ '': '' @ err)
     | Inr r \<Rightarrow>
        (case targetsFromGroup_loop quote process cfg tg (Suc i) lsets of
           Inl err \<Rightarrow> Inl err
         | Inr ts \<Rightarrow> Inr ((case r of None \<Rightarrow> [] | Some (labels, orig) \<Rightarrow> [NewTarget labels orig (sc_Params cfg)]) @ ts)))"

definition targetsFromGroup ::
  "(string \<Rightarrow> string) \<Rightarrow> relabeller \<Rightarrow> ScrapeConfig \<Rightarrow> TargetGroup \<Rightarrow> string + Target list" where
  "targetsFromGroup quote process cfg tg = targetsFromGroup_loop quote process cfg tg 0 (tg_Targets tg)"

section \<open>Sorting targets\<close>

lemma targets_Swap_mset: "targets_Swap ts i j = Inr ts' \<Longrightarrow> mset ts' = mset ts"
  by (auto simp: targets_Swap_def mset_swap split: if_splits)

lemma targets_Less_strict:
  "targets_Less render ts i j = Inr True \<Longrightarrow> targets_Less render ts j i = Inr False"
  by (auto simp: targets_Less_def split: if_splits)

section \<open>Labels of a target's URL\<close>

lemma has_prefix_drop: "has_prefix k p \<longleftrightarrow> k = p @ drop (length p) k"
  by (auto simp: has_prefix_def) (metis append_take_drop_id, metis append_eq_conv_conj)

lemma url_param_put:
  "(case gm_get params k of Some (_ # vs) \<Rightarrow> gm_put params k (v # vs) | _ \<Rightarrow> gm_put params k [v]) =
   gm_put params k (case gm_get params k of Some (_ # vs) \<Rightarrow> v # vs | _ \<Rightarrow> [v])"
  by (simp split: option.split list.split)

lemma url_params_labels_get:
  "gm_ok ls \<Longrightarrow> gm_get (url_params_labels params ls) k =
     (case map_of ls (ParamLabelPrefix @ k) of
        None \<Rightarrow> gm_get params k
      | Some v \<Rightarrow> Some (case gm_get params k of Some (_ # vs) \<Rightarrow> v # vs | _ \<Rightarrow> [v]))"
proof (induction ls arbitrary: params)
  case (Cons e ls)
  obtain k' v where e: "e = (k', v)"
    by (cases e)
  have ok: "gm_ok ls" "k' \<notin> fst ` set ls"
    using Cons.prems e by (auto simp: gm_ok_def)
  let ?ks = "drop (length ParamLabelPrefix) k'"
  consider "\<not> has_prefix k' ParamLabelPrefix" "k' \<noteq> ParamLabelPrefix @ k"
    | "has_prefix k' ParamLabelPrefix" "k \<noteq> ?ks" "k' \<noteq> ParamLabelPrefix @ k"
    | "k' = ParamLabelPrefix @ k"
    by (metis append_eq_conv_conj has_prefix_drop)
  then show ?case
  proof cases
    case 1
    then show ?thesis
      by (simp add: e Cons.IH [OF ok(1)])
  next
    case 2
    then show ?thesis
      by (simp add: e Let_def url_param_put Cons.IH [OF ok(1)] gm_get_put cong: option.case_cong)
  next
    case 3
    then have "map_of ls (ParamLabelPrefix @ k) = None"
      using ok(2) by (simp add: map_of_eq_None_iff)
    then show ?thesis
      by (simp add: e 3 Let_def url_param_put Cons.IH [OF ok(1)] gm_get_put has_prefix_append)
  qed
qed simp

lemma gm_ok_url_params_labels: "gm_ok params \<Longrightarrow> gm_ok (url_params_labels params ls)"
  by (induction params ls rule: url_params_labels.induct)
    (auto simp: Let_def split: option.splits list.splits)

lemma target_params_get:
  assumes "gm_ok (t_labels t)" "gm_ok (t_params t)"
  shows "gm_get (target_params t) k =
     (case gm_get (t_labels t) (ParamLabelPrefix @ k) of
        None \<Rightarrow> gm_get (t_params t) k
      | Some v \<Rightarrow> Some (case gm_get (t_params t) k of Some (_ # vs) \<Rightarrow> v # vs | _ \<Rightarrow> [v]))"
proof -
  have "gm_get (foldl (\<lambda>acc (k, v). gm_put acc k v) [] (t_params t)) = gm_get (t_params t)"
    using gm.fold_put [of "[]" "t_params t"] map_of_rev_ok [OF assms(2)] by (simp add: gm_get_def [abs_def])
  then show ?thesis
    unfolding target_params_def by (simp only: url_params_labels_get [OF assms(1)] gm_get_def [of "t_labels t"])
qed

lemma gm_ok_target_params: "gm_ok (target_params t)"
  unfolding target_params_def by (intro gm_ok_url_params_labels gm.ok_fold_put) simp

text \<open>Two targets with the same labels and parameters, whatever the order in which the maps are visited.\<close>

definition same_target :: "Target \<Rightarrow> Target \<Rightarrow> bool" where
  "same_target t u \<longleftrightarrow> gm_same (t_labels t) (t_labels u) \<and> gm_same (t_params t) (t_params u)"

definition target_ok :: "Target \<Rightarrow> bool" where
  "target_ok t \<longleftrightarrow> gm_ok (t_labels t) \<and> gm_ok (t_params t)"

lemma target_hash_same:
  assumes "target_ok t" "target_ok u" "same_target t u"
  shows "target_hash render t = target_hash render u \<and> target_URL t = target_URL u"
proof -
  have l: "gm_get (t_labels t) = gm_get (t_labels u)" and p: "gm_get (t_params t) = gm_get (t_params u)"
    using assms(3) by (simp_all add: same_target_def gm_same_def)
  have "gm_get (target_params t) = gm_get (target_params u)"
    using assms(1,2) unfolding target_ok_def by (intro ext) (simp only: target_params_get l p)
  then have "values_Encode (target_params t) = values_Encode (target_params u)"
    by (intro values_Encode_same gm_ok_target_params) (simp add: gm_same_def)
  then have "target_URL t = target_URL u"
    using l by (simp add: target_URL_def gm_str_def)
  moreover have "labelset_Fingerprint (t_labels t) = labelset_Fingerprint (t_labels u)"
    using assms by (intro slow.hash_same) (simp_all add: target_ok_def same_target_def)
  ultimately show ?thesis
    by (simp add: target_hash_def)
qed

lemma offset_range:
  assumes "0 \<le> x" "x < i" "0 \<le> y" "y < i" "i < 2 ^ 62"
  shows "wrap64 x = x" "wrap64 (y + x) = y + x" "wrap64 (y + x - i) = y + x - i"
  using assms by (simp_all add: wrap64_eq_iff int64_def)

text \<open>The offset of a target into a scrape interval of at most about 146 years, at any time after 1970, is
  between 0 and the interval, and targets with the same labels and parameters have the same one.\<close>

theorem target_offset_bounds:
  assumes "0 < interval" "interval < 2 ^ 62" "0 \<le> now" "target_ok t" "target_ok u" "same_target t u"
  shows "\<exists>d. target_offset render now t interval = Inr d \<and> 0 \<le> d \<and> d \<le> interval \<and>
    target_offset render now u interval = Inr d"
proof -
  let ?off = "uint (target_hash render t mod of_int interval)"
  have m: "go_mod now interval = now mod interval"
    using assms(1,3) by (cases "now = 0") (simp_all add: go_mod_def signed_modulo_int_def sgn_if signed_divide_int_def minus_div_mult_eq_mod)
  have "uint (of_int interval :: 64 word) = interval"
    using assms(1,2) by (simp add: uint_word_of_int take_bit_int_eq_self)
  then have "?off = uint (target_hash render t) mod interval"
    by (simp add: uint_mod)
  then have off: "0 \<le> ?off" "?off < interval"
    using assms(1) by simp_all
  have b: "0 \<le> now mod interval" "now mod interval < interval"
    using assms(1) by simp_all
  let ?d = "if now mod interval + ?off > interval then now mod interval + ?off - interval else now mod interval + ?off"
  have "target_offset render now t interval = Inr ?d"
    using assms(1) by (simp add: target_offset_def Let_def m offset_range [OF off b assms(2)])
  moreover have "target_offset render now u interval = target_offset render now t interval"
    using target_hash_same [OF assms(4-6)] by (simp add: target_offset_def)
  moreover have "0 \<le> ?d \<and> ?d \<le> interval"
    using off b by (simp split: if_split)
  ultimately show ?thesis
    by metis
qed

theorem target_offset_bounds_witness:
  "\<exists>d. target_offset tu_Host 7000 (NewTarget [(''a'', ''1''), (''b'', ''2'')] [] []) 1000 = Inr d \<and> 0 \<le> d \<and> d \<le> 1000 \<and>
    target_offset tu_Host 7000 (NewTarget [(''b'', ''2''), (''a'', ''1'')] [] []) 1000 = Inr d"
  using target_offset_bounds [of 1000 7000 "NewTarget [(''a'', ''1''), (''b'', ''2'')] [] []"
      "NewTarget [(''b'', ''2''), (''a'', ''1'')] [] []" tu_Host]
  by (simp add: target_ok_def NewTarget_def gm_ok_def same_target_def gm_same_def gm_get_def fun_eq_iff)

section \<open>Labels of ingested samples\<close>

text \<open>What \<open>ruleLabelsAppender\<close> makes of a metric: the labels of the target win, and a value they replace
  is kept under \<open>exported_\<close> unless it is empty.\<close>

definition rule_spec :: "LabelSet \<Rightarrow> LabelSet \<Rightarrow> LabelName \<Rightarrow> LabelValue option" where
  "rule_spec labels metric k =
    (case gm_get labels k of
       Some lv \<Rightarrow> Some lv
     | None \<Rightarrow>
        (let n = drop (length ExportedLabelPrefix) k in
         if has_prefix k ExportedLabelPrefix \<and> gm_has labels n \<and> gm_str metric n \<noteq> [] then gm_get metric n
         else gm_get metric k))"

definition no_exported :: "LabelSet \<Rightarrow> bool" where
  "no_exported labels \<longleftrightarrow> list_all (\<lambda>(n, v). \<not> has_prefix n ExportedLabelPrefix) labels"

lemma ruleLabels_step:
  "gm_get (gm_put (case gm_get metric nm of
       Some v \<Rightarrow> if v \<noteq> [] then gm_put metric (ExportedLabelPrefix @ nm) v else metric
     | None \<Rightarrow> metric) nm lv) =
   (if gm_str metric nm \<noteq> [] then (gm_get metric)(ExportedLabelPrefix @ nm := gm_get metric nm, nm \<mapsto> lv)
    else (gm_get metric)(nm \<mapsto> lv))"
  by (auto simp: gm_get_put gm_str_def split: option.split)

lemma ruleLabels_loop_get:
  assumes "gm_ok labels" "no_exported labels"
  shows "gm_get (ruleLabels_loop metric labels) k = rule_spec labels metric k"
  using assms
proof (induction labels arbitrary: metric)
  case (Cons e labels)
  obtain nm lv where e: "e = (nm, lv)"
    by (cases e)
  have ok: "gm_ok labels" "nm \<notin> fst ` set labels" "no_exported labels" "\<not> has_prefix nm ExportedLabelPrefix"
    using Cons.prems e by (auto simp: gm_ok_def no_exported_def)
  define m where "m = gm_put (case gm_get metric nm of
       Some v \<Rightarrow> if v \<noteq> [] then gm_put metric (ExportedLabelPrefix @ nm) v else metric
     | None \<Rightarrow> metric) nm lv"
  have m: "gm_get m = (if gm_str metric nm \<noteq> []
      then (gm_get metric)(ExportedLabelPrefix @ nm := gm_get metric nm, nm \<mapsto> lv)
      else (gm_get metric)(nm \<mapsto> lv))"
    unfolding m_def by (rule ruleLabels_step)
  have nm: "gm_get labels nm = None"
    using ok(2) by (simp add: gm_get_def map_of_eq_None_iff)
  have other: "gm_get m n = gm_get metric n" if "gm_has labels n" for n
  proof -
    have "n \<noteq> nm" "\<not> has_prefix n ExportedLabelPrefix"
      using that ok(2,3) nm by (auto simp: gm_has_iff dom_gm_get no_exported_def list_all_iff)
    then show ?thesis
      by (auto simp: m)
  qed
  have cons: "gm_get (e # labels) = (gm_get labels)(nm \<mapsto> lv)"
    by (simp add: gm_get_Cons e)
  have "rule_spec labels m k = rule_spec (e # labels) metric k"
  proof (cases "gm_get labels k")
    case (Some v)
    then show ?thesis
      using nm by (auto simp: rule_spec_def cons)
  next
    case None
    let ?n = "drop (length ExportedLabelPrefix) k"
    consider "k = nm" | "k \<noteq> nm" "\<not> has_prefix k ExportedLabelPrefix"
      | "k \<noteq> nm" "k = ExportedLabelPrefix @ ?n"
      using has_prefix_drop by blast
    then show ?thesis
    proof cases
      case 1
      then show ?thesis
        using None ok(4) by (auto simp: rule_spec_def cons m Let_def)
    next
      case 2
      then have "k \<noteq> ExportedLabelPrefix @ nm"
        by auto
      with 2 show ?thesis
        using None by (simp add: rule_spec_def cons m)
    next
      case 3
      then obtain n where k: "k = ExportedLabelPrefix @ n"
        by blast
      show ?thesis
      proof (cases "n = nm")
        case True
        then show ?thesis
          using None nm 3(1) k by (simp add: rule_spec_def cons m gm_has_def)
      next
        case False
        then have "gm_has (e # labels) n = gm_has labels n"
          by (simp add: gm_has_def cons)
        moreover have "gm_get m k = gm_get metric k"
          using False 3(1) k by (simp add: m)
        moreover have "gm_str m n = gm_str metric n \<and> gm_get m n = gm_get metric n" if "gm_has labels n"
          using other [OF that] by (simp add: gm_str_def)
        ultimately show ?thesis
          using None 3(1) k by (simp add: rule_spec_def cons cong: conj_cong)
      qed
    qed
  qed
  then show ?case
    using Cons.IH [OF ok(1,3), of m] by (simp add: e m_def)
qed (simp add: rule_spec_def gm_has_def)

text \<open>An appended sample carries the target's labels: \<open>ruleLabelsAppender\<close> keeps a non-empty value that they
  replace under \<open>exported_\<close>, \<open>honorLabelsAppender\<close> keeps the sample's own value; both pass the sample on once,
  with its value and time, whatever the order in which the labels are visited. The first needs that no
  target label itself begins with \<open>exported_\<close>.\<close>

theorem label_appenders_correct:
  assumes "gm_ok labels" "no_exported labels"
  shows "\<exists>rule honor.
    ruleLabelsAppender labels app s st = app (s\<lparr>s_Metric := rule\<rparr>) st \<and>
    gm_get rule = rule_spec labels (s_Metric s) \<and>
    honorLabelsAppender labels app s st = app (s\<lparr>s_Metric := honor\<rparr>) st \<and>
    gm_get honor = gm_get labels ++ gm_get (s_Metric s)"
  using ruleLabels_loop_get [OF assms]
  by (intro exI [of _ "ruleLabels_loop (s_Metric s) labels"] exI [of _ "gm_fill (s_Metric s) labels"])
    (simp add: ruleLabelsAppender_def honorLabelsAppender_def gm_get_fill gm_get_def [of labels, abs_def] fun_eq_iff)

theorem label_appenders_correct_witness:
  "\<exists>rule honor.
    ruleLabelsAppender [(''job'', ''n'')] bufferAppender \<lparr>s_Metric = [(''job'', ''x'')], s_Value = F_NaN, s_Timestamp = 1\<rparr> [] =
      bufferAppender \<lparr>s_Metric = rule, s_Value = F_NaN, s_Timestamp = 1\<rparr> [] \<and>
    gm_get rule = rule_spec [(''job'', ''n'')] [(''job'', ''x'')] \<and>
    honorLabelsAppender [(''job'', ''n'')] bufferAppender \<lparr>s_Metric = [(''job'', ''x'')], s_Value = F_NaN, s_Timestamp = 1\<rparr> [] =
      bufferAppender \<lparr>s_Metric = honor, s_Value = F_NaN, s_Timestamp = 1\<rparr> [] \<and>
    gm_get honor = gm_get [(''job'', ''n'')] ++ gm_get [(''job'', ''x'')]"
  using label_appenders_correct [of "[(''job'', ''n'')]" bufferAppender
      "\<lparr>s_Metric = [(''job'', ''x'')], s_Value = F_NaN, s_Timestamp = 1\<rparr>" "[]"]
  by (simp add: gm_ok_def no_exported_def has_prefix_def label_names)

text \<open>With a target label that begins with \<open>exported_\<close> the outcome depends on the order.\<close>

lemma ruleLabels_order_dependent:
  "gm_get (ruleLabels_loop [(''a'', ''x'')] [(''a'', ''1''), (''exported_a'', ''2'')]) ''exported_exported_a'' = Some ''x''"
  "gm_get (ruleLabels_loop [(''a'', ''x'')] [(''exported_a'', ''2''), (''a'', ''1'')]) ''exported_exported_a'' = None"
  "gm_get (ruleLabels_loop [(''a'', ''x'')] [(''exported_a'', ''2''), (''a'', ''1'')]) ''exported_a'' = Some ''x''"
  "gm_get (ruleLabels_loop [(''a'', ''x'')] [(''a'', ''1''), (''exported_a'', ''2'')]) ''exported_a'' = Some ''2''"
  by (simp_all add: gm_get_def gm_put_def ExportedLabelPrefix_def)

section \<open>Label sets of targets\<close>

text \<open>Appending a port: only the part before the last colon matters.\<close>

definition host_ok :: "string \<Rightarrow> bool" where
  "host_ok a \<longleftrightarrow>
     (if a \<noteq> [] \<and> hd a = CHR ''['' then
        length (takeWhile (\<lambda>c. c \<noteq> CHR '']'') a) + 1 = length a \<and> CHR ''['' \<notin> set (drop 1 a)
      else CHR '':'' \<notin> set a \<and> CHR ''%'' \<notin> set a \<and> CHR ''['' \<notin> set a \<and> CHR '']'' \<notin> set a)"

definition plain_port :: "string \<Rightarrow> bool" where
  "plain_port p \<longleftrightarrow> CHR '':'' \<notin> set p \<and> CHR ''['' \<notin> set p \<and> CHR '']'' \<notin> set p"

lemma last_colon_append:
  assumes "plain_port p"
  shows "last_colon (a @ CHR '':'' # p) = Some (length a)"
proof -
  have "takeWhile (\<lambda>c. c \<noteq> CHR '':'') (rev p @ CHR '':'' # rev a) = rev p"
    using assms by (subst takeWhile_append2) (auto simp: plain_port_def)
  then show ?thesis
    by (simp add: last_colon_def)
qed

lemma bracket_append:
  "length (takeWhile (\<lambda>c. c \<noteq> CHR '']'') (a @ CHR '':'' # p)) + 1 = length a \<longleftrightarrow>
   length (takeWhile (\<lambda>c. c \<noteq> CHR '']'') a) + 1 = length a"
proof (cases "CHR '']'' \<in> set a")
  case True
  then show ?thesis
    by (simp add: takeWhile_append1 [of "CHR '']''"])
next
  case False
  then have "takeWhile (\<lambda>c. c \<noteq> CHR '']'') (a @ CHR '':'' # p) = a @ takeWhile (\<lambda>c. c \<noteq> CHR '']'') (CHR '':'' # p)"
    by (intro takeWhile_append2) auto
  moreover have "takeWhile (\<lambda>c. c \<noteq> CHR '']'') a = a"
    using False unfolding takeWhile_eq_all_conv by auto
  ultimately show ?thesis
    by (simp only:) simp
qed

lemma split_port:
  assumes p: "plain_port p"
  shows "split_host_port_ok (a @ CHR '':'' # p) = host_ok a"
proof -
  let ?s = "a @ CHR '':'' # p"
  have h: "(?s \<noteq> [] \<and> hd ?s = CHR ''['') = (a \<noteq> [] \<and> hd a = CHR ''['')"
    by (cases a) simp_all
  let ?e = "length (takeWhile (\<lambda>c. c \<noteq> CHR '']'') ?s)"
  have d: "drop (?e + 1) ?s = CHR '':'' # p" if "?e + 1 = length a"
    using that by simp
  have d1: "drop 1 ?s = drop 1 a @ CHR '':'' # p" if "a \<noteq> []"
    using that by (cases a) simp_all
  show ?thesis
  proof (cases "a \<noteq> [] \<and> hd a = CHR ''[''")
    case True
    then have "split_host_port_ok ?s \<longleftrightarrow> ?e < length ?s \<and> ?e + 1 = length a \<and>
        CHR ''['' \<notin> set (drop 1 ?s) \<and> CHR '']'' \<notin> set (drop (?e + 1) ?s)"
      unfolding split_host_port_ok_def last_colon_append [OF p] h by (simp add: Let_def)
    also have "\<dots> \<longleftrightarrow> ?e + 1 = length a \<and> CHR ''['' \<notin> set (drop 1 a)"
      using p d True d1 by (auto simp: plain_port_def)
    also have "\<dots> \<longleftrightarrow> host_ok a"
      using True unfolding bracket_append host_ok_def by simp
    finally show ?thesis .
  next
    case False
    have "split_host_port_ok ?s \<longleftrightarrow> CHR '':'' \<notin> set (take (length a) ?s) \<and> CHR ''%'' \<notin> set (take (length a) ?s) \<and>
        CHR ''['' \<notin> set ?s \<and> CHR '']'' \<notin> set ?s"
      unfolding split_host_port_ok_def last_colon_append [OF p] h option.case if_not_P [OF False] by (rule refl)
    then show ?thesis
      using False p by (auto simp: host_ok_def plain_port_def)
  qed
qed

lemma addPort_added: "addPort a \<Longrightarrow> \<not> addPort (a @ '':80'') \<and> \<not> addPort (a @ '':443'')"
  using split_port [of "''1234''" a] split_port [of "''80''" a] split_port [of "''443''" a]
  by (simp add: addPort_def plain_port_def split: if_splits)

text \<open>The label set handed to relabelling.\<close>

definition pre_relabel :: "LabelSet \<Rightarrow> ScrapeConfig \<Rightarrow> LabelName \<Rightarrow> LabelValue option" where
  "pre_relabel lset cfg n =
    (case (if has_prefix n ParamLabelPrefix then gm_get (sc_Params cfg) (drop (length ParamLabelPrefix) n) else None) of
       Some (x # _) \<Rightarrow> Some x
     | _ \<Rightarrow> (case gm_get lset n of Some v \<Rightarrow> Some v | None \<Rightarrow> gm_get (scrape_labels cfg) n))"

lemma param_labels_get:
  "gm_ok ps \<Longrightarrow> gm_get (param_labels lset ps) n =
    (case (if has_prefix n ParamLabelPrefix then gm_get ps (drop (length ParamLabelPrefix) n) else None) of
       Some (x # _) \<Rightarrow> Some x | _ \<Rightarrow> gm_get lset n)"
proof (induction ps arbitrary: lset n)
  case (Cons e ps)
  obtain k v where e: "e = (k, v)"
    by (cases e)
  have ok: "gm_ok ps" "gm_get ps k = None"
    using Cons.prems e by (auto simp: gm_ok_def gm_get_def map_of_eq_None_iff)
  let ?d = "drop (length ParamLabelPrefix) n"
  have "n = ParamLabelPrefix @ k \<longleftrightarrow> has_prefix n ParamLabelPrefix \<and> ?d = k"
    by (metis append_eq_conv_conj has_prefix_drop)
  then show ?case
    using ok by (cases v; cases "has_prefix n ParamLabelPrefix"; cases "?d = k")
      (simp_all add: e gm_get_Cons Cons.IH [OF ok(1)] gm_get_put cong: option.case_cong list.case_cong)
qed simp

lemma gm_ok_param_labels: "gm_ok lset \<Longrightarrow> gm_ok (param_labels lset ps)"
  by (induction lset ps rule: param_labels.induct) (auto split: list.split)

lemma gm_ok_scrape_labels: "gm_ok (scrape_labels cfg)"
  by (simp add: scrape_labels_def gm_ok_def label_names)

lemma pre_relabel_get:
  "gm_ok lset \<Longrightarrow> gm_ok (sc_Params cfg) \<Longrightarrow>
    gm_get (param_labels (gm_fill (labelset_Clone lset) (scrape_labels cfg)) (sc_Params cfg)) = pre_relabel lset cfg"
  by (rule ext) (simp add: param_labels_get pre_relabel_def gm_get_fill gm_get_Clone map_add_def
      gm_get_def [of "scrape_labels cfg"] split: option.split list.split)

text \<open>The label set of a target, as \<open>populateLabels\<close> leaves it: no meta label, only valid values, an address
  that is a host with a port (or nothing that a port could be added to), and an instance label.\<close>

definition labels_wf :: "LabelSet \<Rightarrow> bool" where
  "labels_wf lset \<longleftrightarrow> gm_ok lset \<and>
     list_all (\<lambda>(n, v). \<not> has_prefix n MetaLabelPrefix \<and> labelvalue_IsValid v) lset \<and>
     gm_has lset AddressLabel \<and> gm_has lset InstanceLabel \<and>
     \<not> addPort (gm_str lset AddressLabel) \<and> \<not> str_contains (gm_str lset AddressLabel) ''/''"

definition final_address :: "LabelSet \<Rightarrow> string" where
  "final_address lset =
    (let addr = gm_str lset AddressLabel in
     if addPort addr then addr @ (if gm_str lset SchemeLabel = ''https'' then '':443'' else '':80'') else addr)"

lemma add_port_label_cases:
  assumes "add_port_label quote cfg lset = Inr l" "gm_has lset AddressLabel"
  shows "gm_get l = (gm_get lset)(AddressLabel \<mapsto> final_address lset) \<and> \<not> addPort (final_address lset) \<and>
    (gm_ok lset \<longrightarrow> gm_ok l)"
  using assms addPort_added [of "gm_str lset AddressLabel"]
  by (auto simp: add_port_label_def final_address_def Let_def gm_get_put gm_has_def gm_str_def fun_eq_iff
      split: if_splits)

text \<open>The last loop over any enumeration of the labels.\<close>

lemma drop_meta_Inr:
  "drop_meta quote lset todo = Inr r \<Longrightarrow>
     gm_get r = gm_get lset |` {n. \<not> (n \<in> fst ` set todo \<and> has_prefix n MetaLabelPrefix)} \<and>
     (gm_ok lset \<longrightarrow> gm_ok r) \<and>
     list_all (\<lambda>(n, v). has_prefix n MetaLabelPrefix \<or> labelvalue_IsValid v) todo"
  by (induction quote lset todo rule: drop_meta.induct)
    (auto simp: gm_get_del restrict_map_def fun_eq_iff split: if_splits)

lemma drop_meta_self:
  assumes "drop_meta quote lset lset = Inr r" "gm_ok lset"
  shows "gm_ok r \<and> gm_get r = gm_get lset |` {n. \<not> has_prefix n MetaLabelPrefix} \<and>
    list_all (\<lambda>(n, v). \<not> has_prefix n MetaLabelPrefix \<and> labelvalue_IsValid v) r"
proof -
  note d = drop_meta_Inr [OF assms(1)]
  have r: "gm_ok r"
    using d assms(2) by blast
  have g: "gm_get r = gm_get lset |` {n. \<not> has_prefix n MetaLabelPrefix}"
  proof
    fix n
    show "gm_get r n = (gm_get lset |` {n. \<not> has_prefix n MetaLabelPrefix}) n"
      using d dom_gm_get [of lset] by (cases "gm_get lset n") (force simp: restrict_map_def)+
  qed
  have "\<not> has_prefix n MetaLabelPrefix \<and> labelvalue_IsValid v" if "(n, v) \<in> set r" for n v
  proof -
    have "gm_get r n = Some v"
      using that r by (simp add: gm_get_Some_iff)
    then have "\<not> has_prefix n MetaLabelPrefix" "(n, v) \<in> set lset"
      using g assms(2) by (auto simp: restrict_map_def gm_get_Some_iff split: if_splits)
    then show ?thesis
      using d by (auto simp: list_all_iff)
  qed
  then show ?thesis
    using r g by (auto simp: list_all_iff)
qed


text \<open>The relation between the labels before relabelling, those after it, and the labels of the target.\<close>

definition populated :: "LabelSet \<Rightarrow> LabelName \<Rightarrow> LabelValue option" where
  "populated lset n =
    (if has_prefix n MetaLabelPrefix then None
     else if n = AddressLabel \<or> n = InstanceLabel \<and> \<not> gm_has lset InstanceLabel then Some (final_address lset)
     else gm_get lset n)"

lemma not_meta: "\<not> has_prefix AddressLabel MetaLabelPrefix" "\<not> has_prefix InstanceLabel MetaLabelPrefix"
    "AddressLabel \<noteq> InstanceLabel"
  by (simp_all add: label_names has_prefix_def)

text \<open>Relabelling returns a map.\<close>

definition process_ok :: "relabeller \<Rightarrow> bool" where
  "process_ok process \<longleftrightarrow> (\<forall>cs l r. gm_ok l \<longrightarrow> process cs l = Some r \<longrightarrow> gm_ok r)"

lemma process_okD: "process_ok process \<Longrightarrow> gm_ok l \<Longrightarrow> process cs l = Some r \<Longrightarrow> gm_ok r"
  by (simp add: process_ok_def)

lemma process_ok_relabel: "process_ok (relabel_Process md5)"
  by (auto simp: process_ok_def dest: gm_ok_relabel_Process)

lemma populateLabels_Some:
  assumes "populateLabels quote process lset cfg = Inr (Some (res, orig))"
    and "gm_ok lset" "gm_ok (sc_Params cfg)"
    and process: "process_ok process"
  shows "labels_wf res \<and> gm_ok orig \<and> gm_get orig = pre_relabel lset cfg \<and>
    (\<exists>l1 l2. gm_same l1 orig \<and> process (sc_RelabelConfigs cfg) l1 = Some l2 \<and> gm_has l2 AddressLabel \<and> gm_get res = populated l2)"
proof -
  let ?l1 = "param_labels (gm_fill (labelset_Clone lset) (scrape_labels cfg)) (sc_Params cfg)"
  have l1: "gm_ok ?l1" "gm_get ?l1 = pre_relabel lset cfg"
    using assms(2,3) by (auto simp: pre_relabel_get intro!: gm_ok_param_labels)
  obtain l2 where l2: "process (sc_RelabelConfigs cfg) ?l1 = Some l2" "gm_has l2 AddressLabel"
    using assms(1) by (auto simp: populateLabels_def Let_def split: option.splits if_splits)
  obtain l3 where l3: "add_port_label quote cfg l2 = Inr l3"
    using assms(1) l2 by (auto simp: populateLabels_def Let_def split: sum.splits)
  have c: "CheckTargetAddress quote (gm_str l3 AddressLabel) = None"
    using assms(1) l2 l3 by (auto simp: populateLabels_def Let_def split: option.splits)
  obtain l4 where l4: "drop_meta quote l3 l3 = Inr l4"
    using assms(1) l2 l3 c by (auto simp: populateLabels_def Let_def split: sum.splits)
  have res: "res = (if gm_has l4 InstanceLabel then l4 else gm_put l4 InstanceLabel (gm_str l4 AddressLabel))"
      "orig = labelset_Clone ?l1"
    using assms(1) l2 l3 c l4 by (auto simp: populateLabels_def Let_def)
  note a = add_port_label_cases [OF l3 l2(2)]
  have ok3: "gm_ok l3"
    using a process_okD [OF process l1(1) l2(1)] by blast
  note d = drop_meta_self [OF l4 ok3]
  have g4: "gm_get l4 = (\<lambda>n. if has_prefix n MetaLabelPrefix then None
      else if n = AddressLabel then Some (final_address l2) else gm_get l2 n)"
    using d a by (auto simp: restrict_map_def fun_eq_iff)
  then have inst: "gm_has l4 InstanceLabel = gm_has l2 InstanceLabel" "gm_str l4 AddressLabel = final_address l2"
    using not_meta by (auto simp: gm_has_def gm_str_def)
  have g: "gm_get res = populated l2"
    unfolding res(1) using g4 inst not_meta
    by (auto simp: gm_get_put populated_def fun_eq_iff gm_has_def)
  have addr: "gm_get res AddressLabel = Some (final_address l2)"
    using g not_meta by (simp add: populated_def)
  have okr: "gm_ok res"
    using d res(1) by auto
  have valid: "labelvalue_IsValid (final_address l2)"
  proof -
    have "gm_get l4 AddressLabel = Some (final_address l2)"
      using not_meta by (simp add: g4)
    then have "(AddressLabel, final_address l2) \<in> set l4"
      using gm_get_Some_iff [OF conjunct1 [OF d]] by simp
    then show ?thesis
      using d by (auto simp: list_all_iff)
  qed
  have all: "\<not> has_prefix n MetaLabelPrefix \<and> labelvalue_IsValid v" if "(n, v) \<in> set res" for n v
  proof (cases "(n, v) \<in> set l4")
    case True
    then show ?thesis
      using d by (auto simp: list_all_iff)
  next
    case False
    have "gm_get res n = Some v" "gm_get l4 n \<noteq> Some v"
      using gm_get_Some_iff [OF okr] gm_get_Some_iff [OF conjunct1 [OF d]] that False by simp_all
    then have "n = InstanceLabel \<and> v = final_address l2"
      using res(1) inst by (auto simp: gm_get_put split: if_splits)
    then show ?thesis
      using valid not_meta by simp
  qed
  have "labels_wf res"
    using okr all addr a c not_meta g
    by (auto simp: labels_wf_def list_all_iff gm_has_def gm_str_def populated_def CheckTargetAddress_def split: if_splits)
  moreover have "gm_get orig = pre_relabel lset cfg" "gm_same ?l1 orig"
    using l1 by (simp_all add: res(2) gm_get_Clone gm_same_def)
  ultimately show ?thesis
    using l2 g by (auto simp: res(2))
qed


text \<open>Why a label set that relabelling kept can still be refused.\<close>

definition refused :: "LabelSet \<Rightarrow> bool" where
  "refused l \<longleftrightarrow> \<not> gm_has l AddressLabel
     \<or> addPort (gm_str l AddressLabel) \<and> gm_str l SchemeLabel \<notin> {''http'', '''', ''https''}
     \<or> str_contains (final_address l) ''/''
     \<or> (\<exists>n v. populated l n = Some v \<and> \<not> labelvalue_IsValid v)"

lemma drop_meta_Inl:
  "drop_meta quote lset todo = Inl err \<Longrightarrow>
     \<exists>n v. (n, v) \<in> set todo \<and> \<not> has_prefix n MetaLabelPrefix \<and> \<not> labelvalue_IsValid v"
  by (induction quote lset todo rule: drop_meta.induct) (auto split: if_splits)

lemma populateLabels_Inl:
  assumes "populateLabels quote process lset cfg = Inl err"
    and "gm_ok lset" "gm_ok (sc_Params cfg)"
    and process: "process_ok process"
  shows "\<exists>l1 l2. gm_get l1 = pre_relabel lset cfg \<and> process (sc_RelabelConfigs cfg) l1 = Some l2 \<and> refused l2"
proof -
  let ?l1 = "param_labels (gm_fill (labelset_Clone lset) (scrape_labels cfg)) (sc_Params cfg)"
  have l1: "gm_ok ?l1" "gm_get ?l1 = pre_relabel lset cfg"
    using assms(2,3) by (auto simp: pre_relabel_get intro!: gm_ok_param_labels)
  obtain l2 where l2: "process (sc_RelabelConfigs cfg) ?l1 = Some l2"
    using assms(1) by (auto simp: populateLabels_def Let_def split: option.splits if_splits)
  have "refused l2"
  proof (cases "gm_has l2 AddressLabel")
    case True
    note has = True
    show ?thesis
    proof (cases "add_port_label quote cfg l2")
      case (Inl e)
      then show ?thesis
        by (auto simp: add_port_label_def Let_def refused_def split: if_splits)
    next
      case (Inr l3)
      note a = add_port_label_cases [OF Inr has]
      have addr: "gm_str l3 AddressLabel = final_address l2"
        using a by (simp add: gm_str_def)
      show ?thesis
      proof (cases "CheckTargetAddress quote (gm_str l3 AddressLabel)")
        case None
        then obtain e where "drop_meta quote l3 l3 = Inl e"
          using assms(1) l2 has Inr by (auto simp: populateLabels_def Let_def split: sum.splits if_splits)
        then obtain n v where nv: "(n, v) \<in> set l3" "\<not> has_prefix n MetaLabelPrefix" "\<not> labelvalue_IsValid v"
          using drop_meta_Inl by blast
        then have "gm_get l3 n = Some v"
          using a process_okD [OF process l1(1) l2] gm_get_Some_iff [of l3 n v] by simp
        then have "populated l2 n = Some v"
          using a nv(2) by (auto simp: populated_def gm_has_def split: if_splits)
        then show ?thesis
          using nv(3) by (auto simp: refused_def)
      next
        case (Some e)
        then show ?thesis
          by (auto simp: CheckTargetAddress_def addr refused_def split: if_splits)
      qed
    qed
  qed (simp add: refused_def)
  then show ?thesis
    using l1 l2 by blast
qed

lemma populateLabels_None:
  assumes "populateLabels quote process lset cfg = Inr None" "gm_ok lset" "gm_ok (sc_Params cfg)"
  shows "\<exists>l1. gm_get l1 = pre_relabel lset cfg \<and> process (sc_RelabelConfigs cfg) l1 = None"
  using assms pre_relabel_get [OF assms(2,3)]
  by (auto simp: populateLabels_def Let_def split: option.splits if_splits sum.splits)


text \<open>An example: a host without port scraped over https.\<close>

definition ex_config :: ScrapeConfig where
  "ex_config = \<lparr>sc_JobName = ''n'', sc_Scheme = ''https'', sc_MetricsPath = ''/m'', sc_Params = [], sc_RelabelConfigs = []\<rparr>"

lemma ex_populate:
  "populateLabels id (relabel_Process (\<lambda>_. [])) [(AddressLabel, ''h'')] ex_config =
     Inr (Some ([(''__address__'', ''h:443''), (''__scheme__'', ''https''), (''__metrics_path__'', ''/m''),
                 (''job'', ''n''), (''instance'', ''h:443'')],
                [(''__address__'', ''h''), (''__scheme__'', ''https''), (''__metrics_path__'', ''/m''), (''job'', ''n'')]))"
  by (simp add: populateLabels_def ex_config_def label_names scrape_labels_def gm_has_def gm_get_def gm_put_def
      labelset_Clone_def add_port_label_def gm_str_def addPort_def split_host_port_ok_def last_colon_def
      CheckTargetAddress_def has_prefix_def labelvalue_IsValid_def Let_def)



section \<open>Targets of a group\<close>

text \<open>A target as the target manager keeps it.\<close>

definition target_wf :: "Target \<Rightarrow> bool" where
  "target_wf t \<longleftrightarrow> target_ok t \<and> labels_wf (t_labels t) \<and> gm_ok (t_discoveredLabels t)"

lemma target_wf_ok: "target_wf t \<Longrightarrow> target_ok t"
  by (simp add: target_wf_def)

lemma NewTarget_wf:
  assumes "populateLabels quote process lset cfg = Inr (Some (labels, orig))"
    and "gm_ok lset" "gm_ok (sc_Params cfg)" "process_ok process"
  shows "target_wf (NewTarget labels orig (sc_Params cfg))"
  using populateLabels_Some [OF assms] assms(3)
  by (simp add: target_wf_def target_ok_def NewTarget_def labels_wf_def)

lemma targetsFromGroup_loop_wf:
  "targetsFromGroup_loop quote process cfg tg i lsets = Inr ts \<Longrightarrow> list_all gm_ok lsets \<Longrightarrow> gm_ok (sc_Params cfg) \<Longrightarrow>
     process_ok process \<Longrightarrow> list_all target_wf ts"
proof (induction quote process cfg tg i lsets arbitrary: ts rule: targetsFromGroup_loop.induct)
  case (2 quote process cfg tg i lset lsets)
  let ?l = "gm_fill lset (tg_Labels tg)"
  have ok: "gm_ok ?l"
    using 2(3) by (auto intro: gm_ok_fill)
  obtain r where r: "populateLabels quote process ?l cfg = Inr r"
    using 2(2) by (auto split: sum.splits)
  obtain ts' where ts': "targetsFromGroup_loop quote process cfg tg (Suc i) lsets = Inr ts'"
      "ts = (case r of None \<Rightarrow> [] | Some (labels, orig) \<Rightarrow> [NewTarget labels orig (sc_Params cfg)]) @ ts'"
    using 2(2) r by (auto split: sum.splits)
  have "list_all target_wf ts'"
    using 2(1) [OF r ts'(1)] 2(3-5) by simp
  moreover have "list_all target_wf (case r of None \<Rightarrow> [] | Some (labels, orig) \<Rightarrow> [NewTarget labels orig (sc_Params cfg)])"
    using NewTarget_wf [OF _ ok 2(4,5), of quote] r by (auto split: option.split)
  ultimately show ?case
    by (simp add: ts'(2))
qed simp

lemma targetsFromGroup_wf:
  "targetsFromGroup quote process cfg tg = Inr ts \<Longrightarrow> list_all gm_ok (tg_Targets tg) \<Longrightarrow> gm_ok (sc_Params cfg) \<Longrightarrow>
     process_ok process \<Longrightarrow> list_all target_wf ts"
  unfolding targetsFromGroup_def by (rule targetsFromGroup_loop_wf)

text \<open>Completing the label sets of a group writes into the group; building from it again changes nothing.\<close>

lemma gm_fill_id: "list_all (\<lambda>(k, v). gm_has m k) kvs \<Longrightarrow> gm_fill m kvs = m"
  by (induction m kvs rule: gm_fill.induct) auto

lemma gm_fill_fill: "gm_fill (gm_fill m kvs) kvs = gm_fill m kvs"
  by (rule gm_fill_id)
    (auto simp: list_all_iff gm_has_def gm_get_fill map_add_def weak_map_of_SomeI split: option.splits)

text \<open>The targets of a group, instance by instance.\<close>

definition instance_result ::
  "(string \<Rightarrow> string) \<Rightarrow> relabeller \<Rightarrow> ScrapeConfig \<Rightarrow> TargetGroup \<Rightarrow> nat \<Rightarrow>
   string + (LabelSet \<times> LabelSet) option" where
  "instance_result quote process cfg tg i = populateLabels quote process (gm_fill (tg_Targets tg ! i) (tg_Labels tg)) cfg"

definition new_targets :: "ScrapeConfig \<Rightarrow> string + (LabelSet \<times> LabelSet) option \<Rightarrow> Target list" where
  "new_targets cfg r = (case r of Inr (Some (labels, orig)) \<Rightarrow> [NewTarget labels orig (sc_Params cfg)] | _ \<Rightarrow> [])"

lemma targetsFromGroup_loop_eq:
  "targetsFromGroup_loop quote process cfg tg i (drop i (tg_Targets tg)) =
    (case List.find (\<lambda>j. isl (instance_result quote process cfg tg j)) [i..<length (tg_Targets tg)] of
       Some j \<Rightarrow> Inl (''instance '' @ itoa (int j) @ '' in group '' @ tg_Source tg @ '': '' @
                 projl (instance_result quote process cfg tg j))
     | None \<Rightarrow> Inr (concat (map (\<lambda>j. new_targets cfg (instance_result quote process cfg tg j)) [i..<length (tg_Targets tg)])))"
proof (induction "length (tg_Targets tg) - i" arbitrary: i)
  case (Suc n)
  then have i: "i < length (tg_Targets tg)"
    by simp
  then have d: "drop i (tg_Targets tg) = tg_Targets tg ! i # drop (Suc i) (tg_Targets tg)"
    by (simp add: Cons_nth_drop_Suc)
  have IH: "n = length (tg_Targets tg) - Suc i"
    using Suc.hyps(2) by simp
  show ?case
    unfolding d upt_conv_Cons [OF i] targetsFromGroup_loop.simps Suc.hyps(1) [OF IH] instance_result_def [symmetric]
    by (simp add: new_targets_def split: sum.splits option.splits)
qed simp

text \<open>The targets of a group are those of its instances in order, less the dropped ones; the first instance
  that is refused makes the whole group fail, with an error that names its index and the group.\<close>

theorem targetsFromGroup_correct:
  "targetsFromGroup quote process cfg tg =
    (case List.find (\<lambda>j. isl (instance_result quote process cfg tg j)) [0..<length (tg_Targets tg)] of
       Some j \<Rightarrow> Inl (''instance '' @ itoa (int j) @ '' in group '' @ tg_Source tg @ '': '' @
                 projl (instance_result quote process cfg tg j))
     | None \<Rightarrow> Inr (concat (map (\<lambda>j. new_targets cfg (instance_result quote process cfg tg j)) [0..<length (tg_Targets tg)])))"
  using targetsFromGroup_loop_eq [of quote process cfg tg 0] by (simp add: targetsFromGroup_def)

end
