(* ===== verification/Scrape_Pool.thy ===== *)
theory Scrape_Pool
  imports Target
begin

text \<open>
  The scrape pool of a job (\<open>src/retrieval/scrape.go\<close>): the targets of the job by their hash. The appender
  and the context it holds are never used, because the proxy starts no scrape loop. The creation of an HTTP
  client is a parameter; its error leaves a nil client.
\<close>

record 'c ScrapePool =
  sp_config :: ScrapeConfig
  sp_client :: "'c option"
  sp_targets :: "(64 word, Target) gomap"

definition newScrapePool :: "ScrapeConfig \<Rightarrow> 'c ScrapePool" where
  "newScrapePool cfg = \<lparr>sp_config = cfg, sp_client = None, sp_targets = []\<rparr>"

text \<open>The first loop of \<open>sync\<close>: the unique hashes, and the targets with the new ones added.\<close>

fun sync_loop ::
  "(target_url \<Rightarrow> string) \<Rightarrow> (64 word, unit) gomap \<Rightarrow> (64 word, Target) gomap \<Rightarrow> Target list \<Rightarrow>
   (64 word, unit) gomap \<times> (64 word, Target) gomap" where
  "sync_loop render uniqueTargets targets [] = (uniqueTargets, targets)"
| "sync_loop render uniqueTargets targets (t # ts) =
    (let hash = target_hash render t in
     sync_loop render (gm_put uniqueTargets hash ())
       (if gm_has targets hash then targets else gm_put targets hash t) ts)"

definition sp_sync :: "(target_url \<Rightarrow> string) \<Rightarrow> Target list \<Rightarrow> 'c ScrapePool \<Rightarrow> 'c ScrapePool" where
  "sp_sync render ts sp =
    (case sync_loop render [] (sp_targets sp) ts of
       (uniqueTargets, targets) \<Rightarrow> sp\<lparr>sp_targets := gm_del_if (\<lambda>hash. \<not> gm_has uniqueTargets hash) targets\<rparr>)"

text \<open>A group whose targets cannot be built is logged and skipped.\<close>

fun sp_collect :: "(string \<Rightarrow> string) \<Rightarrow> relabeller \<Rightarrow> ScrapeConfig \<Rightarrow> Target list \<Rightarrow> TargetGroup list \<Rightarrow> Target list" where
  "sp_collect quote process cfg all [] = all"
| "sp_collect quote process cfg all (tg # tgs) =
    (case targetsFromGroup quote process cfg tg of
       Inl err \<Rightarrow> sp_collect quote process cfg all tgs
     | Inr targets \<Rightarrow> sp_collect quote process cfg (all @ targets) tgs)"

definition sp_Sync ::
  "(target_url \<Rightarrow> string) \<Rightarrow> (string \<Rightarrow> string) \<Rightarrow> relabeller \<Rightarrow> TargetGroup list \<Rightarrow> 'c ScrapePool \<Rightarrow> 'c ScrapePool" where
  "sp_Sync render quote process tgs sp = sp_sync render (sp_collect quote process (sp_config sp) [] tgs) sp"

definition sp_reload :: "(ScrapeConfig \<Rightarrow> string + 'c) \<Rightarrow> ScrapeConfig \<Rightarrow> 'c ScrapePool \<Rightarrow> 'c ScrapePool" where
  "sp_reload new_client cfg sp =
     sp\<lparr>sp_config := cfg, sp_client := (case new_client cfg of Inl err \<Rightarrow> None | Inr c \<Rightarrow> Some c)\<rparr>"

section \<open>Lemmas\<close>

text \<open>The first target with a given hash.\<close>

definition first_target :: "(target_url \<Rightarrow> string) \<Rightarrow> Target list \<Rightarrow> 64 word \<Rightarrow> Target option" where
  "first_target render ts h = List.find (\<lambda>t. target_hash render t = h) ts"

definition hashes :: "(target_url \<Rightarrow> string) \<Rightarrow> Target list \<Rightarrow> 64 word set" where
  "hashes render ts = target_hash render ` set ts"

lemma first_target_dom: "first_target render ts h \<noteq> None \<longleftrightarrow> h \<in> hashes render ts"
  by (auto simp: first_target_def hashes_def find_None_iff)

lemma sync_loop_spec:
  "sync_loop render u m ts = (u', m') \<Longrightarrow>
     dom (gm_get u') = dom (gm_get u) \<union> hashes render ts \<and>
     gm_get m' = first_target render ts ++ gm_get m \<and> (gm_ok m \<longrightarrow> gm_ok m')"
proof (induction render u m ts arbitrary: u' m' rule: sync_loop.induct)
  case (1 render u m)
  then show ?case
    by (simp add: hashes_def first_target_def map_add_def)
next
  case (2 render u m t ts)
  let ?h = "target_hash render t"
  let ?m = "if gm_has m ?h then m else gm_put m ?h t"
  have "gm_get m' = first_target render ts ++ gm_get ?m"
    using 2(1) [OF refl, of u' m'] 2(2) by (simp add: Let_def)
  also have "\<dots> = first_target render (t # ts) ++ gm_get m"
    by (auto simp: fun_eq_iff map_add_def first_target_def gm_has_def gm_get_put split: option.split)
  finally show ?case
    using 2(1) [OF refl, of u' m'] 2(2) by (auto simp: Let_def hashes_def gm_get_put)
qed

lemma sp_sync_get:
  "gm_get (sp_targets (sp_sync render ts sp)) =
     (first_target render ts ++ gm_get (sp_targets sp)) |` hashes render ts"
proof -
  obtain u m where e: "sync_loop render [] (sp_targets sp) ts = (u, m)"
    by (cases "sync_loop render [] (sp_targets sp) ts")
  have "{h. gm_has u h} = hashes render ts"
    using sync_loop_spec [OF e] by (auto simp: gm_has_iff)
  then show ?thesis
    using sync_loop_spec [OF e] by (simp add: sp_sync_def e gm_get_del_if)
qed

lemma sp_sync_simps [simp]:
  "sp_config (sp_sync render ts sp) = sp_config sp" "sp_client (sp_sync render ts sp) = sp_client sp"
  by (simp_all add: sp_sync_def split: prod.split)

lemma gm_ok_sp_sync: "gm_ok (sp_targets sp) \<Longrightarrow> gm_ok (sp_targets (sp_sync render ts sp))"
  using sync_loop_spec [of render "[]" "sp_targets sp" ts]
  by (auto simp: sp_sync_def split: prod.split)

text \<open>The invariant of a pool: every target is filed under its own hash and is well formed.\<close>

definition pool_ok :: "(target_url \<Rightarrow> string) \<Rightarrow> 'c ScrapePool \<Rightarrow> bool" where
  "pool_ok render sp \<longleftrightarrow> gm_ok (sp_targets sp) \<and> gm_ok (sc_Params (sp_config sp)) \<and>
     list_all (\<lambda>(h, t). target_hash render t = h \<and> target_wf t) (sp_targets sp)"

lemma pool_okD: "pool_ok render sp \<Longrightarrow> gm_get (sp_targets sp) h = Some t \<Longrightarrow> target_hash render t = h \<and> target_wf t"
  by (auto simp: pool_ok_def gm_get_Some_iff list_all_iff)

lemma pool_okI:
  assumes "gm_ok (sp_targets sp)" "gm_ok (sc_Params (sp_config sp))"
    and "\<And>h t. gm_get (sp_targets sp) h = Some t \<Longrightarrow> target_hash render t = h \<and> target_wf t"
  shows "pool_ok render sp"
  using assms by (auto simp: pool_ok_def list_all_iff gm_get_Some_iff [symmetric])

lemma pool_ok_new: "gm_ok (sc_Params cfg) \<Longrightarrow> pool_ok render (newScrapePool cfg)"
  by (simp add: pool_ok_def newScrapePool_def)

lemma pool_ok_reload: "gm_ok (sc_Params cfg) \<Longrightarrow> pool_ok render sp \<Longrightarrow> pool_ok render (sp_reload new_client cfg sp)"
  by (simp add: pool_ok_def sp_reload_def)

lemma first_targetD: "first_target render ts h = Some t \<Longrightarrow> t \<in> set ts \<and> target_hash render t = h"
  by (auto simp: first_target_def find_Some_iff)

lemma pool_ok_sync:
  assumes "pool_ok render sp" "list_all target_wf ts"
  shows "pool_ok render (sp_sync render ts sp)"
proof (rule pool_okI)
  show "gm_ok (sp_targets (sp_sync render ts sp))" "gm_ok (sc_Params (sp_config (sp_sync render ts sp)))"
    using assms(1) by (simp_all add: pool_ok_def gm_ok_sp_sync)
next
  fix h t
  assume "gm_get (sp_targets (sp_sync render ts sp)) h = Some t"
  then have "gm_get (sp_targets sp) h = Some t \<or> first_target render ts h = Some t"
    by (auto simp: sp_sync_get restrict_map_def map_add_def split: if_splits option.splits)
  then show "target_hash render t = h \<and> target_wf t"
    using pool_okD [OF assms(1)] first_targetD assms(2) by (fastforce simp: list_all_iff)
qed

definition groups_ok :: "TargetGroup list \<Rightarrow> bool" where
  "groups_ok tgs \<longleftrightarrow> list_all (\<lambda>tg. list_all gm_ok (tg_Targets tg)) tgs"

lemma sp_collect_wf:
  "list_all target_wf all \<Longrightarrow> groups_ok tgs \<Longrightarrow> gm_ok (sc_Params cfg) \<Longrightarrow> process_ok process \<Longrightarrow>
     list_all target_wf (sp_collect quote process cfg all tgs)"
proof (induction quote process cfg all tgs rule: sp_collect.induct)
  case (2 quote process cfg all tg tgs)
  then show ?case
    using targetsFromGroup_wf [of quote process cfg tg] by (auto simp: groups_ok_def split: sum.split)
qed simp

lemma pool_ok_Sync:
  "pool_ok render sp \<Longrightarrow> groups_ok tgs \<Longrightarrow> process_ok process \<Longrightarrow> pool_ok render (sp_Sync render quote process tgs sp)"
  unfolding sp_Sync_def by (intro pool_ok_sync sp_collect_wf) (simp_all add: pool_ok_def)

text \<open>All targets of the groups that do not fail.\<close>

definition group_targets ::
  "(string \<Rightarrow> string) \<Rightarrow> relabeller \<Rightarrow> ScrapeConfig \<Rightarrow> TargetGroup list \<Rightarrow> Target list" where
  "group_targets quote process cfg tgs =
     concat (map (\<lambda>tg. case targetsFromGroup quote process cfg tg of Inl err \<Rightarrow> [] | Inr ts \<Rightarrow> ts) tgs)"

lemma sp_collect_eq: "sp_collect quote process cfg all tgs = all @ group_targets quote process cfg tgs"
  by (induction quote process cfg all tgs rule: sp_collect.induct)
    (auto simp: group_targets_def split: sum.split)

lemma sp_Sync_get:
  "gm_get (sp_targets (sp_Sync render quote process tgs sp)) =
     (first_target render (group_targets quote process (sp_config sp) tgs) ++ gm_get (sp_targets sp))
       |` hashes render (group_targets quote process (sp_config sp) tgs)"
  by (simp add: sp_Sync_def sp_sync_get sp_collect_eq)

text \<open>C25. After \<open>Sync\<close> a pool holds exactly one target per hash of the targets the groups give: the one it held
  before, whose state is kept, or else the first of the list; groups that fail contribute nothing and
  targets that disappeared are gone. Syncing the same groups again changes nothing.\<close>

theorem sp_Sync_correct:
  "gm_get (sp_targets (sp_Sync render quote process tgs sp)) h =
      (if h \<in> hashes render (group_targets quote process (sp_config sp) tgs)
       then (case gm_get (sp_targets sp) h of
               Some t \<Rightarrow> Some t
             | None \<Rightarrow> first_target render (group_targets quote process (sp_config sp) tgs) h)
       else None) \<and>
   gm_get (sp_targets (sp_Sync render quote process tgs (sp_Sync render quote process tgs sp))) =
      gm_get (sp_targets (sp_Sync render quote process tgs sp))"
proof -
  have c: "sp_config (sp_Sync render quote process tgs sp) = sp_config sp"
    by (simp add: sp_Sync_def)
  show ?thesis
    unfolding sp_Sync_get c by (auto simp: fun_eq_iff restrict_map_def map_add_def split: option.split)
qed

end
