(* ===== verification/Target_Manager.thy ===== *)
theory Target_Manager
  imports Scrape_Pool
begin

text \<open>
  The target manager (\<open>src/retrieval/targetmanager.go\<close>): one target set per scrape configuration, with the
  scrape pool that the set's service discovery feeds.

  A context is the number of the \<open>Run\<close> that made it; the context of a target set is a child of it. \<open>Run\<close>
  and \<open>ApplyConfig\<close> hold the mutex while they hand new providers to every target set over an unbuffered
  channel. The set's goroutine receives them as long as its context is alive; once it is cancelled the
  goroutine may have left its loop, and then the send never returns: \<open>None\<close> stands for that. The parameter
  \<open>accepts\<close> says for which jobs a cancelled goroutine still receives.
\<close>

record 'c targetSet =
  ts_ctx :: nat
  ts_sp :: "'c ScrapePool"
  ts_providers :: "ScrapeConfig option"

record 'c TargetManager =
  tm_scrapeConfigs :: "ScrapeConfig list"
  tm_ctx :: "nat option"
  tm_runs :: nat
  tm_cancelled :: "nat list"
  tm_targetSets :: "(string, 'c targetSet) gomap"

definition NewTargetManager :: "'c TargetManager" where
  "NewTargetManager = \<lparr>tm_scrapeConfigs = [], tm_ctx = None, tm_runs = 0, tm_cancelled = [], tm_targetSets = []\<rparr>"

text \<open>The target set of a job at the end of its turn of the first loop.\<close>

definition job_set :: "(ScrapeConfig \<Rightarrow> string + 'c) \<Rightarrow> nat \<Rightarrow> ScrapeConfig \<Rightarrow> 'c targetSet option \<Rightarrow> 'c targetSet" where
  "job_set new_client ctx scfg old = (case old of
       None \<Rightarrow> \<lparr>ts_ctx = ctx, ts_sp = newScrapePool scfg, ts_providers = None\<rparr>
     | Some ts \<Rightarrow> ts\<lparr>ts_sp := sp_reload new_client scfg (ts_sp ts)\<rparr>)"

definition UpdateProviders :: "nat list \<Rightarrow> bool \<Rightarrow> ScrapeConfig \<Rightarrow> 'c targetSet \<Rightarrow> 'c targetSet option" where
  "UpdateProviders cancelled accepts scfg ts =
     (if ts_ctx ts \<notin> set cancelled \<or> accepts then Some (ts\<lparr>ts_providers := Some scfg\<rparr>) else None)"

fun tm_reload_loop ::
  "(ScrapeConfig \<Rightarrow> string + 'c) \<Rightarrow> (string \<Rightarrow> bool) \<Rightarrow> nat list \<Rightarrow> nat \<Rightarrow> (string, unit) gomap \<Rightarrow>
   (string, 'c targetSet) gomap \<Rightarrow> ScrapeConfig list \<Rightarrow> ((string, unit) gomap \<times> (string, 'c targetSet) gomap) option" where
  "tm_reload_loop new_client accepts cancelled ctx jobs sets [] = Some (jobs, sets)"
| "tm_reload_loop new_client accepts cancelled ctx jobs sets (scfg # scfgs) =
    (case UpdateProviders cancelled (accepts (sc_JobName scfg)) scfg
            (job_set new_client ctx scfg (gm_get sets (sc_JobName scfg))) of
       None \<Rightarrow> None
     | Some ts \<Rightarrow> tm_reload_loop new_client accepts cancelled ctx (gm_put jobs (sc_JobName scfg) ())
                   (gm_put sets (sc_JobName scfg) ts) scfgs)"

definition tm_reload ::
  "(ScrapeConfig \<Rightarrow> string + 'c) \<Rightarrow> (string \<Rightarrow> bool) \<Rightarrow> nat \<Rightarrow> 'c TargetManager \<Rightarrow> 'c TargetManager option" where
  "tm_reload new_client accepts ctx tm =
    (case tm_reload_loop new_client accepts (tm_cancelled tm) ctx [] (tm_targetSets tm) (tm_scrapeConfigs tm) of
       None \<Rightarrow> None
     | Some (jobs, sets) \<Rightarrow> Some (tm\<lparr>tm_targetSets := gm_del_if (\<lambda>name. \<not> gm_has jobs name) sets\<rparr>))"

definition tm_Run ::
  "(ScrapeConfig \<Rightarrow> string + 'c) \<Rightarrow> (string \<Rightarrow> bool) \<Rightarrow> 'c TargetManager \<Rightarrow> 'c TargetManager option" where
  "tm_Run new_client accepts tm =
     tm_reload new_client accepts (tm_runs tm) (tm\<lparr>tm_ctx := Some (tm_runs tm), tm_runs := tm_runs tm + 1\<rparr>)"

text \<open>\<open>Stop\<close> calls \<open>tm.cancel\<close>, which is nil before \<open>Run\<close>.\<close>

definition tm_Stop :: "'c TargetManager \<Rightarrow> panic + 'c TargetManager" where
  "tm_Stop tm = (case tm_ctx tm of
       None \<Rightarrow> Inl NilDereference
     | Some ctx \<Rightarrow> Inr (tm\<lparr>tm_cancelled := ctx # tm_cancelled tm\<rparr>))"

definition tm_ApplyConfig ::
  "(ScrapeConfig \<Rightarrow> string + 'c) \<Rightarrow> (string \<Rightarrow> bool) \<Rightarrow> ScrapeConfig list \<Rightarrow> 'c TargetManager \<Rightarrow> 'c TargetManager option" where
  "tm_ApplyConfig new_client accepts cfgs tm =
    (let tm' = tm\<lparr>tm_scrapeConfigs := cfgs\<rparr> in
     (case tm_ctx tm of None \<Rightarrow> Some tm' | Some ctx \<Rightarrow> tm_reload new_client accepts ctx tm'))"

definition tm_Targets :: "'c TargetManager \<Rightarrow> Target list" where
  "tm_Targets tm = concat (map (\<lambda>(name, ts). map snd (sp_targets (ts_sp ts))) (tm_targetSets tm))"

text \<open>The set of the job \<open>name\<close> hands the groups it discovered to its pool.\<close>

definition tm_Sync ::
  "(target_url \<Rightarrow> string) \<Rightarrow> (string \<Rightarrow> string) \<Rightarrow> relabeller \<Rightarrow> string \<Rightarrow> TargetGroup list \<Rightarrow>
   'c TargetManager \<Rightarrow> 'c TargetManager" where
  "tm_Sync render quote process name tgs tm = (case gm_get (tm_targetSets tm) name of
       None \<Rightarrow> tm
     | Some ts \<Rightarrow> tm\<lparr>tm_targetSets :=
         gm_put (tm_targetSets tm) name (ts\<lparr>ts_sp := sp_Sync render quote process tgs (ts_sp ts)\<rparr>)\<rparr>)"

section \<open>Reloading\<close>

text \<open>The configuration of a job: the last one with its name.\<close>

definition job_config :: "ScrapeConfig list \<Rightarrow> string \<Rightarrow> ScrapeConfig option" where
  "job_config cfgs = map_of (rev (map (\<lambda>c. (sc_JobName c, c)) cfgs))"

lemma job_config_simps [simp]:
  "job_config [] = Map.empty" "job_config (c # cs) = (\<lambda>n. case job_config cs n of Some d \<Rightarrow> Some d
     | None \<Rightarrow> if n = sc_JobName c then Some c else None)"
  by (auto simp: job_config_def fun_eq_iff map_add_def split: option.split)

lemma job_config_dom: "job_config cfgs n \<noteq> None \<longleftrightarrow> n \<in> sc_JobName ` set cfgs"
  by (induction cfgs) (auto split: option.splits)

text \<open>What a reload leaves of the target set of one job.\<close>

definition reloaded :: "nat \<Rightarrow> ScrapeConfig \<Rightarrow> 'c targetSet option \<Rightarrow> 'c targetSet \<Rightarrow> bool" where
  "reloaded ctx scfg old ts \<longleftrightarrow>
     ts_providers ts = Some scfg \<and> sp_config (ts_sp ts) = scfg \<and>
     (case old of None \<Rightarrow> ts_ctx ts = ctx \<and> sp_targets (ts_sp ts) = []
      | Some o' \<Rightarrow> ts_ctx ts = ts_ctx o' \<and> sp_targets (ts_sp ts) = sp_targets (ts_sp o'))"

lemma tm_reload_loop_spec:
  "tm_reload_loop new_client accepts cancelled ctx jobs sets scfgs = Some (jobs', sets') \<Longrightarrow>
     dom (gm_get jobs') = dom (gm_get jobs) \<union> sc_JobName ` set scfgs \<and>
     (\<forall>n. case job_config scfgs n of
        None \<Rightarrow> gm_get sets' n = gm_get sets n
      | Some c \<Rightarrow> \<exists>ts. gm_get sets' n = Some ts \<and> reloaded ctx c (gm_get sets n) ts) \<and>
     (gm_ok sets \<longrightarrow> gm_ok sets')"
proof (induction new_client accepts cancelled ctx jobs sets scfgs arbitrary: jobs' sets' rule: tm_reload_loop.induct)
  case (2 new_client accepts cancelled ctx jobs sets scfg scfgs)
  let ?n = "sc_JobName scfg"
  let ?ts = "job_set new_client ctx scfg (gm_get sets ?n)"
  obtain ts where ts: "UpdateProviders cancelled (accepts ?n) scfg ?ts = Some ts"
    using 2(2) by (auto split: option.splits)
  have rec: "tm_reload_loop new_client accepts cancelled ctx (gm_put jobs ?n ()) (gm_put sets ?n ts) scfgs =
      Some (jobs', sets')"
    using 2(2) ts by simp
  note IH = 2(1) [OF ts rec]
  have r: "reloaded ctx scfg (gm_get sets ?n) ts"
    using ts by (auto simp: UpdateProviders_def job_set_def reloaded_def newScrapePool_def sp_reload_def
        split: if_splits option.splits)
  have r2: "reloaded ctx c (gm_get sets ?n) ts'" if "reloaded ctx c (Some ts) ts'" for c ts'
    using that r by (auto simp: reloaded_def split: option.splits)
  have "case job_config (scfg # scfgs) n of
        None \<Rightarrow> gm_get sets' n = gm_get sets n
      | Some c \<Rightarrow> \<exists>ts. gm_get sets' n = Some ts \<and> reloaded ctx c (gm_get sets n) ts" for n
    using conjunct1 [OF conjunct2 [OF IH], rule_format, of n] r r2
    by (auto simp: gm_get_put split: option.splits if_splits)
  then show ?case
    using IH by (auto simp: gm_get_put)
qed simp

lemma tm_reload_loop_live:
  "list_all (\<lambda>(n, ts). ts_ctx ts \<notin> set cancelled) sets \<Longrightarrow> gm_ok sets \<Longrightarrow> ctx \<notin> set cancelled \<Longrightarrow>
     \<exists>r. tm_reload_loop new_client accepts cancelled ctx jobs sets scfgs = Some r"
proof (induction scfgs arbitrary: jobs sets)
  case (Cons scfg scfgs)
  let ?n = "sc_JobName scfg"
  let ?ts = "job_set new_client ctx scfg (gm_get sets ?n)"
  have "ts_ctx ?ts \<notin> set cancelled"
    using Cons.prems by (auto simp: job_set_def list_all_iff gm_get_Some_iff split: option.split)
  then obtain ts where ts: "UpdateProviders cancelled (accepts ?n) scfg ?ts = Some ts" "ts_ctx ts \<notin> set cancelled"
    by (simp add: UpdateProviders_def)
  have "list_all (\<lambda>(n, ts). ts_ctx ts \<notin> set cancelled) (gm_put sets ?n ts)"
    using Cons.prems ts(2) by (intro gm_list_all_put) simp_all
  then show ?case
    using Cons.IH [of "gm_put sets ?n ts"] Cons.prems ts(1) by auto
qed simp

lemma tm_reload_spec:
  assumes "tm_reload new_client accepts ctx tm = Some tm'"
  shows "(\<forall>n. case job_config (tm_scrapeConfigs tm) n of
        None \<Rightarrow> gm_get (tm_targetSets tm') n = None
      | Some c \<Rightarrow> \<exists>ts. gm_get (tm_targetSets tm') n = Some ts \<and> reloaded ctx c (gm_get (tm_targetSets tm) n) ts) \<and>
     (gm_ok (tm_targetSets tm) \<longrightarrow> gm_ok (tm_targetSets tm')) \<and>
     tm' = tm\<lparr>tm_targetSets := tm_targetSets tm'\<rparr>"
proof -
  obtain jobs sets where l: "tm_reload_loop new_client accepts (tm_cancelled tm) ctx [] (tm_targetSets tm)
      (tm_scrapeConfigs tm) = Some (jobs, sets)"
      "tm' = tm\<lparr>tm_targetSets := gm_del_if (\<lambda>name. \<not> gm_has jobs name) sets\<rparr>"
    using assms by (auto simp: tm_reload_def split: option.splits)
  note s = tm_reload_loop_spec [OF l(1)]
  have "gm_has jobs n \<longleftrightarrow> job_config (tm_scrapeConfigs tm) n \<noteq> None" for n
    using s job_config_dom [of "tm_scrapeConfigs tm" n] by (auto simp: gm_has_iff)
  then show ?thesis
    using s l(2) by (auto simp: gm_get_del_if split: option.splits)
qed

lemma tm_ApplyConfig_configs:
  "tm_ApplyConfig new_client accepts cfgs tm = Some tm' \<Longrightarrow> tm_scrapeConfigs tm' = cfgs"
  by (cases "tm_ctx tm") (auto simp: tm_ApplyConfig_def tm_reload_def split: option.splits)

section \<open>The invariant\<close>

definition set_ok :: "(target_url \<Rightarrow> string) \<Rightarrow> nat \<Rightarrow> 'c targetSet \<Rightarrow> bool" where
  "set_ok render runs ts \<longleftrightarrow> pool_ok render (ts_sp ts) \<and> ts_ctx ts < runs \<and>
     ts_providers ts = Some (sp_config (ts_sp ts))"

definition cfgs_ok :: "ScrapeConfig list \<Rightarrow> bool" where
  "cfgs_ok cfgs \<longleftrightarrow> list_all (\<lambda>c. gm_ok (sc_Params c)) cfgs"

definition tm_inv :: "(target_url \<Rightarrow> string) \<Rightarrow> 'c TargetManager \<Rightarrow> bool" where
  "tm_inv render tm \<longleftrightarrow> gm_ok (tm_targetSets tm) \<and> cfgs_ok (tm_scrapeConfigs tm) \<and>
     list_all (\<lambda>(n, ts). set_ok render (tm_runs tm) ts) (tm_targetSets tm) \<and>
     list_all (\<lambda>r. r < tm_runs tm) (tm_cancelled tm) \<and>
     (case tm_ctx tm of
        None \<Rightarrow> tm_targetSets tm = []
      | Some ctx \<Rightarrow> ctx < tm_runs tm \<and>
          (\<forall>n. map_option (\<lambda>ts. sp_config (ts_sp ts)) (gm_get (tm_targetSets tm) n) = job_config (tm_scrapeConfigs tm) n))"

lemma job_config_in: "job_config cfgs n = Some c \<Longrightarrow> c \<in> set cfgs \<and> sc_JobName c = n"
  by (induction cfgs) (auto split: option.splits if_splits)

lemma reloaded_ok:
  assumes "reloaded ctx c old ts" "gm_ok (sc_Params c)" "ctx < runs" "\<And>o'. old = Some o' \<Longrightarrow> set_ok render runs o'"
  shows "set_ok render runs ts"
  using assms by (cases old) (auto simp: reloaded_def set_ok_def pool_ok_def)

lemma tm_reload_inv:
  assumes r: "tm_reload new_client accepts ctx tm = Some tm'"
    and "tm_ctx tm = Some ctx" "ctx < tm_runs tm" "gm_ok (tm_targetSets tm)" "cfgs_ok (tm_scrapeConfigs tm)"
    and "list_all (\<lambda>(n, ts). set_ok render (tm_runs tm) ts) (tm_targetSets tm)"
    and "list_all (\<lambda>r. r < tm_runs tm) (tm_cancelled tm)"
  shows "tm_inv render tm'"
proof -
  note s = tm_reload_spec [OF r]
  define sets where "sets = tm_targetSets tm'"
  have t: "tm' = tm\<lparr>tm_targetSets := sets\<rparr>"
    using s by (simp add: sets_def)
  have ok: "gm_ok sets"
    using s assms(4) by (simp add: sets_def)
  have g: "case job_config (tm_scrapeConfigs tm) n of
        None \<Rightarrow> gm_get sets n = None
      | Some c \<Rightarrow> \<exists>ts. gm_get sets n = Some ts \<and> reloaded ctx c (gm_get (tm_targetSets tm) n) ts" for n
    using conjunct1 [OF s, rule_format, of n] by (simp only: sets_def)
  have "set_ok render (tm_runs tm) ts" if n: "gm_get sets n = Some ts" for n ts
  proof -
    obtain c where c: "job_config (tm_scrapeConfigs tm) n = Some c"
        "reloaded ctx c (gm_get (tm_targetSets tm) n) ts"
      using g [of n] n by (auto split: option.splits)
    then have "gm_ok (sc_Params c)"
      using assms(5) job_config_in by (fastforce simp: cfgs_ok_def list_all_iff)
    then show ?thesis
      using c(2) assms(3,4,6) by (auto intro: reloaded_ok simp: gm_list_all)
  qed
  moreover have "map_option (\<lambda>ts. sp_config (ts_sp ts)) (gm_get sets n) = job_config (tm_scrapeConfigs tm) n" for n
    using g [of n] by (auto simp: reloaded_def split: option.splits)
  ultimately show ?thesis
    using ok assms(2-7) by (simp add: tm_inv_def t gm_list_all)
qed

text \<open>The steps of a target manager: its three operations and the syncs of its sets, in any order. A blocked
  operation is no step.\<close>

inductive tm_step ::
  "(target_url \<Rightarrow> string) \<Rightarrow> (string \<Rightarrow> string) \<Rightarrow> relabeller \<Rightarrow> (ScrapeConfig \<Rightarrow> string + 'c) \<Rightarrow>
   'c TargetManager \<Rightarrow> 'c TargetManager \<Rightarrow> bool"
  for render quote process new_client where
  apply_config: "cfgs_ok cfgs \<Longrightarrow> tm_ApplyConfig new_client accepts cfgs tm = Some tm' \<Longrightarrow>
    tm_step render quote process new_client tm tm'"
| run: "tm_Run new_client accepts tm = Some tm' \<Longrightarrow> tm_step render quote process new_client tm tm'"
| stop: "tm_Stop tm = Inr tm' \<Longrightarrow> tm_step render quote process new_client tm tm'"
| sync: "groups_ok tgs \<Longrightarrow> tm_step render quote process new_client tm (tm_Sync render quote process name tgs tm)"

inductive tm_reachable ::
  "(target_url \<Rightarrow> string) \<Rightarrow> (string \<Rightarrow> string) \<Rightarrow> relabeller \<Rightarrow> (ScrapeConfig \<Rightarrow> string + 'c) \<Rightarrow> 'c TargetManager \<Rightarrow> bool"
  for render quote process new_client where
  init: "tm_reachable render quote process new_client NewTargetManager"
| step: "tm_reachable render quote process new_client tm \<Longrightarrow> tm_step render quote process new_client tm tm' \<Longrightarrow>
    tm_reachable render quote process new_client tm'"

lemma set_ok_mono: "set_ok render runs ts \<Longrightarrow> runs \<le> runs' \<Longrightarrow> set_ok render runs' ts"
  by (simp add: set_ok_def)

lemma tm_inv_apply:
  assumes "tm_inv render tm" "cfgs_ok cfgs" "tm_ApplyConfig new_client accepts cfgs tm = Some tm'"
  shows "tm_inv render tm'"
proof (cases "tm_ctx tm")
  case None
  then show ?thesis
    using assms by (auto simp: tm_ApplyConfig_def tm_inv_def)
next
  case (Some ctx)
  then have "tm_reload new_client accepts ctx (tm\<lparr>tm_scrapeConfigs := cfgs\<rparr>) = Some tm'"
    using assms(3) by (simp add: tm_ApplyConfig_def)
  then show ?thesis
    by (rule tm_reload_inv) (use Some assms in \<open>simp_all add: tm_inv_def\<close>)
qed

lemma tm_inv_run:
  assumes "tm_inv render tm" "tm_Run new_client accepts tm = Some tm'"
  shows "tm_inv render tm'"
  using assms(2) unfolding tm_Run_def
  by (rule tm_reload_inv)
    (use assms(1) in \<open>auto simp: tm_inv_def list_all_iff intro: set_ok_mono less_SucI\<close>)

lemma tm_inv_stop: "tm_inv render tm \<Longrightarrow> tm_Stop tm = Inr tm' \<Longrightarrow> tm_inv render tm'"
  by (auto simp: tm_Stop_def tm_inv_def split: option.splits)

lemma tm_inv_sync:
  assumes "tm_inv render tm" "groups_ok tgs" "process_ok process"
  shows "tm_inv render (tm_Sync render quote process name tgs tm)"
proof (cases "gm_get (tm_targetSets tm) name")
  case None
  then show ?thesis
    using assms(1) by (simp add: tm_Sync_def)
next
  case (Some ts)
  have "set_ok render (tm_runs tm) ts"
    using assms(1) Some by (auto simp: tm_inv_def gm_list_all)
  then have "set_ok render (tm_runs tm) (ts\<lparr>ts_sp := sp_Sync render quote process tgs (ts_sp ts)\<rparr>)"
    using assms(2,3) pool_ok_Sync [of render "ts_sp ts" tgs process quote] by (simp add: set_ok_def sp_Sync_def)
  then have l: "list_all (\<lambda>(n, ts). set_ok render (tm_runs tm) ts)
      (gm_put (tm_targetSets tm) name (ts\<lparr>ts_sp := sp_Sync render quote process tgs (ts_sp ts)\<rparr>))"
    using assms(1) by (intro gm_list_all_put) (simp_all add: tm_inv_def)
  show ?thesis
  proof (cases "tm_ctx tm")
    case None
    then show ?thesis
      using assms(1) Some by (simp add: tm_inv_def)
  next
    case (Some ctx)
    have "map_option (\<lambda>ts. sp_config (ts_sp ts)) (gm_get (tm_targetSets tm) name) = job_config (tm_scrapeConfigs tm) name"
      using assms(1) Some by (simp add: tm_inv_def)
    then show ?thesis
      using assms(1) Some l \<open>gm_get (tm_targetSets tm) name = Some ts\<close>
      by (auto simp: tm_inv_def tm_Sync_def gm_get_put sp_Sync_def)
  qed
qed

lemma tm_inv_step:
  "tm_step render quote process new_client tm tm' \<Longrightarrow> process_ok process \<Longrightarrow> tm_inv render tm \<Longrightarrow> tm_inv render tm'"
  by (induction rule: tm_step.induct) (auto intro: tm_inv_apply tm_inv_run tm_inv_stop tm_inv_sync)

lemma tm_inv_reachable:
  "tm_reachable render quote process new_client tm \<Longrightarrow> process_ok process \<Longrightarrow> tm_inv render tm"
proof (induction rule: tm_reachable.induct)
  case init
  then show ?case
    by (simp add: tm_inv_def NewTargetManager_def cfgs_ok_def)
next
  case (step tm tm')
  then show ?case
    by (blast intro: tm_inv_step)
qed


lemma tm_inv_targets: "tm_inv render tm \<Longrightarrow> list_all target_wf (tm_Targets tm)"
  by (fastforce simp: tm_inv_def tm_Targets_def set_ok_def pool_ok_def list_all_iff)

text \<open>An example: a manager configured with one job, started, and fed one group of one target.\<close>

definition ex_process :: relabeller where
  "ex_process = relabel_Process (\<lambda>_. [])"

definition ex_new_client :: "ScrapeConfig \<Rightarrow> string + nat" where
  "ex_new_client cfg = Inr 1"

definition ex_group :: TargetGroup where
  "ex_group = \<lparr>tg_Targets = [[(AddressLabel, ''h'')]], tg_Labels = [], tg_Source = ''s''\<rparr>"

definition ex_set :: "nat targetSet" where
  "ex_set = \<lparr>ts_ctx = 0, ts_sp = newScrapePool ex_config, ts_providers = Some ex_config\<rparr>"

definition ex_running :: "nat TargetManager" where
  "ex_running = \<lparr>tm_scrapeConfigs = [ex_config], tm_ctx = Some 0, tm_runs = 1, tm_cancelled = [],
     tm_targetSets = [(''n'', ex_set)]\<rparr>"

definition ex_tm :: "nat TargetManager" where
  "ex_tm = tm_Sync tu_Host id ex_process ''n'' [ex_group] ex_running"

lemma process_ok_ex: "process_ok ex_process"
  by (simp add: ex_process_def process_ok_relabel)

lemma ex_running_reachable: "tm_reachable tu_Host id ex_process ex_new_client ex_running"
proof -
  let ?step = "tm_step tu_Host id ex_process ex_new_client"
  let ?tm = "NewTargetManager\<lparr>tm_scrapeConfigs := [ex_config]\<rparr> :: nat TargetManager"
  have "?step NewTargetManager ?tm"
    by (rule tm_step.apply_config [of "[ex_config]"]) (simp_all add: cfgs_ok_def ex_config_def tm_ApplyConfig_def NewTargetManager_def)
  moreover have "?step ?tm ex_running"
    by (rule tm_step.run) (simp add: tm_Run_def tm_reload_def NewTargetManager_def UpdateProviders_def job_set_def
        ex_running_def ex_set_def ex_config_def gm_put_def gm_del_if_def gm_has_def gm_get_def)
  ultimately show ?thesis
    by (blast intro: tm_reachable.intros)
qed

lemma ex_tm_reachable: "tm_reachable tu_Host id ex_process ex_new_client ex_tm"
  unfolding ex_tm_def
  by (rule tm_reachable.step [OF ex_running_reachable], rule tm_step.sync)
    (simp add: groups_ok_def ex_group_def gm_ok_def)

lemma ex_tm_targets:
  "map (\<lambda>t. gm_str (t_labels t) InstanceLabel) (tm_Targets ex_tm) = [''h:443'']"
proof -
  have g: "targetsFromGroup id ex_process ex_config ex_group = Inr
      [NewTarget [(''__address__'', ''h:443''), (''__scheme__'', ''https''), (''__metrics_path__'', ''/m''),
                 (''job'', ''n''), (''instance'', ''h:443'')]
                [(''__address__'', ''h''), (''__scheme__'', ''https''), (''__metrics_path__'', ''/m''), (''job'', ''n'')]
         (sc_Params ex_config)]"
    by (simp add: targetsFromGroup_def ex_group_def ex_process_def ex_populate)
  show ?thesis
    by (simp add: ex_tm_def ex_running_def ex_set_def tm_Sync_def sp_Sync_def newScrapePool_def g sp_sync_def Let_def
        gm_has_def gm_get_def gm_put_def gm_del_if_def tm_Targets_def gm_str_def NewTarget_def InstanceLabel_def)
qed

text \<open>C21. Whatever the order of configuration changes, starts, stops and discovery updates, the target manager
  holds, once it runs, exactly the jobs of its configuration, each with the configuration of that job, and
  all its targets are well formed and appear once per job.\<close>

theorem tm_reachable_targets:
  assumes "tm_reachable render quote process new_client tm" "process_ok process"
  shows "list_all target_wf (tm_Targets tm) \<and>
    list_all (\<lambda>(n, ts). distinct (map (target_hash render) (map snd (sp_targets (ts_sp ts))))) (tm_targetSets tm) \<and>
    (tm_ctx tm = None \<and> tm_Targets tm = [] \<or>
     tm_ctx tm \<noteq> None \<and> (\<forall>n. map_option (\<lambda>ts. sp_config (ts_sp ts)) (gm_get (tm_targetSets tm) n) =
       job_config (tm_scrapeConfigs tm) n))"
proof -
  have inv: "tm_inv render tm"
    using tm_inv_reachable [OF assms] .
  have "distinct (map (target_hash render) (map snd (sp_targets sp)))" if "pool_ok render sp" for sp :: "'a ScrapePool"
  proof -
    have "map (target_hash render) (map snd (sp_targets sp)) = map fst (sp_targets sp)"
      using that by (auto simp: pool_ok_def list_all_iff)
    then show ?thesis
      using that by (simp only: pool_ok_def gm_ok_def)
  qed
  then show ?thesis
    using inv tm_inv_targets [OF inv]
    by (fastforce simp: tm_inv_def tm_Targets_def set_ok_def list_all_iff split: option.splits)
qed

theorem tm_reachable_targets_witness:
  "list_all target_wf (tm_Targets ex_tm) \<and> map (\<lambda>t. gm_str (t_labels t) InstanceLabel) (tm_Targets ex_tm) = [''h:443'']"
  using tm_reachable_targets [OF ex_tm_reachable process_ok_ex] ex_tm_targets by blast

text \<open>C34. As long as the manager has not been stopped, a new configuration is applied without blocking: a job that
  stays keeps its targets, whatever else of its configuration changed, a new job starts with none, and a job
  that is gone is removed with its targets.\<close>

theorem tm_ApplyConfig_live:
  assumes "tm_reachable render quote process new_client tm" "process_ok process"
    and "tm_ctx tm \<noteq> None" "tm_cancelled tm = []"
  shows "\<exists>tm'. tm_ApplyConfig new_client accepts cfgs tm = Some tm' \<and>
    (\<forall>n. map_option (\<lambda>ts. sp_targets (ts_sp ts)) (gm_get (tm_targetSets tm') n) =
      (if n \<in> sc_JobName ` set cfgs
       then (case gm_get (tm_targetSets tm) n of Some ts \<Rightarrow> Some (sp_targets (ts_sp ts)) | None \<Rightarrow> Some [])
       else None))"
proof -
  have inv: "tm_inv render tm"
    using tm_inv_reachable [OF assms(1,2)] .
  obtain ctx where ctx: "tm_ctx tm = Some ctx"
    using assms(3) by auto
  let ?tm = "tm\<lparr>tm_scrapeConfigs := cfgs\<rparr>"
  obtain r where "tm_reload_loop new_client accepts (tm_cancelled ?tm) ctx [] (tm_targetSets ?tm) (tm_scrapeConfigs ?tm) = Some r"
    using tm_reload_loop_live [of "[]" "tm_targetSets tm" ctx new_client accepts "[]" cfgs] inv assms(4)
    by (auto simp: tm_inv_def list_all_iff)
  then obtain tm' where tm': "tm_reload new_client accepts ctx ?tm = Some tm'"
    by (cases r) (simp add: tm_reload_def)
  have "map_option (\<lambda>ts. sp_targets (ts_sp ts)) (gm_get (tm_targetSets tm') n) =
      (if n \<in> sc_JobName ` set cfgs
       then (case gm_get (tm_targetSets tm) n of Some ts \<Rightarrow> Some (sp_targets (ts_sp ts)) | None \<Rightarrow> Some [])
       else None)" for n
    using conjunct1 [OF tm_reload_spec [OF tm'], rule_format, of n] job_config_dom [of cfgs n]
    by (auto simp: reloaded_def split: option.splits)
  then show ?thesis
    using tm' ctx by (auto simp: tm_ApplyConfig_def)
qed

theorem tm_ApplyConfig_live_witness:
  "\<exists>tm'. tm_ApplyConfig ex_new_client (\<lambda>_. False) [ex_config\<lparr>sc_Scheme := ''http''\<rparr>] ex_tm = Some tm' \<and>
     map_option (\<lambda>ts. sp_targets (ts_sp ts)) (gm_get (tm_targetSets tm') ''n'') =
     map_option (\<lambda>ts. sp_targets (ts_sp ts)) (gm_get (tm_targetSets ex_tm) ''n'')"
proof -
  have f: "tm_ctx ex_tm \<noteq> None" "tm_cancelled ex_tm = []" "\<exists>ts. gm_get (tm_targetSets ex_tm) ''n'' = Some ts"
    by (simp_all add: ex_tm_def ex_running_def tm_Sync_def gm_get_Cons gm_get_put)
  show ?thesis
    using tm_ApplyConfig_live [OF ex_tm_reachable process_ok_ex f(1,2), of "\<lambda>_. False" "[ex_config\<lparr>sc_Scheme := ''http''\<rparr>]"] f(3)
    by (auto simp: ex_config_def)
qed

text \<open>Stopping a manager that does not run is a nil dereference. Once it is stopped, a new configuration with
  any job can block for ever, with the mutex held.\<close>

theorem tm_ApplyConfig_after_stop:
  assumes "tm_reachable render quote process new_client tm" "process_ok process" "tm_runs tm \<le> 1"
  shows "case tm_Stop tm of
      Inl p \<Rightarrow> p = NilDereference \<and> tm_ctx tm = None
    | Inr tm' \<Rightarrow> tm_ApplyConfig new_client (\<lambda>_. False) (cfg # cfgs) tm' = None"
proof (cases "tm_ctx tm")
  case None
  then show ?thesis
    by (simp add: tm_Stop_def)
next
  case (Some ctx)
  have inv: "tm_inv render tm"
    using tm_inv_reachable [OF assms(1,2)] .
  have ctx: "ctx = 0"
    using inv assms(3) Some by (simp add: tm_inv_def)
  have "ts_ctx ts < tm_runs tm" if "gm_get (tm_targetSets tm) n = Some ts" for n ts
    using that inv by (auto simp: tm_inv_def gm_list_all set_ok_def)
  then have "ts_ctx ts = 0" if "gm_get (tm_targetSets tm) n = Some ts" for n ts
    using that assms(3) by fastforce
  then have "ts_ctx (job_set new_client 0 cfg (gm_get (tm_targetSets tm) (sc_JobName cfg))) = 0"
    by (auto simp: job_set_def split: option.split)
  then show ?thesis
    using Some ctx by (simp add: tm_Stop_def tm_ApplyConfig_def tm_reload_def UpdateProviders_def)
qed


theorem tm_ApplyConfig_after_stop_witness:
  "\<exists>tm'. tm_Stop ex_tm = Inr tm' \<and> tm_ApplyConfig ex_new_client (\<lambda>_. False) [ex_config] tm' = None"
proof -
  have "tm_runs ex_tm \<le> 1" "\<exists>tm'. tm_Stop ex_tm = Inr tm'"
    by (simp_all add: ex_tm_def ex_running_def tm_Sync_def gm_get_Cons tm_Stop_def)
  then show ?thesis
    using tm_ApplyConfig_after_stop [OF ex_tm_reachable process_ok_ex, of ex_config "[]"] by auto
qed

end
