(* ===== verification/Target_Manager_Spec.thy ===== *)
theory Target_Manager_Spec
  imports Target_Manager
begin

text \<open>
  What the target manager promises, without contexts, channels, pools and providers: a map from the jobs of the
  configuration to their targets by hash, and four events that change it. The manager of \<open>Target_Manager\<close> refines
  it: after any sequence of operations that did not block, its targets are a function of the events alone.
\<close>

section \<open>The specification\<close>

record target_spec =
  sp_jobs :: "string \<rightharpoonup> ScrapeConfig"
  sp_running :: bool
  sp_held :: "string \<rightharpoonup> (64 word \<rightharpoonup> Target)"

datatype tm_event = Configured "ScrapeConfig list" | Started_Running | Stopped_Running | Discovered string "TargetGroup list"

definition spec_init :: target_spec where
  "spec_init = \<lparr>sp_jobs = Map.empty, sp_running = False, sp_held = Map.empty\<rparr>"

text \<open>There is a set of targets for every job of the configuration, a new one is empty.\<close>

definition spec_reload :: "target_spec \<Rightarrow> target_spec" where
  "spec_reload s = s\<lparr>sp_held := (\<lambda>n. case sp_jobs s n of
       None \<Rightarrow> None
     | Some c \<Rightarrow> Some (case sp_held s n of None \<Rightarrow> Map.empty | Some ts \<Rightarrow> ts))\<rparr>"

text \<open>The targets found now are kept, with the state they had if they were held before; the others are dropped.\<close>

definition spec_discover :: "(target_url \<Rightarrow> string) \<Rightarrow> Target list \<Rightarrow> (64 word \<rightharpoonup> Target) \<Rightarrow> 64 word \<rightharpoonup> Target" where
  "spec_discover render found ts = (\<lambda>h. if h \<in> hashes render found
     then (case ts h of Some t \<Rightarrow> Some t | None \<Rightarrow> first_target render found h) else None)"

definition spec_event ::
  "(target_url \<Rightarrow> string) \<Rightarrow> (string \<Rightarrow> string) \<Rightarrow> relabeller \<Rightarrow> target_spec \<Rightarrow> tm_event \<Rightarrow> target_spec" where
  "spec_event render quote process s e = (case e of
     Configured cfgs \<Rightarrow> (let s' = s\<lparr>sp_jobs := job_config cfgs\<rparr> in if sp_running s then spec_reload s' else s')
   | Started_Running \<Rightarrow> spec_reload (s\<lparr>sp_running := True\<rparr>)
   | Stopped_Running \<Rightarrow> s
   | Discovered n tgs \<Rightarrow> (case (sp_jobs s n, sp_held s n) of
       (Some c, Some ts) \<Rightarrow> s\<lparr>sp_held := (sp_held s)(n \<mapsto> spec_discover render (group_targets quote process c tgs) ts)\<rparr>
     | _ \<Rightarrow> s))"

section \<open>Runs of the target manager\<close>

text \<open>A run with its events. An operation that blocks does not end, so it is in no run.\<close>

inductive tm_run ::
  "(target_url \<Rightarrow> string) \<Rightarrow> (string \<Rightarrow> string) \<Rightarrow> relabeller \<Rightarrow> (ScrapeConfig \<Rightarrow> string + 'c) \<Rightarrow>
   tm_event list \<Rightarrow> 'c TargetManager \<Rightarrow> bool"
  for render quote process new_client where
  start: "tm_run render quote process new_client [] NewTargetManager"
| configured: "tm_run render quote process new_client es tm \<Longrightarrow> cfgs_ok cfgs \<Longrightarrow>
    tm_ApplyConfig new_client accepts cfgs tm = Some tm' \<Longrightarrow>
    tm_run render quote process new_client (es @ [Configured cfgs]) tm'"
| started: "tm_run render quote process new_client es tm \<Longrightarrow> tm_Run new_client accepts tm = Some tm' \<Longrightarrow>
    tm_run render quote process new_client (es @ [Started_Running]) tm'"
| stopped: "tm_run render quote process new_client es tm \<Longrightarrow> tm_Stop tm = Inr tm' \<Longrightarrow>
    tm_run render quote process new_client (es @ [Stopped_Running]) tm'"
| discovered: "tm_run render quote process new_client es tm \<Longrightarrow> groups_ok tgs \<Longrightarrow>
    tm_run render quote process new_client (es @ [Discovered n tgs]) (tm_Sync render quote process n tgs tm)"

lemma tm_run_reachable: "tm_run render quote process new_client es tm \<Longrightarrow> tm_reachable render quote process new_client tm"
  by (induction rule: tm_run.induct) (blast intro: tm_reachable.intros tm_step.intros)+

section \<open>Refinement\<close>

definition tm_abs :: "'c TargetManager \<Rightarrow> target_spec" where
  "tm_abs tm = \<lparr>sp_jobs = job_config (tm_scrapeConfigs tm), sp_running = (tm_ctx tm \<noteq> None),
     sp_held = (\<lambda>n. map_option (\<lambda>ts. gm_get (sp_targets (ts_sp ts))) (gm_get (tm_targetSets tm) n))\<rparr>"

lemma tm_reload_abs:
  assumes "tm_reload new_client accepts ctx tm = Some tm'"
  shows "tm_abs tm' = spec_reload (tm_abs tm)"
proof -
  note s = tm_reload_spec [OF assms]
  have "map_option (\<lambda>ts. gm_get (sp_targets (ts_sp ts))) (gm_get (tm_targetSets tm') n) =
      sp_held (spec_reload (tm_abs tm)) n" for n
    using conjunct1 [OF s, rule_format, of n]
    by (auto simp: spec_reload_def tm_abs_def reloaded_def split: option.splits)
  moreover obtain sets where "tm' = tm\<lparr>tm_targetSets := sets\<rparr>"
    using s by blast
  ultimately show ?thesis
    by (simp add: tm_abs_def spec_reload_def fun_eq_iff)
qed

lemma tm_Sync_abs:
  assumes "tm_inv render tm"
  shows "tm_abs (tm_Sync render quote process n tgs tm) = spec_event render quote process (tm_abs tm) (Discovered n tgs)"
proof (cases "gm_get (tm_targetSets tm) n")
  case None
  then show ?thesis
    by (simp add: tm_Sync_def spec_event_def tm_abs_def split: option.split)
next
  case (Some ts)
  then have "job_config (tm_scrapeConfigs tm) n = Some (sp_config (ts_sp ts))"
  proof (cases "tm_ctx tm")
    case None
    then show ?thesis
      using assms Some by (simp add: tm_inv_def)
  next
    case (Some ctx)
    then have "map_option (\<lambda>ts. sp_config (ts_sp ts)) (gm_get (tm_targetSets tm) n) = job_config (tm_scrapeConfigs tm) n"
      using assms by (simp add: tm_inv_def)
    then show ?thesis
      using \<open>gm_get (tm_targetSets tm) n = Some ts\<close> by simp
  qed
  moreover have "gm_get (sp_targets (sp_Sync render quote process tgs (ts_sp ts))) =
      spec_discover render (group_targets quote process (sp_config (ts_sp ts)) tgs) (gm_get (sp_targets (ts_sp ts)))"
    by (auto simp: sp_Sync_get spec_discover_def restrict_map_def map_add_def fun_eq_iff split: option.split)
  ultimately show ?thesis
    using Some by (simp add: tm_Sync_def spec_event_def tm_abs_def gm_get_put fun_eq_iff)
qed

lemma tm_ApplyConfig_abs:
  assumes "tm_ApplyConfig new_client accepts cfgs tm = Some tm'"
  shows "tm_abs tm' = spec_event render quote process (tm_abs tm) (Configured cfgs)"
proof (cases "tm_ctx tm")
  case None
  then show ?thesis
    using assms by (auto simp: tm_ApplyConfig_def spec_event_def tm_abs_def)
next
  case (Some ctx)
  then have "tm_abs tm' = spec_reload (tm_abs (tm\<lparr>tm_scrapeConfigs := cfgs\<rparr>))"
    using assms by (intro tm_reload_abs [of new_client accepts ctx]) (simp add: tm_ApplyConfig_def)
  then show ?thesis
    using Some by (simp add: spec_event_def tm_abs_def)
qed

lemma tm_Run_abs:
  assumes "tm_Run new_client accepts tm = Some tm'"
  shows "tm_abs tm' = spec_event render quote process (tm_abs tm) Started_Running"
  using tm_reload_abs [OF assms [unfolded tm_Run_def]] by (simp add: spec_event_def tm_abs_def)

lemma tm_Stop_abs: "tm_Stop tm = Inr tm' \<Longrightarrow> tm_abs tm' = spec_event render quote process (tm_abs tm) Stopped_Running"
  by (auto simp: tm_Stop_def spec_event_def tm_abs_def split: option.splits)

text \<open>C5. The target manager implements the specification: after any operations in any order that have not blocked, with
  whatever goroutines still receive, the jobs, whether it runs and the targets of every job by their hash are what the
  sequence of events says. In particular contexts, HTTP clients and restarts never change which targets there are.\<close>

theorem tm_refines_spec:
  assumes "tm_run render quote process new_client es tm" "process_ok process"
  shows "tm_abs tm = foldl (spec_event render quote process) spec_init es"
  using assms(1)
proof (induction rule: tm_run.induct)
  case start
  then show ?case
    by (simp add: tm_abs_def NewTargetManager_def spec_init_def)
next
  case (configured es tm cfgs accepts tm')
  then show ?case
    by (simp add: tm_ApplyConfig_abs [OF configured(3), of render quote process])
next
  case (started es tm accepts tm')
  then show ?case
    by (simp add: tm_Run_abs [OF started(2), of render quote process])
next
  case (stopped es tm tm')
  then show ?case
    by (simp add: tm_Stop_abs [OF stopped(2), of render quote process])
next
  case (discovered es tm tgs n)
  then show ?case
    by (simp add: tm_Sync_abs [OF tm_inv_reachable [OF tm_run_reachable [OF discovered(1)] assms(2)]])
qed

text \<open>The run of the example.\<close>

lemma ex_tm_run:
  "tm_run tu_Host id ex_process ex_new_client [Configured [ex_config], Started_Running, Discovered ''n'' [ex_group]] ex_tm"
proof -
  let ?run = "tm_run tu_Host id ex_process ex_new_client"
  let ?tm = "NewTargetManager\<lparr>tm_scrapeConfigs := [ex_config]\<rparr> :: nat TargetManager"
  have "?run ([] @ [Configured [ex_config]]) ?tm"
    by (rule tm_run.configured [OF tm_run.start]) (simp_all add: cfgs_ok_def ex_config_def tm_ApplyConfig_def NewTargetManager_def)
  then have "?run (([] @ [Configured [ex_config]]) @ [Started_Running]) ex_running"
    by (rule tm_run.started) (simp add: tm_Run_def tm_reload_def NewTargetManager_def UpdateProviders_def job_set_def
        ex_running_def ex_set_def ex_config_def gm_put_def gm_del_if_def gm_has_def gm_get_def)
  then have "?run ((([] @ [Configured [ex_config]]) @ [Started_Running]) @ [Discovered ''n'' [ex_group]]) ex_tm"
    unfolding ex_tm_def by (rule tm_run.discovered) (simp add: groups_ok_def ex_group_def gm_ok_def)
  then show ?thesis
    by simp
qed

theorem tm_refines_spec_witness:
  "tm_abs ex_tm = foldl (spec_event tu_Host id ex_process) spec_init
     [Configured [ex_config], Started_Running, Discovered ''n'' [ex_group]]"
  by (rule tm_refines_spec [OF ex_tm_run process_ok_ex])

end
