(* ===== verification/Api_Parse.thy ===== *)
theory Api_Parse
  imports Label_Matcher
begin

text \<open>
  Times and durations in the parameters of the API (\<open>parseTime\<close> and \<open>parseDuration\<close> of
  \<open>src/web/api/v1/api.go\<close>), with the duration format of the vendored package \<open>model\<close>.

  \<open>strconv.ParseFloat\<close>, \<open>time.Parse\<close> for RFC 3339 (its result as nanoseconds since 1970) and the quoting verb
  are parameters, and so is what the conversion of a float64 to an int64 gives when the value is out of range,
  which the language leaves to the implementation.
\<close>

record parse_env =
  pe_ParseFloat :: "string \<Rightarrow> float64 option"
  pe_RFC3339Nano :: "string \<Rightarrow> int option"
  pe_quote :: "string \<Rightarrow> string"
  pe_out_of_range :: "float64 \<Rightarrow> int"

definition go_float_to_int64 :: "parse_env \<Rightarrow> float64 \<Rightarrow> int" where
  "go_float_to_int64 env x = (case f_to_int64 x of Some i \<Rightarrow> i | None \<Rightarrow> pe_out_of_range env x)"

text \<open>The constants \<open>float64(time.Second)\<close>, \<open>float64(math.MaxInt64)\<close> and \<open>float64(math.MinInt64)\<close>; the second is
  rounded up to \<open>2\<^sup>6\<^sup>3\<close>.\<close>

definition f_Second :: float64 where "f_Second = F_Fin 1000000000"
definition f_MaxInt64 :: float64 where "f_MaxInt64 = F_Fin (2 ^ 63)"
definition f_MinInt64 :: float64 where "f_MinInt64 = F_Fin (- (2 ^ 63))"

definition parseTime :: "parse_env \<Rightarrow> string \<Rightarrow> string + Time" where
  "parseTime env s = (case pe_ParseFloat env s of
       Some t \<Rightarrow>
         (let ts = f_mul t f_Second in
          if f_lt f_MaxInt64 ts \<or> f_lt ts f_MinInt64
          then Inl (''cannot parse '' @ pe_quote env s @ '' to a valid timestamp. It overflows int64'')
          else Inr (TimeFromUnixNano (go_float_to_int64 env ts)))
     | None \<Rightarrow>
        (case pe_RFC3339Nano env s of
           Some t \<Rightarrow> Inr (TimeFromUnixNano t)
         | None \<Rightarrow> Inl (''cannot parse '' @ pe_quote env s @ '' to a valid timestamp'')))"

section \<open>Durations of package model\<close>

definition digit :: "char \<Rightarrow> bool" where
  "digit c \<longleftrightarrow> CHR ''0'' \<le> c \<and> c \<le> CHR ''9''"

definition dec_value :: "string \<Rightarrow> nat" where
  "dec_value s = foldl (\<lambda>n c. 10 * n + (of_char c - 48)) 0 s"

text \<open>\<open>strconv.Atoi\<close> on digits gives the largest integer (and an error that is ignored) when out of range.\<close>

definition atoi_digits :: "string \<Rightarrow> int" where
  "atoi_digits s = min (int (dec_value s)) MaxInt64"

definition unit_factor :: "string \<Rightarrow> int option" where
  "unit_factor unit =
     (if unit = ''y'' then Some (1000 * 60 * 60 * 24 * 365)
      else if unit = ''w'' then Some (1000 * 60 * 60 * 24 * 7)
      else if unit = ''d'' then Some (1000 * 60 * 60 * 24)
      else if unit = ''h'' then Some (1000 * 60 * 60)
      else if unit = ''m'' then Some (1000 * 60)
      else if unit = ''s'' then Some 1000
      else if unit = ''ms'' then Some 1
      else None)"

text \<open>The products are \<open>time.Duration\<close>s and wrap.\<close>

definition model_ParseDuration :: "string \<Rightarrow> Duration option" where
  "model_ParseDuration s =
    (let ds = takeWhile digit s; unit = dropWhile digit s in
     if ds = [] then None
     else (case unit_factor unit of
         None \<Rightarrow> None
       | Some f \<Rightarrow> Some (wrap64 (wrap64 (atoi_digits ds * 1000000) * f))))"

definition parseDuration :: "parse_env \<Rightarrow> string \<Rightarrow> string + Duration" where
  "parseDuration env s = (case pe_ParseFloat env s of
       Some d \<Rightarrow>
         (let ts = f_mul d f_Second in
          if f_lt f_MaxInt64 ts \<or> f_lt ts f_MinInt64
          then Inl (''cannot parse '' @ pe_quote env s @ '' to a valid duration. It overflows int64'')
          else Inr (go_float_to_int64 env ts))
     | None \<Rightarrow>
        (case model_ParseDuration s of
           Some d \<Rightarrow> Inr d
         | None \<Rightarrow> Inl (''cannot parse '' @ pe_quote env s @ '' to a valid duration'')))"

section \<open>Lemmas\<close>

lemma f_MaxInt64_rounded: "f_of_int MaxInt64 = f_MaxInt64" "f_of_int MinInt64 = f_MinInt64"
proof -
  have "rnd (of_int MaxInt64) = of_int (2 ^ 53) * 2 powi (62 - 52)"
    by (rule rnd_eqI) (simp_all add: MaxInt64_def)
  then show "f_of_int MaxInt64 = f_MaxInt64"
    by (simp add: f_of_int_def f_round_def f_MaxInt64_def Let_def)
  have "rnd (of_int MinInt64) = of_int (- 1) * 2 ^ 63"
    using rnd_dyadic_up [of "- 1" 63] by (simp add: MinInt64_def)
  then show "f_of_int MinInt64 = f_MinInt64"
    by (simp add: f_of_int_def f_round_def f_MinInt64_def Let_def)
qed

text \<open>Whole seconds are converted exactly.\<close>

lemma mul_seconds:
  assumes "\<bar>n\<bar> \<le> 4611686018"
  shows "f_mul (F_Fin (of_int n)) f_Second = F_Fin (of_int (n * 1000000000))"
proof -
  have "rnd (of_int (n * 1953125) * 2 ^ 9) = of_int (n * 1953125) * 2 ^ 9"
    by (rule rnd_dyadic_up) (use assms in simp)
  then have r: "rnd (of_int n * 1000000000) = of_int (n * 1000000000)"
    by (simp add: mult.commute [of "1000000000"])
  have "\<bar>n * 1000000000\<bar> < 2 ^ 63"
    using assms by simp
  then have "\<bar>of_int (n * 1000000000) :: rat\<bar> < of_int (2 ^ 63)"
    by (simp only: of_int_abs [symmetric] of_int_less_iff)
  moreover have "of_int (2 ^ 63) < (2 ^ 1024 :: rat)"
    by simp
  ultimately have "\<bar>of_int (n * 1000000000) :: rat\<bar> < 2 ^ 1024"
    by linarith
  then show ?thesis
    unfolding f_Second_def f_mul.simps f_round_def r Let_def by (simp only: abs_less_iff) auto
qed

lemma convert_seconds:
  assumes "\<bar>n\<bar> \<le> 4611686018"
  shows "\<not> f_lt f_MaxInt64 (F_Fin (of_int (n * 1000000000)))" "\<not> f_lt (F_Fin (of_int (n * 1000000000))) f_MinInt64"
    "go_float_to_int64 env (F_Fin (of_int (n * 1000000000))) = n * 1000000000"
proof -
  have b: "- (2 ^ 63) \<le> n * 1000000000" "n * 1000000000 < 2 ^ 63"
    using assms by simp_all
  then have "(of_int (- (2 ^ 63)) :: rat) \<le> of_int (n * 1000000000)" "(of_int (n * 1000000000) :: rat) < of_int (2 ^ 63)"
    by (simp_all only: of_int_le_iff of_int_less_iff)
  then show "\<not> f_lt f_MaxInt64 (F_Fin (of_int (n * 1000000000)))" "\<not> f_lt (F_Fin (of_int (n * 1000000000))) f_MinInt64"
    by (simp_all add: f_MaxInt64_def f_MinInt64_def)
  have "f_trunc (of_int (n * 1000000000)) = n * 1000000000"
    unfolding f_trunc_def floor_of_int ceiling_of_int by simp
  then show "go_float_to_int64 env (F_Fin (of_int (n * 1000000000))) = n * 1000000000"
    using b unfolding go_float_to_int64_def f_to_int64.simps by simp
qed

text \<open>A whole number of seconds (up to about 146 years around 1970) is parsed exactly: as a time it is that many
  thousand milliseconds, as a duration that many billion nanoseconds.\<close>

theorem parse_seconds:
  assumes "pe_ParseFloat env s = Some (F_Fin (of_int n))" "\<bar>n\<bar> \<le> 4611686018"
  shows "parseTime env s = Inr (1000 * n) \<and> parseDuration env s = Inr (1000000000 * n)"
proof -
  have "(n * 1000000000) div 1000000 = n * 1000" "- (n * 1000000000) div 1000000 = - (n * 1000)"
    by linarith+
  then have "(n * 1000000000) sdiv 1000000 = n * 1000"
    by (simp add: signed_divide_int_def sgn_if abs_if)
  moreover have "int64 (n * 1000)"
    using assms(2) by (auto simp: int64_def)
  ultimately have "go_div (n * 1000000000) 1000000 = 1000 * n"
    by (simp add: go_div_def)
  then show ?thesis
    using convert_seconds [OF assms(2)]
    by (simp add: parseTime_def parseDuration_def assms(1) mul_seconds [OF assms(2)] TimeFromUnixNano_def Let_def)
qed

definition ex_parse_env :: parse_env where
  "ex_parse_env = \<lparr>pe_ParseFloat = (\<lambda>s. if s = ''15'' then Some (F_Fin 15) else None), pe_RFC3339Nano = (\<lambda>_. None),
     pe_quote = id, pe_out_of_range = (\<lambda>_. MinInt64)\<rparr>"

theorem parse_seconds_witness:
  "parseTime ex_parse_env ''15'' = Inr 15000 \<and> parseDuration ex_parse_env ''15'' = Inr 15000000000"
  using parse_seconds [of ex_parse_env "''15''" 15] by (simp add: ex_parse_env_def)


section \<open>Printed durations\<close>

lemma digit_iff: "digit c \<longleftrightarrow> 48 \<le> (of_char c :: nat) \<and> (of_char c :: nat) \<le> 57"
  by (simp add: digit_def less_eq_char_def)

lemma digit_char [simp]: "n < 10 \<Longrightarrow> digit (char_of (48 + n :: nat))"
  by (simp add: digit_iff)

lemma nat_str_digits: "list_all digit (nat_str n) \<and> nat_str n \<noteq> [] \<and> dec_value (nat_str n) = n"
proof (induction n rule: nat_str.induct)
  case (1 n)
  show ?case
  proof (cases "n < 10")
    case True
    then show ?thesis
      by (simp add: nat_str.simps [of n] dec_value_def)
  next
    case False
    have "n mod 10 < 10"
      by simp
    then show ?thesis
      using 1 False by (simp add: nat_str.simps [of n] dec_value_def)
  qed
qed

lemma unit_not_digit: "unit_factor u = Some f \<Longrightarrow> \<exists>c cs. u = c # cs \<and> \<not> digit c"
  by (auto simp: unit_factor_def digit_iff split: if_splits)

text \<open>A duration printed as a number and a unit is parsed back to the product as long as that fits into an int64;
  the products are not checked, and a larger number wraps around: \<open>300y\<close> is a negative duration.\<close>

theorem model_ParseDuration_roundtrip:
  assumes "unit_factor u = Some f" "int n * 1000000 \<le> MaxInt64" "int n * 1000000 * f \<le> MaxInt64" "0 < f"
  shows "model_ParseDuration (nat_str n @ u) = Some (int n * 1000000 * f)"
proof -
  obtain c cs where u: "u = c # cs" "\<not> digit c"
    using unit_not_digit [OF assms(1)] by blast
  have d: "\<forall>x \<in> set (nat_str n). digit x" "nat_str n \<noteq> []" "dec_value (nat_str n) = n"
    using nat_str_digits [of n] by (simp_all add: list_all_iff)
  have "takeWhile digit (nat_str n @ u) = nat_str n" "dropWhile digit (nat_str n @ u) = u"
    using d(1) u by (simp_all add: takeWhile_append2 dropWhile_append2)
  moreover have "0 \<le> int n * 1000000 * f"
    using assms(4) by simp
  then have "int64 (int n * 1000000)" "int64 (int n * 1000000 * f)"
    using assms(2,3) unfolding int64_def MaxInt64_def by linarith+
  moreover have "atoi_digits (nat_str n) = int n"
    using assms(2) d(3) by (simp add: MaxInt64_def atoi_digits_def)
  ultimately show ?thesis
    using d(2) by (simp add: model_ParseDuration_def assms(1) Let_def)
qed

theorem model_ParseDuration_roundtrip_witness:
  "model_ParseDuration (nat_str 90 @ ''m'') = Some 5400000000000"
  using model_ParseDuration_roundtrip [of "''m''" 60000 90] by (simp add: unit_factor_def MaxInt64_def)

lemma model_ParseDuration_wraps: "model_ParseDuration ''300y'' = Some (- 8985944073709551616)"
  by (simp add: model_ParseDuration_def digit_iff unit_factor_def atoi_digits_def dec_value_def MaxInt64_def wrap64_def Let_def)

text \<open>The overflow check compares with \<open>float64(math.MaxInt64)\<close>, which is \<open>2\<^sup>6\<^sup>3\<close>: the number that rounds to it passes,
  and its conversion is out of range. The nearest float64 of \<open>9223372036.854775807\<close> is such a number.\<close>

lemma overflow_boundary:
  "f_mul (F_Fin (4835703278458517 / 524288)) f_Second = F_Fin (2 ^ 63)"
proof -
  have "rnd (4835703278458517 / 524288 * 1000000000) = of_int (2 ^ 52) * 2 powi (63 - 52)"
    by (rule rnd_eqI) simp_all
  then show ?thesis
    by (simp add: f_Second_def f_round_def Let_def)
qed

lemma parseTime_boundary:
  assumes "pe_ParseFloat env s = Some (F_Fin (4835703278458517 / 524288))"
  shows "parseTime env s = Inr (TimeFromUnixNano (pe_out_of_range env (F_Fin (2 ^ 63))))"
  using assms by (simp add: parseTime_def overflow_boundary go_float_to_int64_def f_MaxInt64_def f_MinInt64_def Let_def f_trunc_def)

end
