(* ===== verification/Api_Types.thy ===== *)
theory Api_Types
  imports Target
begin

text \<open>
  The JSON types of the API (\<open>src/web/api/v1/types.go\<close>): the answers of the Prometheus servers that requests are
  forwarded to, and the results put together from them. An anonymous struct in a field is written as the fields
  of that struct. \<open>None\<close> in a list of pointers is a nil pointer, which a \<open>null\<close> in the answer gives.
\<close>

section \<open>Answers\<close>

record labalVals =
  lv_Status :: string
  lv_Data :: "LabelValue list"

record seriesVals =
  sv_Data :: "LabelSet list"
  sv_Status :: string

record seriesDelVals =
  sd_Status :: string
  sd_NumDeleted :: int

text \<open>The type \<open>Target\<close> of the API; the one of the retrieval package is in \<open>Target\<close>.\<close>

record ApiTarget =
  at_DiscoveredLabels :: LabelSet
  at_Labels :: LabelSet
  at_ScrapeURL :: string
  at_LastError :: string
  at_LastScrape :: int
  at_Health :: TargetHealth

record targetVals =
  tv_Status :: string
  tv_ActiveTargets :: "ApiTarget option list"

record TargetDiscovery =
  td_ActiveTargets :: "ApiTarget option list"

record AlertmanagerTarget =
  amt_URL :: string

record AlertmanagerDiscovery =
  ad_ActiveAlertmanagers :: "AlertmanagerTarget option list"

record alertManagerVals =
  av_Data :: AlertmanagerDiscovery
  av_Status :: string

section \<open>Matrices\<close>

record sampleStream =
  aps_Metric :: LabelSet
  aps_Values :: "SamplePair list"

record queryRes =
  qr_Status :: string
  qr_ResultType :: string
  qr_Result :: "sampleStream option list"

text \<open>\<open>matrix.value\<close> copies the streams into the type of the data model, and dereferences each of them.\<close>

fun matrix_value :: "sampleStream option list \<Rightarrow> panic + SampleStream list" where
  "matrix_value [] = Inr []"
| "matrix_value (None # mat) = Inl NilDereference"
| "matrix_value (Some ss # mat) = (case matrix_value mat of
     Inl p \<Rightarrow> Inl p
   | Inr val \<Rightarrow> Inr (\<lparr>ss_Metric = aps_Metric ss, ss_Values = aps_Values ss\<rparr> # val))"

end
