(* ===== verification/Api.thy ===== *)
theory Api
  imports Api_Parse Api_Types Target_Manager
begin

text \<open>
  The HTTP API (\<open>src/web/api/v1/api.go\<close>): the handlers of queries, which run on the query engine of this
  process, and those of label values, series, targets and alertmanagers, which forward the request to the
  Prometheus servers among the targets and merge the answers; and how results and errors become HTTP responses.

  Parameters are the query engine, the JSON encoder and decoders, \<open>md5.Sum\<close>, the parser of metric selectors, and
  the fetching of a URL. The goroutines of \<open>proxyReq\<close> append to a shared slice without a lock; the model here
  takes every append as atomic, in any order (\<open>sched\<close>). What that race can lose is in \<open>Proxy_Race\<close>.
\<close>

section \<open>Errors and responses\<close>

datatype errorType = errorNone | errorTimeout | errorCanceled | errorExec | errorBadData | errorInternal

fun errorType_str :: "errorType \<Rightarrow> string" where
  "errorType_str errorNone = ''''"
| "errorType_str errorTimeout = ''timeout''"
| "errorType_str errorCanceled = ''canceled''"
| "errorType_str errorExec = ''execution''"
| "errorType_str errorBadData = ''bad_data''"
| "errorType_str errorInternal = ''internal''"

record apiError =
  ae_typ :: errorType
  ae_err :: string

definition apiError_Error :: "apiError \<Rightarrow> string" where
  "apiError_Error e = errorType_str (ae_typ e) @ '': '' @ ae_err e"

record 'd response =
  rp_Status :: string
  rp_Data :: "'d option"
  rp_ErrorType :: errorType
  rp_Error :: string

record http_response =
  hr_Header :: "(string, string) gomap"
  hr_code :: int
  hr_body :: string

definition new_response :: http_response where
  "new_response = \<lparr>hr_Header = [], hr_code = 200, hr_body = []\<rparr>"

definition corsHeaders :: "(string, string) gomap" where
  "corsHeaders =
    [(''Access-Control-Allow-Headers'', ''Accept, Authorization, Content-Type, Origin''),
     (''Access-Control-Allow-Methods'', ''GET, OPTIONS''),
     (''Access-Control-Allow-Origin'', ''*''),
     (''Access-Control-Expose-Headers'', ''Date'')]"

definition setCORS :: "http_response \<Rightarrow> http_response" where
  "setCORS w = w\<lparr>hr_Header := foldl (\<lambda>hs (h, v). gm_put hs h v) (hr_Header w) corsHeaders\<rparr>"

text \<open>\<open>json.Marshal\<close> may fail; then nothing is written after the status.\<close>

definition write_json :: "('d response \<Rightarrow> string option) \<Rightarrow> 'd response \<Rightarrow> http_response \<Rightarrow> http_response" where
  "write_json marshal r w = (case marshal r of None \<Rightarrow> w | Some b \<Rightarrow> w\<lparr>hr_body := hr_body w @ b\<rparr>)"

definition respond :: "('d response \<Rightarrow> string option) \<Rightarrow> 'd \<Rightarrow> http_response \<Rightarrow> http_response" where
  "respond marshal data w =
     write_json marshal \<lparr>rp_Status = ''success'', rp_Data = Some data, rp_ErrorType = errorNone, rp_Error = []\<rparr>
       (w\<lparr>hr_Header := gm_put (hr_Header w) ''Content-Type'' ''application/json'', hr_code := 200\<rparr>)"

fun error_code :: "errorType \<Rightarrow> int" where
  "error_code errorBadData = 400"
| "error_code errorExec = 422"
| "error_code errorCanceled = 503"
| "error_code errorTimeout = 503"
| "error_code errorInternal = 500"
| "error_code errorNone = 500"

definition respondError ::
  "('d response \<Rightarrow> string option) \<Rightarrow> apiError \<Rightarrow> 'd option \<Rightarrow> http_response \<Rightarrow> http_response" where
  "respondError marshal apiErr data w =
     write_json marshal \<lparr>rp_Status = ''error'', rp_Data = data, rp_ErrorType = ae_typ apiErr, rp_Error = ae_err apiErr\<rparr>
       (w\<lparr>hr_Header := gm_put (hr_Header w) ''Content-Type'' ''application/json'', hr_code := error_code (ae_typ apiErr)\<rparr>)"

text \<open>The wrapper that \<open>Register\<close> puts around every handler; a handler returns data and an error, either nil.\<close>

definition instr :: "('d response \<Rightarrow> string option) \<Rightarrow> 'd option \<times> apiError option \<Rightarrow> http_response" where
  "instr marshal result =
    (let w = setCORS new_response in
     (case result of
        (data, Some err) \<Rightarrow> respondError marshal err data w
      | (Some data, None) \<Rightarrow> respond marshal data w
      | (None, None) \<Rightarrow> w\<lparr>hr_code := 204\<rparr>))"

definition api_options :: "'d option \<times> apiError option" where
  "api_options = (None, None)"

section \<open>Queries\<close>

text \<open>Errors of a query with the text of their \<open>Error\<close> method.\<close>

datatype query_error =
  ErrQueryCanceled (qe_text: string) | ErrQueryTimeout (qe_text: string) | ErrStorage (qe_text: string) | ErrOther (qe_text: string)

record ('q, 'v) engine =
  en_NewInstantQuery :: "string \<Rightarrow> Time \<Rightarrow> string + 'q"
  en_NewRangeQuery :: "string \<Rightarrow> Time \<Rightarrow> Time \<Rightarrow> Duration \<Rightarrow> string + 'q"
  en_Exec :: "Duration option \<Rightarrow> 'q \<Rightarrow> query_error + 'v"
  en_Type :: "'v \<Rightarrow> string"

record 'v queryData =
  qd_ResultType :: string
  qd_Result :: 'v

definition FormValue :: "url_Values \<Rightarrow> string \<Rightarrow> string" where
  "FormValue form k = (case gm_get form k of Some (v # _) \<Rightarrow> v | _ \<Rightarrow> [])"

definition bad_data :: "string \<Rightarrow> apiError" where
  "bad_data err = \<lparr>ae_typ = errorBadData, ae_err = err\<rparr>"

text \<open>The timeout of the request's context, if the request has one.\<close>

definition request_timeout :: "parse_env \<Rightarrow> url_Values \<Rightarrow> apiError + Duration option" where
  "request_timeout env form =
    (let to = FormValue form ''timeout'' in
     if to = [] then Inr None
     else (case parseDuration env to of Inl err \<Rightarrow> Inl (bad_data err) | Inr timeout \<Rightarrow> Inr (Some timeout)))"

definition query_result :: "('q, 'v) engine \<Rightarrow> 'v \<Rightarrow> 'v queryData" where
  "query_result eng v = \<lparr>qd_ResultType = en_Type eng v, qd_Result = v\<rparr>"

definition api_query ::
  "parse_env \<Rightarrow> ('q, 'v) engine \<Rightarrow> url_Values \<Rightarrow> Time \<Rightarrow> apiError + 'v queryData" where
  "api_query env eng form now =
    (case (if FormValue form ''time'' \<noteq> [] then parseTime env (FormValue form ''time'') else Inr now) of
       Inl err \<Rightarrow> Inl (bad_data err)
     | Inr ts \<Rightarrow>
        (case request_timeout env form of
           Inl e \<Rightarrow> Inl e
         | Inr ctx \<Rightarrow>
            (case en_NewInstantQuery eng (FormValue form ''query'') ts of
               Inl err \<Rightarrow> Inl (bad_data err)
             | Inr qry \<Rightarrow>
                (case en_Exec eng ctx qry of
                   Inl err \<Rightarrow> Inl \<lparr>ae_typ = (case err of
                       ErrQueryCanceled _ \<Rightarrow> errorCanceled
                     | ErrQueryTimeout _ \<Rightarrow> errorTimeout
                     | ErrStorage _ \<Rightarrow> errorInternal
                     | ErrOther _ \<Rightarrow> errorExec), ae_err = qe_text err\<rparr>
                 | Inr v \<Rightarrow> Inr (query_result eng v)))))"

text \<open>The three parameters of a range and the checks on them; \<open>step\<close> is in nanoseconds.\<close>

definition range_params :: "parse_env \<Rightarrow> url_Values \<Rightarrow> apiError + Time \<times> Time \<times> Duration" where
  "range_params env form =
    (case parseTime env (FormValue form ''start'') of
       Inl err \<Rightarrow> Inl (bad_data err)
     | Inr start \<Rightarrow>
        (case parseTime env (FormValue form ''end'') of
           Inl err \<Rightarrow> Inl (bad_data err)
         | Inr end' \<Rightarrow>
            if time_Before end' start then Inl (bad_data ''end timestamp must not be before start time'')
            else (case parseDuration env (FormValue form ''step'') of
                Inl err \<Rightarrow> Inl (bad_data err)
              | Inr step \<Rightarrow>
                 if step \<le> 0 then Inl (bad_data
                   ''zero or negative query resolution step widths are not accepted. Try a positive integer'')
                 else if go_div (time_Sub end' start) step > 11000 then Inl (bad_data
                   ''exceeded maximum resolution of 11,000 points per timeseries. Try decreasing the query resolution (?step=XX)'')
                 else Inr (start, end', step))))"

definition api_queryRange ::
  "parse_env \<Rightarrow> ('q, 'v) engine \<Rightarrow> url_Values \<Rightarrow> apiError + 'v queryData" where
  "api_queryRange env eng form =
    (case range_params env form of
       Inl e \<Rightarrow> Inl e
     | Inr (start, end', step) \<Rightarrow>
        (case request_timeout env form of
           Inl e \<Rightarrow> Inl e
         | Inr ctx \<Rightarrow>
            (case en_NewRangeQuery eng (FormValue form ''query'') start end' step of
               Inl err \<Rightarrow> Inl (bad_data err)
             | Inr qry \<Rightarrow>
                (case en_Exec eng ctx qry of
                   Inl err \<Rightarrow> Inl \<lparr>ae_typ = (case err of
                       ErrQueryCanceled _ \<Rightarrow> errorCanceled
                     | ErrQueryTimeout _ \<Rightarrow> errorTimeout
                     | _ \<Rightarrow> errorExec), ae_err = qe_text err\<rparr>
                 | Inr v \<Rightarrow> Inr (query_result eng v)))))"

text \<open>What a handler of type \<open>apiFunc\<close> returns.\<close>

definition api_result :: "apiError + 'd \<Rightarrow> 'd option \<times> apiError option" where
  "api_result r = (case r of Inl e \<Rightarrow> (None, Some e) | Inr d \<Rightarrow> (Some d, None))"

section \<open>Forwarded requests\<close>

record rawTarget =
  rt_Mod :: "64 word"
  rt_Target :: Target
  rt_Address :: LabelValue

definition getTargets :: "(string \<Rightarrow> 8 word list) \<Rightarrow> Target list \<Rightarrow> rawTarget list" where
  "getTargets md5 targets = map (\<lambda>v.
     \<lparr>rt_Mod = sum64 (md5 (gm_str (target_Labels v) ''instance'')) mod 3, rt_Target = v,
      rt_Address = gm_str (target_DiscoveredLabels v) ''__address__''\<rparr>) targets"

definition getPromTargets :: "Target list \<Rightarrow> LabelValue list" where
  "getPromTargets targets =
     map (\<lambda>v. gm_str (target_Labels v) ''instance'')
       (filter (\<lambda>v. gm_str (target_Labels v) ''job'' = ''allprometheus'') targets)"

text \<open>A URL that does not parse gives a nil request, a failed request a nil response; both are dereferenced.\<close>

datatype http_outcome = InvalidURL | TransportError string | Answer string

definition proxy_goroutine :: "(string \<Rightarrow> http_outcome) \<Rightarrow> string \<Rightarrow> LabelValue \<Rightarrow> panic + string" where
  "proxy_goroutine fetch uri l = (case fetch (''http://'' @ l @ uri) of
       InvalidURL \<Rightarrow> Inl NilDereference
     | TransportError err \<Rightarrow> Inl NilDereference
     | Answer body \<Rightarrow> Inr body)"

fun proxy_bodies :: "(string \<Rightarrow> http_outcome) \<Rightarrow> string \<Rightarrow> LabelValue list \<Rightarrow> panic + string list" where
  "proxy_bodies fetch uri [] = Inr []"
| "proxy_bodies fetch uri (l # ls) = (case proxy_goroutine fetch uri l of
       Inl p \<Rightarrow> Inl p
     | Inr b \<Rightarrow> (case proxy_bodies fetch uri ls of Inl p \<Rightarrow> Inl p | Inr bs \<Rightarrow> Inr (b # bs)))"

definition proxyReq ::
  "(string \<Rightarrow> http_outcome) \<Rightarrow> (LabelValue list \<Rightarrow> LabelValue list) \<Rightarrow> string \<Rightarrow> Target list \<Rightarrow> panic + string list" where
  "proxyReq fetch sched uri targets = proxy_bodies fetch uri (sched (getPromTargets targets))"

section \<open>Label values\<close>

text \<open>\<open>removeDuplicate\<close> writes into the array it ranges over: \<open>arr\<close> is the array, \<open>n\<close> the length of \<open>data\<close>.\<close>

fun dedup_loop :: "nat list \<Rightarrow> string list \<Rightarrow> string list \<Rightarrow> nat \<Rightarrow> string list \<times> nat" where
  "dedup_loop [] arr seen n = (arr, n)"
| "dedup_loop (i # is) arr seen n =
    (let n' = (if i = 0 then 0 else n); x = arr ! i in
     if x \<in> set seen then dedup_loop is arr seen n'
     else dedup_loop is (arr[n' := x]) (seen @ [x]) (n' + 1))"

definition removeDuplicate :: "string list \<Rightarrow> string list" where
  "removeDuplicate data = (case dedup_loop [0..<length data] data [] (length data) of (arr, n) \<Rightarrow> take n arr)"

text \<open>A decoder gives what \<open>json.Unmarshal\<close> leaves in its target, with or without an error, which is only logged; for
  label values \<open>None\<close> when the pointer it decodes into stays nil.\<close>

fun label_values_loop :: "(string \<Rightarrow> labalVals option) \<Rightarrow> string list \<Rightarrow> string list \<Rightarrow> panic + string list" where
  "label_values_loop decode data [] = Inr data"
| "label_values_loop decode data (body # bodies) = (case decode body of
       None \<Rightarrow> Inl NilDereference
     | Some res \<Rightarrow> label_values_loop decode (data @ lv_Data res) bodies)"

definition api_labelValues ::
  "(string \<Rightarrow> string) \<Rightarrow> (string \<Rightarrow> labalVals option) \<Rightarrow> string \<Rightarrow> (unit \<Rightarrow> panic + string list) \<Rightarrow>
   panic + apiError + string list" where
  "api_labelValues quote decode name proxy =
    (if \<not> labelname_IsValid name then Inr (Inl (bad_data (''invalid label name: '' @ quote name)))
     else (case proxy () of
         Inl p \<Rightarrow> Inl p
       | Inr bodies \<Rightarrow>
          (case label_values_loop decode [] bodies of
             Inl p \<Rightarrow> Inl p
           | Inr data \<Rightarrow> Inr (Inr (sort (removeDuplicate data))))))"

section \<open>Series, targets, alertmanagers\<close>

definition form_matches :: "url_Values \<Rightarrow> string list" where
  "form_matches form = (case gm_get form ''match[]'' of Some ms \<Rightarrow> ms | None \<Rightarrow> [])"

fun parse_selectors :: "(string \<Rightarrow> string + 'm) \<Rightarrow> 'm list \<Rightarrow> string list \<Rightarrow> apiError + 'm list" where
  "parse_selectors parse acc [] = Inr acc"
| "parse_selectors parse acc (s # ss) = (case parse s of
       Inl err \<Rightarrow> Inl (bad_data err)
     | Inr ms \<Rightarrow> parse_selectors parse (acc @ [ms]) ss)"

text \<open>An optional time parameter is only checked.\<close>

definition check_time :: "parse_env \<Rightarrow> url_Values \<Rightarrow> string \<Rightarrow> apiError option" where
  "check_time env form k =
    (let t = FormValue form k in
     if t = [] then None
     else (case parseTime env t of Inl err \<Rightarrow> Some (bad_data err) | Inr _ \<Rightarrow> None))"

definition api_series ::
  "parse_env \<Rightarrow> (string \<Rightarrow> string + 'm) \<Rightarrow> (string \<Rightarrow> seriesVals) \<Rightarrow> url_Values \<Rightarrow> (unit \<Rightarrow> panic + string list) \<Rightarrow>
   panic + apiError + LabelSet list" where
  "api_series env parse decode form proxy =
    (if form_matches form = [] then Inr (Inl (bad_data ''no match[] parameter provided''))
     else (case check_time env form ''start'' of
         Some e \<Rightarrow> Inr (Inl e)
       | None \<Rightarrow>
          (case check_time env form ''end'' of
             Some e \<Rightarrow> Inr (Inl e)
           | None \<Rightarrow>
              (case parse_selectors parse [] (form_matches form) of
                 Inl e \<Rightarrow> Inr (Inl e)
               | Inr matcherSets \<Rightarrow>
                  (case proxy () of Inl p \<Rightarrow> Inl p | Inr bodies \<Rightarrow> Inr (Inr (concat (map sv_Data (map decode bodies)))))))))"

fun drop_series_loop :: "(string \<Rightarrow> seriesDelVals) \<Rightarrow> int \<Rightarrow> string list \<Rightarrow> int" where
  "drop_series_loop decode numDeleted [] = numDeleted"
| "drop_series_loop decode numDeleted (body # bodies) =
     drop_series_loop decode (wrap64 (numDeleted + wrap64 (sd_NumDeleted (decode body) + numDeleted))) bodies"

definition api_dropSeries ::
  "(string \<Rightarrow> seriesDelVals) \<Rightarrow> url_Values \<Rightarrow> (unit \<Rightarrow> panic + string list) \<Rightarrow> panic + apiError + int" where
  "api_dropSeries decode form proxy =
    (if form_matches form = [] then Inr (Inl (bad_data ''no match[] parameter provided''))
     else (case proxy () of
         Inl p \<Rightarrow> Inl p
       | Inr bodies \<Rightarrow> Inr (Inr (drop_series_loop decode 0 bodies))))"

fun append_answers :: "(string \<Rightarrow> 't list) \<Rightarrow> 't list \<Rightarrow> string list \<Rightarrow> 't list" where
  "append_answers decode data [] = data"
| "append_answers decode data (body # bodies) = append_answers decode (data @ decode body) bodies"

definition api_targets :: "(string \<Rightarrow> targetVals) \<Rightarrow> (unit \<Rightarrow> panic + string list) \<Rightarrow> panic + TargetDiscovery" where
  "api_targets decode proxy = (case proxy () of
       Inl p \<Rightarrow> Inl p
     | Inr bodies \<Rightarrow> Inr \<lparr>td_ActiveTargets = append_answers (\<lambda>b. tv_ActiveTargets (decode b)) [] bodies\<rparr>)"

definition api_alertmanagers ::
  "(string \<Rightarrow> alertManagerVals) \<Rightarrow> (unit \<Rightarrow> panic + string list) \<Rightarrow> panic + AlertmanagerDiscovery" where
  "api_alertmanagers decode proxy = (case proxy () of
       Inl p \<Rightarrow> Inl p
     | Inr bodies \<Rightarrow>
         Inr \<lparr>ad_ActiveAlertmanagers = append_answers (\<lambda>b. ad_ActiveAlertmanagers (av_Data (decode b))) [] bodies\<rparr>)"

text \<open>\<open>exprTest\<close> only logs, but it uses the expression also when the parser has returned none.\<close>

definition api_exprTest :: "(string \<Rightarrow> 'e option \<times> string option) \<Rightarrow> url_Values \<Rightarrow> panic + unit" where
  "api_exprTest parse form = (case fst (parse (FormValue form ''query'')) of None \<Rightarrow> Inl NilDereference | Some expr \<Rightarrow> Inr ())"

section \<open>Removing duplicates\<close>

text \<open>The first occurrence of every value, in order.\<close>

definition keep_first :: "'a list \<Rightarrow> 'a list" where
  "keep_first xs = rev (remdups (rev xs))"

lemma keep_first_simps [simp]:
  "keep_first [] = []" "keep_first (xs @ [x]) = (if x \<in> set xs then keep_first xs else keep_first xs @ [x])"
  by (simp_all add: keep_first_def)

lemma set_keep_first [simp]: "set (keep_first xs) = set xs"
  by (simp add: keep_first_def)

lemma distinct_keep_first [simp]: "distinct (keep_first xs)"
  by (simp add: keep_first_def)

lemma length_keep_first: "length (keep_first xs) \<le> length xs"
  unfolding keep_first_def by (metis length_remdups_leq length_rev)

lemma dedup_loop_spec:
  assumes "length arr = length data" "i \<le> length data" "drop i arr = drop i data" "0 < length data"
    and "seen = keep_first (take i data)" "(if i = 0 then 0 else n) = length seen" "take (length seen) arr = seen"
  shows "case dedup_loop [i..<length data] arr seen n of (arr', m) \<Rightarrow> take m arr' = keep_first data"
  using assms
proof (induction "length data - i" arbitrary: i arr seen n)
  case 0
  then show ?case
    by simp
next
  case (Suc k)
  then have i: "i < length data"
    by simp
  let ?x = "data ! i" and ?n = "length seen"
  have x: "arr ! i = ?x"
    using Suc.prems(1,3) i by (metis hd_drop_conv_nth)
  have t: "take (Suc i) data = take i data @ [?x]"
    using i by (simp add: take_Suc_conv_app_nth)
  have d: "drop (Suc i) arr = drop (Suc i) data"
    using Suc.prems(3) by (metis drop_Suc tl_drop)
  have n: "?n \<le> i"
    using Suc.prems(5) length_keep_first [of "take i data"] i by simp
  have upt: "[i..<length data] = i # [Suc i..<length data]"
    using i by (rule upt_conv_Cons)
  have k: "k = length data - Suc i"
    using Suc.hyps(2) by simp
  show ?case
  proof (cases "?x \<in> set seen")
    case True
    then have "seen = keep_first (take (Suc i) data)"
      using Suc.prems(5) t by simp
    then have "case dedup_loop [Suc i..<length data] arr seen ?n of (arr', m) \<Rightarrow> take m arr' = keep_first data"
      using Suc.prems i d by (intro Suc.hyps(1) [OF k]) simp_all
    then show ?thesis
      using True Suc.prems(6) x by (simp add: upt Let_def)
  next
    case False
    let ?arr = "arr[?n := ?x]"
    have s: "seen @ [?x] = keep_first (take (Suc i) data)"
      using Suc.prems(5) t False by simp
    have a: "take (Suc ?n) ?arr = seen @ [?x]"
      using Suc.prems(1,7) n i by (simp add: take_Suc_conv_app_nth)
    have "drop (Suc i) ?arr = drop (Suc i) data"
      using n d by simp
    moreover have "length (keep_first (take (Suc i) data)) = Suc ?n"
      unfolding s [symmetric] by simp
    ultimately have "case dedup_loop [Suc i..<length data] ?arr (seen @ [?x]) (?n + 1) of (arr', m) \<Rightarrow> take m arr' = keep_first data"
      using Suc.prems(1,4) i a by (intro Suc.hyps(1) [OF k] s) simp_all
    then show ?thesis
      using False Suc.prems(6) x by (simp add: upt Let_def)
  qed
qed

lemma removeDuplicate_eq: "removeDuplicate data = keep_first data"
proof (cases "data = []")
  case True
  then show ?thesis
    by (simp add: removeDuplicate_def)
next
  case False
  then show ?thesis
    using dedup_loop_spec [of data data 0 "[]" "length data"] by (simp add: removeDuplicate_def split: prod.splits)
qed

text \<open>C35. Although \<open>removeDuplicate\<close> overwrites the slice it is still ranging over, it returns the first occurrence of
  every value, in order: it never overwrites a value it has not read yet.\<close>

theorem removeDuplicate_correct: "removeDuplicate data = keep_first data"
  by (rule removeDuplicate_eq)

lemma sort_keep_first: "sort (keep_first xs) = sorted_list_of_set (set xs)" for xs :: "'a :: linorder list"
proof -
  have "mset (keep_first xs) = mset (remdups xs)"
    by (simp add: set_eq_iff_mset_eq_distinct [symmetric])
  then have "sort (keep_first xs) = sort (remdups xs)"
    by (metis mset_sort properties_for_sort sorted_sort)
  then show ?thesis
    by (simp add: sorted_list_of_set_sort_remdups)
qed

section \<open>Forwarding\<close>

text \<open>The order in which the goroutines of \<open>proxyReq\<close> append is any order of the servers.\<close>

definition schedule :: "('a list \<Rightarrow> 'a list) \<Rightarrow> bool" where
  "schedule sched \<longleftrightarrow> (\<forall>xs. mset (sched xs) = mset xs)"

definition answers :: "(string \<Rightarrow> http_outcome) \<Rightarrow> string \<Rightarrow> LabelValue \<Rightarrow> bool" where
  "answers fetch uri l \<longleftrightarrow> (case fetch (''http://'' @ l @ uri) of Answer _ \<Rightarrow> True | _ \<Rightarrow> False)"

definition answer :: "(string \<Rightarrow> http_outcome) \<Rightarrow> string \<Rightarrow> LabelValue \<Rightarrow> string" where
  "answer fetch uri l = (case fetch (''http://'' @ l @ uri) of Answer b \<Rightarrow> b | _ \<Rightarrow> [])"

lemma proxy_goroutine_eq:
  "proxy_goroutine fetch uri l = (if answers fetch uri l then Inr (answer fetch uri l) else Inl NilDereference)"
  by (simp add: proxy_goroutine_def answers_def answer_def split: http_outcome.split)

lemma proxy_bodies_eq:
  "proxy_bodies fetch uri ls =
     (if list_all (answers fetch uri) ls then Inr (map (answer fetch uri) ls) else Inl NilDereference)"
  by (induction ls) (auto simp: proxy_goroutine_eq)

lemma schedule_set: "schedule sched \<Longrightarrow> set (sched xs) = set xs"
  unfolding schedule_def by (metis set_mset_mset)

text \<open>A forwarded request is sent to every Prometheus server among the targets and gets each answer once, in some
  order, but only if all of them answer: one that cannot be reached, or whose address gives no valid URL,
  makes the process panic.\<close>

theorem proxyReq_outcome:
  assumes "schedule sched"
  shows "if list_all (answers fetch uri) (getPromTargets ts)
     then \<exists>bodies. proxyReq fetch sched uri ts = Inr bodies \<and>
       mset bodies = image_mset (answer fetch uri) (mset (getPromTargets ts))
     else proxyReq fetch sched uri ts = Inl NilDereference"
proof -
  have "mset (map (answer fetch uri) (sched (getPromTargets ts))) = image_mset (answer fetch uri) (mset (getPromTargets ts))"
    using assms by (simp add: schedule_def)
  then show ?thesis
    using schedule_set [OF assms] by (auto simp: proxyReq_def proxy_bodies_eq list_all_iff)
qed

lemma label_values_loop_eq:
  "label_values_loop decode data bodies =
    (if list_all (\<lambda>b. decode b \<noteq> None) bodies then Inr (data @ concat (map (\<lambda>b. lv_Data (the (decode b))) bodies)) else Inl NilDereference)"
  by (induction decode data bodies rule: label_values_loop.induct) (auto simp: comp_def split: option.split)

lemma labelValues_eq:
  assumes "schedule sched"
  shows "api_labelValues quote decode name (\<lambda>_. proxyReq fetch sched uri ts) =
    (if \<not> labelname_IsValid name then Inr (Inl (bad_data (''invalid label name: '' @ quote name)))
     else if list_all (\<lambda>l. answers fetch uri l \<and> decode (answer fetch uri l) \<noteq> None) (getPromTargets ts)
       then Inr (Inr (sorted_list_of_set (\<Union>l \<in> set (getPromTargets ts). set (lv_Data (the (decode (answer fetch uri l)))))))
     else Inl NilDereference)"
proof -
  have s: "set (sched (getPromTargets ts)) = set (getPromTargets ts)"
    using schedule_set [OF assms] .
  show ?thesis
    unfolding api_labelValues_def proxyReq_def proxy_bodies_eq label_values_loop_eq
    using s by (auto simp: list_all_iff label_values_loop_eq removeDuplicate_eq sort_keep_first)
qed


lemma drop_series_loop_cong:
  "(\<And>b. sd_NumDeleted (decode b) = sd_NumDeleted (decode' b)) \<Longrightarrow>
   drop_series_loop decode n bodies = drop_series_loop decode' n bodies"
  by (induction decode n bodies rule: drop_series_loop.induct) simp_all

text \<open>The status of an answer is never looked at: whatever the servers put into the field \<open>status\<close>, also
  \<open>error\<close>, the five merging handlers return the same. A server that reports an error counts as one that has
  no data, and the caller gets an incomplete result as a success.\<close>

theorem answer_status_ignored:
  "api_labelValues quote (\<lambda>b. map_option (lv_Status_update f) (dl b)) name proxy = api_labelValues quote dl name proxy \<and>
   api_series env parse (\<lambda>b. sv_Status_update f (ds b)) form proxy = api_series env parse ds form proxy \<and>
   api_dropSeries (\<lambda>b. sd_Status_update f (dd b)) form proxy = api_dropSeries dd form proxy \<and>
   api_targets (\<lambda>b. tv_Status_update f (dt b)) proxy = api_targets dt proxy \<and>
   api_alertmanagers (\<lambda>b. av_Status_update f (da b)) proxy = api_alertmanagers da proxy"
proof (intro conjI)
  have l: "label_values_loop (\<lambda>b. map_option (lv_Status_update f) (dl b)) d bs = label_values_loop dl d bs" for d bs
    by (induction dl d bs rule: label_values_loop.induct) (auto split: option.split)
  show "api_labelValues quote (\<lambda>b. map_option (lv_Status_update f) (dl b)) name proxy = api_labelValues quote dl name proxy"
    by (simp add: api_labelValues_def l split: sum.split)
  show "api_series env parse (\<lambda>b. sv_Status_update f (ds b)) form proxy = api_series env parse ds form proxy"
    by (simp add: api_series_def comp_def split: sum.split option.split)
  show "api_dropSeries (\<lambda>b. sd_Status_update f (dd b)) form proxy = api_dropSeries dd form proxy"
    using drop_series_loop_cong [of "\<lambda>b. sd_Status_update f (dd b)" dd] by (simp add: api_dropSeries_def split: sum.split)
qed (simp_all add: api_targets_def api_alertmanagers_def split: sum.split)

lemma append_answers_eq: "append_answers g data bodies = data @ concat (map g bodies)"
  by (induction g data bodies rule: append_answers.induct) simp_all

lemma mset_answers:
  assumes "schedule sched"
  shows "mset (concat (map g (map (answer fetch uri) (sched (getPromTargets ts))))) =
    (\<Sum>l \<in># mset (getPromTargets ts). mset (g (answer fetch uri l)))"
proof -
  have "mset (concat (map h ls)) = (\<Sum>l \<in># mset ls. mset (h l))" for h :: "LabelValue \<Rightarrow> 'a list" and ls
    by (induction ls) simp_all
  from this [of "\<lambda>l. g (answer fetch uri l)" "sched (getPromTargets ts)"] show ?thesis
    using assms by (simp add: schedule_def comp_def)
qed


text \<open>An example: two Prometheus servers behind the proxy, and what they answer.\<close>

definition ex_server :: "string \<Rightarrow> Target" where
  "ex_server addr = NewTarget [(''job'', ''allprometheus''), (''instance'', addr)] [] []"

definition ex_fetch :: "string \<Rightarrow> http_outcome" where
  "ex_fetch url = (if url = ''http://a/q'' then Answer ''x'' else if url = ''http://b/q'' then Answer ''y'' else TransportError ''refused'')"

lemma ex_prom [simp]: "getPromTargets [ex_server ''a'', ex_server ''b''] = [''a'', ''b'']" "getPromTargets [ex_server ''c''] = [''c'']"
  by (simp_all add: getPromTargets_def ex_server_def NewTarget_def target_Labels_def has_prefix_def ReservedLabelPrefix_def
      gm_put_def gm_str_def gm_get_def)

lemma ex_answers [simp]: "answers ex_fetch ''/q'' ''a''" "answers ex_fetch ''/q'' ''b''" "\<not> answers ex_fetch ''/q'' ''c''"
    "answer ex_fetch ''/q'' ''a'' = ''x''" "answer ex_fetch ''/q'' ''b'' = ''y''"
  by (simp_all add: answers_def answer_def ex_fetch_def)

theorem proxyReq_outcome_witness:
  "(\<exists>bodies. proxyReq ex_fetch rev ''/q'' [ex_server ''a'', ex_server ''b''] = Inr bodies \<and> mset bodies = {# ''x'', ''y'' #}) \<and>
   proxyReq ex_fetch rev ''/q'' [ex_server ''c''] = Inl NilDereference"
  using proxyReq_outcome [of rev ex_fetch "''/q''" "[ex_server ''a'', ex_server ''b'']"]
    proxyReq_outcome [of rev ex_fetch "''/q''" "[ex_server ''c'']"]
  by (simp add: schedule_def)



section \<open>Dropping series\<close>

text \<open>The number a request to drop series reports: every answer is added to twice the sum so far.\<close>

definition doubled :: "int list \<Rightarrow> int" where
  "doubled ns = foldl (\<lambda>a n. 2 * a + n) 0 ns"

lemma doubled_loop:
  "wrap64 a = a' \<Longrightarrow> drop_series_loop decode a' bodies = wrap64 (foldl (\<lambda>a b. 2 * a + sd_NumDeleted (decode b)) a bodies)"
proof (induction bodies arbitrary: a a')
  case (Cons b bodies)
  have "wrap64 (a' + wrap64 (sd_NumDeleted (decode b) + a')) = wrap64 (a' + (sd_NumDeleted (decode b) + a'))"
    using wrap64_add_left [of "sd_NumDeleted (decode b) + a'" a'] by (simp add: add.commute)
  also have "\<dots> = wrap64 (a' + (a + sd_NumDeleted (decode b)))"
    using Cons.prems wrap64_add_left [of a "sd_NumDeleted (decode b) + a'"] by (simp add: algebra_simps)
  also have "\<dots> = wrap64 (2 * a + sd_NumDeleted (decode b))"
    using Cons.prems wrap64_add_left [of a "a + sd_NumDeleted (decode b)"] by simp
  finally have "wrap64 (a' + wrap64 (sd_NumDeleted (decode b) + a')) = wrap64 (2 * a + sd_NumDeleted (decode b))" .
  then show ?case
    using Cons.IH [of "2 * a + sd_NumDeleted (decode b)"] by simp
qed simp

lemma doubled_snoc: "doubled (ns @ [n]) = 2 * doubled ns + n"
  by (simp add: doubled_def)

lemma doubled_ge: "list_all (\<lambda>n. 0 \<le> n) ns \<Longrightarrow> 0 \<le> sum_list ns \<and> sum_list ns \<le> doubled ns \<and> (doubled ns = 0 \<longleftrightarrow> (\<forall>n \<in> set ns. n = 0))"
proof (induction ns rule: rev_induct)
  case (snoc n ns)
  then show ?case
    by (auto simp: doubled_snoc)
qed (simp add: doubled_def)

text \<open>The number of deleted series that \<open>dropSeries\<close> reports is not the sum of the answers: every answer doubles what
  was counted before it. For answers that count series and fit into an integer, it is right exactly when all
  answers but the last are 0.\<close>

theorem dropSeries_doubles:
  assumes "form_matches form \<noteq> []" "proxy () = Inr bodies"
    and "list_all (\<lambda>b. 0 \<le> sd_NumDeleted (decode b)) bodies" "doubled (map (sd_NumDeleted \<circ> decode) bodies) \<le> MaxInt64"
  shows "api_dropSeries decode form proxy = Inr (Inr (doubled (map (sd_NumDeleted \<circ> decode) bodies))) \<and>
    sum_list (map (sd_NumDeleted \<circ> decode) bodies) \<le> doubled (map (sd_NumDeleted \<circ> decode) bodies) \<and>
    (doubled (map (sd_NumDeleted \<circ> decode) bodies) = sum_list (map (sd_NumDeleted \<circ> decode) bodies) \<longleftrightarrow> (\<forall>b \<in> set (butlast bodies). sd_NumDeleted (decode b) = 0))"
proof -
  have nn: "list_all (\<lambda>n. 0 \<le> n) (map (sd_NumDeleted \<circ> decode) bodies)"
    using assms(3) by (simp add: list_all_iff)
  have "foldl (\<lambda>a b. 2 * a + sd_NumDeleted (decode b)) 0 bodies = doubled (map (sd_NumDeleted \<circ> decode) bodies)"
    by (simp add: doubled_def foldl_map)
  moreover have "int64 (doubled (map (sd_NumDeleted \<circ> decode) bodies))"
    using doubled_ge [OF nn] assms(4) by (simp add: int64_def MaxInt64_def)
  ultimately have r: "drop_series_loop decode 0 bodies = doubled (map (sd_NumDeleted \<circ> decode) bodies)"
    using doubled_loop [of 0 0 decode bodies] by (simp add: int64_def)
  have "doubled (map (sd_NumDeleted \<circ> decode) bodies) = sum_list (map (sd_NumDeleted \<circ> decode) bodies) \<longleftrightarrow> (\<forall>b \<in> set (butlast bodies). sd_NumDeleted (decode b) = 0)"
  proof (cases bodies rule: rev_cases)
    case (snoc bs b)
    then have nn': "list_all (\<lambda>n. 0 \<le> n) (map (sd_NumDeleted \<circ> decode) bs)"
      using nn by simp
    show ?thesis
      using doubled_ge [OF nn'] snoc by (auto simp: doubled_snoc)
  qed (simp add: doubled_def)
  then show ?thesis
    using assms(1,2) r doubled_ge [OF nn] by (simp add: api_dropSeries_def)
qed

theorem dropSeries_doubles_witness:
  "api_dropSeries (\<lambda>b. \<lparr>sd_Status = ''success'', sd_NumDeleted = (if b = ''x'' then 3 else 4)\<rparr>) [(''match[]'', [''up''])] (\<lambda>_. Inr [''x'', ''y'']) = Inr (Inr 10)"
  using dropSeries_doubles [of "[(''match[]'', [''up''])]" "\<lambda>_. Inr [''x'', ''y'']" "[''x'', ''y'']" "\<lambda>b. \<lparr>sd_Status = ''success'', sd_NumDeleted = (if b = ''x'' then 3 else 4)\<rparr>"]
  by (simp add: form_matches_def gm_get_def doubled_def MaxInt64_def)

section \<open>Queries\<close>

lemma go_div_nonneg:
  assumes "0 \<le> a" "a < 2 ^ 63" "0 < b"
  shows "go_div a b = a div b"
  using assms by (simp add: go_div_pos int64_def sdiv_pos_bounds)

text \<open>C36. A range query only reaches the engine with a start not after its end and a positive step, and, if the length of
  the range in nanoseconds fits into an int64, with at most 11000 steps.\<close>

theorem queryRange_limits:
  assumes "range_params env form = Inr (start, end', step)"
  shows "start \<le> end' \<and> 0 < step \<and>
    ((end' - start) * 1000000 < 2 ^ 63 \<longrightarrow> (end' - start) * 1000000 div step \<le> 11000)"
proof -
  have r: "\<not> end' < start" "\<not> step \<le> 0" "\<not> go_div (time_Sub end' start) step > 11000"
    using assms by (auto simp: range_params_def time_Before_def split: sum.splits if_splits)
  have "(end' - start) * 1000000 div step \<le> 11000" if short: "(end' - start) * 1000000 < 2 ^ 63"
  proof -
    have "time_Sub end' start = (end' - start) * 1000000"
      using r(1) short by (simp add: time_Sub_def int64_def)
    then show ?thesis
      using r short by (simp add: go_div_nonneg)
  qed
  then show ?thesis
    using r by simp
qed

definition ex_range_env :: parse_env where
  "ex_range_env = \<lparr>pe_ParseFloat = (\<lambda>s. if s = ''1'' then Some (F_Fin 1) else None),
     pe_RFC3339Nano = (\<lambda>s. if s = ''1677-09-22T00:00:00Z'' then Some (- 9223286400000000000)
       else if s = ''1970-01-01T03:00:00Z'' then Some 10800000000000
       else if s = ''2262-04-11T00:00:00Z'' then Some 9223286400000000000 else None),
     pe_quote = id, pe_out_of_range = (\<lambda>_. 0)\<rparr>"

definition ex_range_form :: "string \<Rightarrow> string \<Rightarrow> url_Values" where
  "ex_range_form s e = [(''start'', [s]), (''end'', [e]), (''step'', [''1'']), (''query'', [''up''])]"

lemma ex_one_second: "f_mul (F_Fin 1) f_Second = F_Fin 1000000000" "go_float_to_int64 env (F_Fin 1000000000) = 1000000000"
    "\<not> f_lt f_MaxInt64 (F_Fin 1000000000)" "\<not> f_lt (F_Fin 1000000000) f_MinInt64"
  using mul_seconds [of 1] convert_seconds [of 1] by simp_all

lemma ex_parse_range:
  "parseTime ex_range_env ''1677-09-22T00:00:00Z'' = Inr (- 9223286400000)"
  "parseTime ex_range_env ''1970-01-01T03:00:00Z'' = Inr 10800000"
  "parseTime ex_range_env ''2262-04-11T00:00:00Z'' = Inr 9223286400000"
  "parseDuration ex_range_env ''1'' = Inr 1000000000"
  by (simp_all add: parseTime_def parseDuration_def ex_range_env_def TimeFromUnixNano_def go_div_def wrap64_def
      signed_divide_int_def ex_one_second)

theorem queryRange_limits_witness:
  "\<exists>start end' step. range_params ex_range_env (ex_range_form ''1970-01-01T03:00:00Z'' ''1970-01-01T03:00:00Z'') = Inr (start, end', step) \<and>
     start \<le> end' \<and> 0 < step"
proof -
  have "range_params ex_range_env (ex_range_form ''1970-01-01T03:00:00Z'' ''1970-01-01T03:00:00Z'') = Inr (10800000, 10800000, 1000000000)"
    by (simp add: range_params_def ex_range_form_def FormValue_def gm_get_def ex_parse_range time_Before_def time_Sub_def
        go_div_def wrap64_def)
  then show ?thesis
    using queryRange_limits by blast
qed

text \<open>A longer range overflows the difference and passes the check: here more than \<open>10\<^sup>1\<^sup>0\<close> steps.\<close>

lemma queryRange_limit_overflows:
  "range_params ex_range_env (ex_range_form ''1677-09-22T00:00:00Z'' ''2262-04-11T00:00:00Z'') =
     Inr (- 9223286400000, 9223286400000, 1000000000)"
  "(9223286400000 - (- 9223286400000)) * 1000000 div 1000000000 > (10 ^ 10 :: int)"
proof -
  show "range_params ex_range_env (ex_range_form ''1677-09-22T00:00:00Z'' ''2262-04-11T00:00:00Z'') =
      Inr (- 9223286400000, 9223286400000, 1000000000)"
    by (simp add: range_params_def ex_range_form_def FormValue_def gm_get_def ex_parse_range time_Before_def time_Sub_def
        go_div_def wrap64_def signed_divide_int_def)
qed simp

text \<open>The same storage error is an internal error (500) of an instant query but an execution error (422) of a range
  query: \<open>queryRange\<close> does not tell it apart from the errors of the expression.\<close>

theorem storage_error_codes:
  assumes "FormValue form ''time'' = []" "request_timeout env form = Inr ctx" "range_params env form = Inr (start, end', step)"
    and "en_NewInstantQuery eng (FormValue form ''query'') now = Inr q" "en_Exec eng ctx q = Inl (ErrStorage msg)"
    and "en_NewRangeQuery eng (FormValue form ''query'') start end' step = Inr r" "en_Exec eng ctx r = Inl (ErrStorage msg)"
  shows "hr_code (instr marshal (api_result (api_query env eng form now))) = 500 \<and>
    hr_code (instr marshal (api_result (api_queryRange env eng form))) = 422"
  by (simp add: api_query_def api_queryRange_def assms api_result_def instr_def respondError_def write_json_def Let_def
      split: option.split)

definition ex_engine :: "(nat, nat) engine" where
  "ex_engine = \<lparr>en_NewInstantQuery = (\<lambda>_ _. Inr 0), en_NewRangeQuery = (\<lambda>_ _ _ _. Inr 1),
     en_Exec = (\<lambda>_ _. Inl (ErrStorage ''disk'')), en_Type = (\<lambda>_. ''scalar'')\<rparr>"

theorem storage_error_codes_witness:
  "hr_code (instr (\<lambda>_. None) (api_result (api_query ex_range_env ex_engine (ex_range_form ''1970-01-01T03:00:00Z'' ''1970-01-01T03:00:00Z'') 0))) = 500 \<and>
   hr_code (instr (\<lambda>_. None) (api_result (api_queryRange ex_range_env ex_engine (ex_range_form ''1970-01-01T03:00:00Z'' ''1970-01-01T03:00:00Z'')))) = 422"
proof -
  let ?f = "ex_range_form ''1970-01-01T03:00:00Z'' ''1970-01-01T03:00:00Z''"
  have "range_params ex_range_env ?f = Inr (10800000, 10800000, 1000000000)"
    by (simp add: range_params_def ex_range_form_def FormValue_def gm_get_def ex_parse_range time_Before_def time_Sub_def
        go_div_def wrap64_def)
  moreover have "FormValue ?f ''time'' = []" "request_timeout ex_range_env ?f = Inr None"
    by (simp_all add: request_timeout_def FormValue_def ex_range_form_def gm_get_def)
  ultimately show ?thesis
    using storage_error_codes [of ?f ex_range_env None 10800000 10800000 1000000000 ex_engine 0 0 "''disk''" 1 "\<lambda>_. None"]
    by (simp add: ex_engine_def)
qed

text \<open>Every response carries the four CORS headers; its status is 200 with data, 204 without, and for an error the
  code of its type; a body is only ever the encoded result.\<close>

theorem instr_correct:
  "list_all (\<lambda>(h, v). gm_get (hr_Header (instr marshal r)) h = Some v) corsHeaders \<and>
   hr_code (instr marshal r) = (case r of (_, Some e) \<Rightarrow> error_code (ae_typ e) | (Some _, None) \<Rightarrow> 200 | (None, None) \<Rightarrow> 204) \<and>
   (hr_body (instr marshal r) = [] \<or>
    (\<exists>rp. marshal rp = Some (hr_body (instr marshal r)) \<and> rp_Data rp = fst r \<and>
       (rp_Status rp = ''error'') = (snd r \<noteq> None)))"
proof -
  have cors: "hr_Header (setCORS new_response) = corsHeaders"
    by (simp add: setCORS_def new_response_def corsHeaders_def gm_put_def)
  obtain d e where r: "r = (d, e)"
    by (cases r)
  show ?thesis
    unfolding r
    by (cases e; cases d)
      (auto simp: instr_def Let_def respondError_def respond_def write_json_def cors corsHeaders_def gm_put_def gm_get_def
        setCORS_def new_response_def split: option.splits)
qed

end
