(* ===== verification/Proxy_Race.thy ===== *)
theory Proxy_Race
  imports Api
begin

text \<open>
  The goroutines of \<open>proxyReq\<close> (\<open>src/web/api/v1/api.go\<close>) append their answers to one slice without a lock.
  Here \<open>bodys = append(bodys, body)\<close> is the three accesses it makes: the header of the slice is read, the body is
  written behind its last element (into the same array when there is room, into a larger copy otherwise), and the new
  header is stored. The step relation interleaves the accesses of all goroutines. A header is read and written as a
  whole; the capacity of a new array is a parameter, larger than the old length.

  A body is a slice of its own, so a cell of an array refers to it by the number of the goroutine that read it.
\<close>

section \<open>The model\<close>

record slice =
  sl_arr :: nat
  sl_len :: nat

datatype proxy_pc = Fetched | HasHeader slice | Appended slice | Finished

text \<open>The capacity of a slice is the length of its array, since no slice here starts behind the beginning.\<close>

record proxy_state =
  ps_mem :: "nat option list list"
  ps_bodys :: slice
  ps_pc :: "nat \<Rightarrow> proxy_pc"

definition slice_cells :: "nat option list list \<Rightarrow> slice \<Rightarrow> nat option list" where
  "slice_cells mem h = take (sl_len h) (mem ! sl_arr h)"

text \<open>\<open>append\<close> on a header that was read before: the memory and the new header.\<close>

definition go_append :: "(nat \<Rightarrow> nat) \<Rightarrow> nat option list list \<Rightarrow> slice \<Rightarrow> nat \<Rightarrow> nat option list list \<times> slice" where
  "go_append grow mem h x =
    (if sl_len h < length (mem ! sl_arr h)
     then (mem[sl_arr h := (mem ! sl_arr h)[sl_len h := Some x]], h\<lparr>sl_len := sl_len h + 1\<rparr>)
     else (mem @ [slice_cells mem h @ [Some x] @ replicate (grow (sl_len h) - sl_len h - 1) None],
           \<lparr>sl_arr = length mem, sl_len = sl_len h + 1\<rparr>))"

inductive proxy_step :: "(nat \<Rightarrow> nat) \<Rightarrow> nat \<Rightarrow> proxy_state \<Rightarrow> proxy_state \<Rightarrow> bool" for grow n where
  read_header: "\<lbrakk>i < n; ps_pc s i = Fetched\<rbrakk> \<Longrightarrow>
    proxy_step grow n s (s\<lparr>ps_pc := (ps_pc s)(i := HasHeader (ps_bodys s))\<rparr>)"
| append_body: "\<lbrakk>i < n; ps_pc s i = HasHeader h; go_append grow (ps_mem s) h i = (mem, h')\<rbrakk> \<Longrightarrow>
    proxy_step grow n s (s\<lparr>ps_mem := mem, ps_pc := (ps_pc s)(i := Appended h')\<rparr>)"
| store_header: "\<lbrakk>i < n; ps_pc s i = Appended h\<rbrakk> \<Longrightarrow>
    proxy_step grow n s (s\<lparr>ps_bodys := h, ps_pc := (ps_pc s)(i := Finished)\<rparr>)"

text \<open>At the start the slice is nil: an empty array. \<open>wg.Wait\<close> returns when all goroutines have finished.\<close>

definition proxy_start :: proxy_state where
  "proxy_start = \<lparr>ps_mem = [[]], ps_bodys = \<lparr>sl_arr = 0, sl_len = 0\<rparr>, ps_pc = (\<lambda>_. Fetched)\<rparr>"

definition proxy_finished :: "nat \<Rightarrow> proxy_state \<Rightarrow> bool" where
  "proxy_finished n s \<longleftrightarrow> list_all (\<lambda>i. ps_pc s i = Finished) [0..<n]"

definition proxy_answers :: "string list \<Rightarrow> proxy_state \<Rightarrow> string list" where
  "proxy_answers bs s = map (\<lambda>c. case c of Some g \<Rightarrow> bs ! g | None \<Rightarrow> []) (slice_cells (ps_mem s) (ps_bodys s))"

section \<open>The invariant\<close>

text \<open>Every filled cell belongs to a goroutine that has appended, no array holds a goroutine twice, and the elements of
  every slice are filled.\<close>

definition has_appended :: "proxy_pc \<Rightarrow> bool" where
  "has_appended p \<longleftrightarrow> (case p of Fetched \<Rightarrow> False | HasHeader h \<Rightarrow> False | _ \<Rightarrow> True)"

definition array_ok :: "nat \<Rightarrow> (nat \<Rightarrow> proxy_pc) \<Rightarrow> nat option list \<Rightarrow> bool" where
  "array_ok n pc a \<longleftrightarrow> distinct (filter (\<lambda>c. c \<noteq> None) a) \<and> (\<forall>g. Some g \<in> set a \<longrightarrow> g < n \<and> has_appended (pc g))"

definition slice_ok :: "nat option list list \<Rightarrow> slice \<Rightarrow> bool" where
  "slice_ok mem h \<longleftrightarrow> sl_arr h < length mem \<and> sl_len h \<le> length (mem ! sl_arr h) \<and> None \<notin> set (slice_cells mem h)"

definition goroutine_ok :: "nat option list list \<Rightarrow> slice \<Rightarrow> proxy_pc \<Rightarrow> bool" where
  "goroutine_ok mem b p \<longleftrightarrow> (case p of
       Fetched \<Rightarrow> True
     | HasHeader h \<Rightarrow> slice_ok mem h
     | Appended h \<Rightarrow> slice_ok mem h \<and> 0 < sl_len h
     | Finished \<Rightarrow> 0 < sl_len b)"

definition proxy_inv :: "nat \<Rightarrow> proxy_state \<Rightarrow> bool" where
  "proxy_inv n s \<longleftrightarrow> list_all (array_ok n (ps_pc s)) (ps_mem s) \<and> slice_ok (ps_mem s) (ps_bodys s) \<and>
     (\<forall>i < n. goroutine_ok (ps_mem s) (ps_bodys s) (ps_pc s i))"

lemma array_ok_pc:
  "array_ok n pc a \<Longrightarrow> (\<And>g. has_appended (pc g) \<Longrightarrow> has_appended (pc' g)) \<Longrightarrow> array_ok n pc' a"
  by (auto simp: array_ok_def)

lemma filter_Some_update:
  assumes "distinct (filter (\<lambda>c. c \<noteq> None) a)" "Some x \<notin> set a"
  shows "distinct (filter (\<lambda>c. c \<noteq> None) (a[k := Some x]))"
proof (cases "k < length a")
  case True
  have "distinct (filter (\<lambda>c. c \<noteq> None) (take k a @ a ! k # drop (Suc k) a))"
    using assms(1) id_take_nth_drop [OF True] by simp
  then have "distinct (filter (\<lambda>c. c \<noteq> None) (take k a) @ filter (\<lambda>c. c \<noteq> None) (drop (Suc k) a))"
    by (auto split: if_splits)
  moreover have "Some x \<notin> set (take k a)" "Some x \<notin> set (drop (Suc k) a)"
    using assms(2) by (auto dest: in_set_takeD in_set_dropD)
  ultimately show ?thesis
    using True by (auto simp: upd_conv_take_nth_drop)
next
  case False
  then show ?thesis
    using assms(1) by (simp add: list_update_beyond)
qed

lemma distinct_filter_take: "distinct (filter P a) \<Longrightarrow> distinct (filter P (take k a))"
proof -
  assume "distinct (filter P a)"
  then have "distinct (filter P (take k a @ drop k a))"
    by simp
  then show ?thesis
    unfolding filter_append by simp
qed

lemma array_ok_fresh: "\<lbrakk>array_ok n pc a; \<not> has_appended (pc x)\<rbrakk> \<Longrightarrow> Some x \<notin> set a"
  by (auto simp: array_ok_def)

lemma array_ok_update:
  assumes "array_ok n pc a" "x < n" "\<not> has_appended (pc x)" "has_appended p"
  shows "array_ok n (pc(x := p)) (a[k := Some x])"
  using assms filter_Some_update [OF _ array_ok_fresh [OF assms(1,3)], of k]
  by (auto simp: array_ok_def dest: set_update_subset_insert [THEN subsetD])

lemma array_ok_copy:
  assumes "array_ok n pc a" "x < n" "\<not> has_appended (pc x)" "has_appended p"
  shows "array_ok n (pc(x := p)) (take k a @ [Some x] @ replicate m None)"
  using assms array_ok_fresh [OF assms(1,3)] distinct_filter_take [of "\<lambda>c. c \<noteq> None" a k]
  by (auto simp: array_ok_def dest: in_set_takeD)

lemma take_list_update_Some:
  "None \<notin> set (take l a) \<Longrightarrow> None \<notin> set (take l (a[k := Some x]))"
  by (auto simp: take_update_swap dest: set_update_subset_insert [THEN subsetD])

lemma go_append_arrays:
  assumes "list_all (array_ok n pc) mem" "slice_ok mem h" "x < n" "\<not> has_appended (pc x)"
    and "go_append grow mem h x = (mem', h')" "has_appended p"
  shows "list_all (array_ok n (pc(x := p))) mem'"
proof -
  have old: "array_ok n (pc(x := p)) a" if "a \<in> set mem" for a
    using assms(1,6) that by (auto simp: list_all_iff intro: array_ok_pc)
  have arr: "array_ok n pc (mem ! sl_arr h)"
    using assms(1,2) by (simp add: list_all_iff slice_ok_def)
  show ?thesis
    using assms(5) old array_ok_update [OF arr assms(3,4,6)] array_ok_copy [OF arr assms(3,4,6), where k = "sl_len h"]
    by (auto simp: go_append_def slice_cells_def list_all_iff split: if_splits
        dest: set_update_subset_insert [THEN subsetD])
qed

lemma go_append_cells:
  assumes "slice_ok mem h" "go_append grow mem h x = (mem', h')"
  shows "slice_cells mem' h' = slice_cells mem h @ [Some x]" "slice_ok mem' h'" "sl_len h' = sl_len h + 1"
proof -
  show cells: "slice_cells mem' h' = slice_cells mem h @ [Some x]"
    using assms by (auto simp: go_append_def slice_cells_def slice_ok_def take_Suc_conv_app_nth split: if_splits)
  show "sl_len h' = sl_len h + 1"
    using assms(2) by (auto simp: go_append_def split: if_splits)
  moreover have "sl_arr h' < length mem' \<and> sl_len h' \<le> length (mem' ! sl_arr h')"
    using assms by (auto simp: go_append_def slice_cells_def slice_ok_def split: if_splits)
  ultimately show "slice_ok mem' h'"
    using assms(1) cells by (simp add: slice_ok_def)
qed

lemma go_append_keeps:
  assumes "slice_ok mem k" "go_append grow mem h x = (mem', h')"
  shows "slice_ok mem' k"
  using assms take_list_update_Some [of "sl_len k" "mem ! sl_arr h" "sl_len h" x]
  by (cases "sl_arr k = sl_arr h")
    (auto simp: go_append_def slice_ok_def slice_cells_def nth_append split: if_splits)

lemma goroutine_ok_mem: "goroutine_ok mem b p \<Longrightarrow> go_append grow mem h x = (mem', h') \<Longrightarrow> goroutine_ok mem' b p"
  by (cases p) (auto simp: goroutine_ok_def intro: go_append_keeps)

lemma array_ok_upd:
  "array_ok n pc a \<Longrightarrow> \<not> has_appended (pc i) \<or> has_appended p \<Longrightarrow> array_ok n (pc(i := p)) a"
  by (auto intro: array_ok_pc)

lemma proxy_inv_start: "proxy_inv n proxy_start"
  by (simp add: proxy_inv_def proxy_start_def array_ok_def slice_ok_def slice_cells_def goroutine_ok_def)

lemma proxy_inv_step: "proxy_step grow n s t \<Longrightarrow> proxy_inv n s \<Longrightarrow> proxy_inv n t"
proof (induction rule: proxy_step.induct)
  case (read_header i s)
  then have "list_all (array_ok n ((ps_pc s)(i := HasHeader (ps_bodys s)))) (ps_mem s)"
    by (simp add: proxy_inv_def list_all_iff array_ok_upd has_appended_def)
  then show ?case
    using read_header by (simp add: proxy_inv_def goroutine_ok_def)
next
  case (append_body i s h mem h')
  then have "goroutine_ok (ps_mem s) (ps_bodys s) (HasHeader h)"
    by (metis proxy_inv_def)
  then have h: "slice_ok (ps_mem s) h" and fresh: "\<not> has_appended (ps_pc s i)"
    using append_body(2) by (simp_all add: goroutine_ok_def has_appended_def)
  have "list_all (array_ok n ((ps_pc s)(i := Appended h'))) mem"
    using append_body h fresh by (intro go_append_arrays) (auto simp: proxy_inv_def has_appended_def)
  moreover have "goroutine_ok mem (ps_bodys s) (Appended h')"
    using go_append_cells [OF h append_body(3)] by (simp add: goroutine_ok_def)
  ultimately show ?case
    using append_body.prems go_append_keeps [OF _ append_body(3)] goroutine_ok_mem [OF _ append_body(3)]
    by (simp add: proxy_inv_def)
next
  case (store_header i s h)
  then have h: "goroutine_ok (ps_mem s) (ps_bodys s) (Appended h)"
    by (metis proxy_inv_def)
  then have "goroutine_ok (ps_mem s) h p" if "goroutine_ok (ps_mem s) (ps_bodys s) p" for p
    using that by (cases p) (auto simp: goroutine_ok_def)
  moreover have "list_all (array_ok n ((ps_pc s)(i := Finished))) (ps_mem s)"
    using store_header by (simp add: proxy_inv_def list_all_iff array_ok_upd has_appended_def)
  ultimately show ?case
    using h store_header.prems by (simp add: proxy_inv_def) (simp add: goroutine_ok_def)
qed

lemma proxy_inv_reachable: "(proxy_step grow n)\<^sup>*\<^sup>* proxy_start s \<Longrightarrow> proxy_inv n s"
  by (induction rule: rtranclp_induct) (auto intro: proxy_inv_start proxy_inv_step)

section \<open>Possible results\<close>

text \<open>A goroutine that has read a header goes on to the end, undisturbed.\<close>

lemma run_append_store:
  assumes "i < n" "ps_pc s i = HasHeader h" "slice_ok (ps_mem s) h"
  shows "\<exists>t. (proxy_step grow n)\<^sup>*\<^sup>* s t \<and> ps_pc t = (ps_pc s)(i := Finished) \<and>
    slice_cells (ps_mem t) (ps_bodys t) = slice_cells (ps_mem s) h @ [Some i] \<and>
    (\<forall>k. slice_ok (ps_mem s) k \<longrightarrow> slice_ok (ps_mem t) k) \<and> slice_ok (ps_mem t) (ps_bodys t)"
proof -
  obtain mem h' where app: "go_append grow (ps_mem s) h i = (mem, h')"
    by fastforce
  let ?u = "s\<lparr>ps_mem := mem, ps_pc := (ps_pc s)(i := Appended h')\<rparr>"
  have "proxy_step grow n s ?u"
    using assms app by (auto intro: append_body)
  moreover have "proxy_step grow n ?u (?u\<lparr>ps_bodys := h', ps_pc := (ps_pc ?u)(i := Finished)\<rparr>)"
    by (rule store_header) (use assms in simp_all)
  ultimately have "(proxy_step grow n)\<^sup>*\<^sup>* s (?u\<lparr>ps_bodys := h', ps_pc := (ps_pc ?u)(i := Finished)\<rparr>)"
    by auto
  then show ?thesis
    using go_append_cells [OF assms(3) app] go_append_keeps [OF _ app] by (intro exI conjI) auto
qed

text \<open>Goroutines that all read the header of the empty slice: the last one to store its own wins.\<close>

lemma run_stale:
  "\<lbrakk>zs \<noteq> []; distinct zs; set zs \<subseteq> {..<n}; \<And>i. i \<in> set zs \<Longrightarrow> ps_pc s i = HasHeader h; slice_ok (ps_mem s) h; sl_len h = 0\<rbrakk> \<Longrightarrow>
   \<exists>t. (proxy_step grow n)\<^sup>*\<^sup>* s t \<and> ps_pc t = (\<lambda>i. if i \<in> set zs then Finished else ps_pc s i) \<and>
     slice_cells (ps_mem t) (ps_bodys t) = [Some (last zs)] \<and> slice_ok (ps_mem t) (ps_bodys t)"
proof (induction zs arbitrary: s)
  case (Cons z zs)
  obtain u where u: "(proxy_step grow n)\<^sup>*\<^sup>* s u" "ps_pc u = (ps_pc s)(z := Finished)"
    "slice_cells (ps_mem u) (ps_bodys u) = slice_cells (ps_mem s) h @ [Some z]"
    "slice_ok (ps_mem u) h" "slice_ok (ps_mem u) (ps_bodys u)"
    using run_append_store [of z n s h grow] Cons.prems by auto
  show ?case
  proof (cases "zs = []")
    case True
    then show ?thesis
      using u Cons.prems(6) by (intro exI [of _ u]) (auto simp: slice_cells_def fun_eq_iff)
  next
    case False
    have "ps_pc u i = HasHeader h" if "i \<in> set zs" for i
      using that u(2) Cons.prems by auto
    then obtain t where t: "(proxy_step grow n)\<^sup>*\<^sup>* u t"
      "ps_pc t = (\<lambda>i. if i \<in> set zs then Finished else ps_pc u i)"
      "slice_cells (ps_mem t) (ps_bodys t) = [Some (last zs)]" "slice_ok (ps_mem t) (ps_bodys t)"
      using Cons.IH [OF False, of u] Cons.prems u(4) by auto
    then show ?thesis
      using u(1,2) False by (intro exI [of _ t]) (auto simp: fun_eq_iff)
  qed
qed simp

text \<open>Goroutines that run one after the other append their bodies in this order.\<close>

lemma run_in_order:
  "\<lbrakk>distinct xs; set xs \<subseteq> {..<n}; \<And>i. i \<in> set xs \<Longrightarrow> ps_pc s i = Fetched; slice_ok (ps_mem s) (ps_bodys s)\<rbrakk> \<Longrightarrow>
   \<exists>t. (proxy_step grow n)\<^sup>*\<^sup>* s t \<and> ps_pc t = (\<lambda>i. if i \<in> set xs then Finished else ps_pc s i) \<and>
     slice_cells (ps_mem t) (ps_bodys t) = slice_cells (ps_mem s) (ps_bodys s) @ map Some xs"
proof (induction xs arbitrary: s)
  case (Cons x xs)
  let ?r = "s\<lparr>ps_pc := (ps_pc s)(x := HasHeader (ps_bodys s))\<rparr>"
  have "proxy_step grow n s ?r"
    using Cons.prems by (auto intro: read_header)
  moreover obtain u where u: "(proxy_step grow n)\<^sup>*\<^sup>* ?r u" "ps_pc u = (ps_pc s)(x := Finished)"
    "slice_cells (ps_mem u) (ps_bodys u) = slice_cells (ps_mem s) (ps_bodys s) @ [Some x]"
    "slice_ok (ps_mem u) (ps_bodys u)"
    using run_append_store [of x n ?r "ps_bodys s" grow] Cons.prems by auto
  moreover have "ps_pc u i = Fetched" if "i \<in> set xs" for i
    using that u(2) Cons.prems by auto
  then obtain t where "(proxy_step grow n)\<^sup>*\<^sup>* u t"
    "ps_pc t = (\<lambda>i. if i \<in> set xs then Finished else ps_pc u i)"
    "slice_cells (ps_mem t) (ps_bodys t) = slice_cells (ps_mem u) (ps_bodys u) @ map Some xs"
    using Cons.IH [of u] Cons.prems u(3,4) by auto
  ultimately show ?case
    by (intro exI [of _ t]) (auto simp: fun_eq_iff)
qed auto

lemma run_reads:
  "\<lbrakk>distinct zs; set zs \<subseteq> {..<n}; \<And>i. i \<in> set zs \<Longrightarrow> ps_pc s i = Fetched\<rbrakk> \<Longrightarrow>
   (proxy_step grow n)\<^sup>*\<^sup>* s (s\<lparr>ps_pc := (\<lambda>i. if i \<in> set zs then HasHeader (ps_bodys s) else ps_pc s i)\<rparr>)"
proof (induction zs arbitrary: s)
  case (Cons z zs)
  let ?r = "s\<lparr>ps_pc := (ps_pc s)(z := HasHeader (ps_bodys s))\<rparr>"
  have "proxy_step grow n s ?r"
    using Cons.prems by (auto intro: read_header)
  moreover have "(proxy_step grow n)\<^sup>*\<^sup>* ?r (?r\<lparr>ps_pc := (\<lambda>i. if i \<in> set zs then HasHeader (ps_bodys ?r) else ps_pc ?r i)\<rparr>)"
    using Cons.prems by (intro Cons.IH) auto
  moreover have "?r\<lparr>ps_pc := (\<lambda>i. if i \<in> set zs then HasHeader (ps_bodys ?r) else ps_pc ?r i)\<rparr> =
      s\<lparr>ps_pc := (\<lambda>i. if i \<in> set (z # zs) then HasHeader (ps_bodys s) else ps_pc s i)\<rparr>"
    by (simp add: fun_eq_iff)
  ultimately show ?case
    by (simp add: converse_rtranclp_into_rtranclp)
qed simp

lemma proxy_race_can_return:
  assumes "distinct ids" "set ids \<subseteq> {..<n}" "ids = [] \<longleftrightarrow> n = 0"
  shows "\<exists>s. (proxy_step grow n)\<^sup>*\<^sup>* proxy_start s \<and> proxy_finished n s \<and>
    slice_cells (ps_mem s) (ps_bodys s) = map Some ids"
proof (cases ids)
  case Nil
  then show ?thesis
    using assms by (intro exI [of _ proxy_start]) (auto simp: proxy_start_def proxy_finished_def slice_cells_def)
next
  case (Cons x xs)
  let ?zs = "filter (\<lambda>i. i \<notin> set ids) [0..<n] @ [x]" and ?h = "ps_bodys proxy_start"
  let ?r = "proxy_start\<lparr>ps_pc := (\<lambda>i. if i \<in> set ?zs then HasHeader ?h else ps_pc proxy_start i)\<rparr>"
  have zs: "distinct ?zs" "set ?zs \<subseteq> {..<n}" "set ?zs \<inter> set xs = {}" "set ?zs \<union> set xs = {..<n}"
    using assms Cons by auto
  have "(proxy_step grow n)\<^sup>*\<^sup>* proxy_start ?r"
    by (rule run_reads [OF zs(1,2)]) (simp add: proxy_start_def)
  moreover have "\<exists>u. (proxy_step grow n)\<^sup>*\<^sup>* ?r u \<and> ps_pc u = (\<lambda>i. if i \<in> set ?zs then Finished else ps_pc ?r i) \<and>
      slice_cells (ps_mem u) (ps_bodys u) = [Some (last ?zs)] \<and> slice_ok (ps_mem u) (ps_bodys u)"
    using zs by (intro run_stale [where h = ?h]) (auto simp: proxy_start_def slice_ok_def slice_cells_def)
  then obtain u where u: "(proxy_step grow n)\<^sup>*\<^sup>* ?r u" "ps_pc u = (\<lambda>i. if i \<in> set ?zs then Finished else ps_pc ?r i)"
      "slice_cells (ps_mem u) (ps_bodys u) = [Some x]" "slice_ok (ps_mem u) (ps_bodys u)"
    by auto
  moreover have "\<exists>t. (proxy_step grow n)\<^sup>*\<^sup>* u t \<and> ps_pc t = (\<lambda>i. if i \<in> set xs then Finished else ps_pc u i) \<and>
      slice_cells (ps_mem t) (ps_bodys t) = slice_cells (ps_mem u) (ps_bodys u) @ map Some xs"
    using u zs assms Cons by (intro run_in_order) (auto simp: proxy_start_def)
  then obtain t where t: "(proxy_step grow n)\<^sup>*\<^sup>* u t" "ps_pc t = (\<lambda>i. if i \<in> set xs then Finished else ps_pc u i)"
      "slice_cells (ps_mem t) (ps_bodys t) = [Some x] @ map Some xs"
    using u(3) by auto
  moreover have "ps_pc t i = Finished" if "i < n" for i
    using t(2) u(2) zs(4) that by (cases "i \<in> set xs") auto
  ultimately show ?thesis
    using Cons by (intro exI [of _ t]) (auto simp: proxy_finished_def list_all_iff)
qed

lemma proxy_race_returns:
  assumes "(proxy_step grow n)\<^sup>*\<^sup>* proxy_start s" "proxy_finished n s"
  shows "\<exists>ids. distinct ids \<and> set ids \<subseteq> {..<n} \<and> (ids = [] \<longleftrightarrow> n = 0) \<and>
    slice_cells (ps_mem s) (ps_bodys s) = map Some ids"
proof -
  let ?c = "slice_cells (ps_mem s) (ps_bodys s)" and ?a = "ps_mem s ! sl_arr (ps_bodys s)"
  have inv: "proxy_inv n s"
    by (rule proxy_inv_reachable [OF assms(1)])
  then have b: "slice_ok (ps_mem s) (ps_bodys s)" and a: "array_ok n (ps_pc s) ?a"
    by (auto simp: proxy_inv_def list_all_iff slice_ok_def)
  have filled: "c \<noteq> None" if "c \<in> set ?c" for c
    using b that by (metis slice_ok_def)
  then have some: "map (Some \<circ> the) ?c = ?c" "filter (\<lambda>c. c \<noteq> None) ?c = ?c"
    by (auto intro!: map_idI filter_True)
  have "distinct ?c"
    using a some(2) distinct_filter_take [of "\<lambda>c. c \<noteq> None" ?a] by (metis array_ok_def slice_cells_def)
  then have "distinct (map the ?c)"
    using some(1) by (metis distinct_map map_map)
  moreover have "set (map the ?c) \<subseteq> {..<n}"
    using a filled by (fastforce simp: array_ok_def slice_cells_def dest: in_set_takeD)
  moreover have "?c \<noteq> []" if "0 < n"
  proof -
    have "0 < sl_len (ps_bodys s)"
      using inv assms(2) that by (auto simp: proxy_inv_def goroutine_ok_def proxy_finished_def list_all_iff dest!: spec [of _ 0])
    then show ?thesis
      using b by (auto simp: slice_cells_def slice_ok_def)
  qed
  ultimately show ?thesis
    using some(1) by (intro exI [of _ "map the ?c"]) auto
qed


end
