(* ===== verification/Http_Util.thy ===== *)
theory Http_Util
  imports Model_Types
begin

text \<open>
  The HTTP client of forwarded requests (\<open>src/utils/httputil.go\<close>): a transport without connection reuse whose
  dialer gives every connection a deadline. The network is a parameter: \<open>net.DialTimeout\<close> and \<open>SetDeadline\<close>
  with their errors. Times and durations are in nanoseconds.
\<close>

record 'conn network =
  nw_DialTimeout :: "string \<Rightarrow> string \<Rightarrow> Duration \<Rightarrow> string + 'conn"
  nw_SetDeadline :: "'conn \<Rightarrow> int \<Rightarrow> string option"

text \<open>What the dialer does to the connection it has opened.\<close>

datatype 'conn conn_event = Deadline_Set 'conn int | Conn_Closed 'conn

record roundTripper =
  tr_DisableKeepAlives :: bool
  tr_timeout :: Duration

record http_client =
  hc_Transport :: roundTripper

definition NewDeadlineRoundTripper :: "Duration \<Rightarrow> roundTripper" where
  "NewDeadlineRoundTripper timeout = \<lparr>tr_DisableKeepAlives = True, tr_timeout = timeout\<rparr>"

definition http_NewClient :: "roundTripper \<Rightarrow> http_client" where
  "http_NewClient rt = \<lparr>hc_Transport = rt\<rparr>"

definition NewClientForTimeOut :: http_client where
  "NewClientForTimeOut = http_NewClient (NewDeadlineRoundTripper (3 * 1000000000))"

text \<open>The field \<open>Dial\<close> of the transport, called at the time \<open>now\<close>.\<close>

definition transport_Dial ::
  "'conn network \<Rightarrow> roundTripper \<Rightarrow> int \<Rightarrow> string \<Rightarrow> string \<Rightarrow> (string + 'conn) \<times> 'conn conn_event list" where
  "transport_Dial nw rt now netw addr =
    (case nw_DialTimeout nw netw addr (tr_timeout rt) of
       Inl err \<Rightarrow> (Inl err, [])
     | Inr c \<Rightarrow>
        (case nw_SetDeadline nw c (now + tr_timeout rt) of
           Some err \<Rightarrow> (Inl err, [Conn_Closed c])
         | None \<Rightarrow> (Inr c, [Deadline_Set c (now + tr_timeout rt)])))"

text \<open>Every connection that a forwarded request gets ends three seconds after the dialing began, the time for
  dialing, sending and reading the answer included; and a connection is never left open when an error is returned: it was
  not opened or it has been closed.\<close>

lemma transport_Dial_correct:
  "case transport_Dial nw (hc_Transport NewClientForTimeOut) now netw addr of
     (Inr c, es) \<Rightarrow> nw_DialTimeout nw netw addr 3000000000 = Inr c \<and> nw_SetDeadline nw c (now + 3000000000) = None \<and>
       es = [Deadline_Set c (now + 3000000000)]
   | (Inl err, es) \<Rightarrow> (case nw_DialTimeout nw netw addr 3000000000 of Inl e \<Rightarrow> err = e \<and> es = [] | Inr c \<Rightarrow> es = [Conn_Closed c])"
  by (simp add: transport_Dial_def NewClientForTimeOut_def http_NewClient_def NewDeadlineRoundTripper_def
      split: sum.split option.split)

end
