(* ===== verification/Cmd_Config.thy ===== *)
theory Cmd_Config
  imports Target
begin

text \<open>
  The command line (\<open>src/cmd/config.go\<close>): what \<open>parse\<close> makes of the flags, the external URL and the route prefix,
  the set of strings that a flag collects, and the layout of the usage text.

  The parsing of flags itself, the host name, \<open>govalidator.IsURL\<close>, \<open>url.Parse\<close> and the quoting verb are
  parameters. Strings are sequences of bytes; white space is that of ASCII, and the digits of \<open>unicode.IsDigit\<close> are
  those of the first byte.
\<close>

section \<open>Trimming and splitting\<close>

definition trim_right :: "(char \<Rightarrow> bool) \<Rightarrow> string \<Rightarrow> string" where
  "trim_right p s = rev (dropWhile p (rev s))"

definition trim :: "(char \<Rightarrow> bool) \<Rightarrow> string \<Rightarrow> string" where
  "trim p s = trim_right p (dropWhile p s)"

definition is_slash :: "char \<Rightarrow> bool" where
  "is_slash c \<longleftrightarrow> c = CHR ''/''"

definition is_space :: "char \<Rightarrow> bool" where
  "is_space c \<longleftrightarrow> (of_char c :: nat) \<in> {9, 10, 11, 12, 13, 32}"

definition TrimSpace :: "string \<Rightarrow> string" where
  "TrimSpace s = trim is_space s"

text \<open>\<open>strings.Split\<close> and \<open>strings.SplitAfter\<close> at a single byte.\<close>

fun split_at :: "char \<Rightarrow> string \<Rightarrow> string list" where
  "split_at sep [] = [[]]"
| "split_at sep (c # s) =
    (if c = sep then [] # split_at sep s
     else (case split_at sep s of p # ps \<Rightarrow> (c # p) # ps | [] \<Rightarrow> [[c]]))"

fun split_after :: "char \<Rightarrow> string \<Rightarrow> string list" where
  "split_after sep [] = [[]]"
| "split_after sep (c # s) =
    (if c = sep then [c] # split_after sep s
     else (case split_after sep s of p # ps \<Rightarrow> (c # p) # ps | [] \<Rightarrow> [[c]]))"

section \<open>Parsing\<close>

record cmd_cfg =
  cf_configFile :: string
  cf_prometheusURL :: string
  cf_ListenAddress :: string
  cf_MaxConnections :: int
  cf_ExternalPath :: string
  cf_RoutePrefix :: string
  cf_localStorageEngine :: string
  cf_queryTimeout :: Duration
  cf_MaxConcurrentQueries :: int

text \<open>The default values of the flags that \<open>init\<close> registers.\<close>

definition default_cmd_cfg :: cmd_cfg where
  "default_cmd_cfg = \<lparr>cf_configFile = ''prometheus.yml'', cf_prometheusURL = [], cf_ListenAddress = '':9090'',
     cf_MaxConnections = 512, cf_ExternalPath = [], cf_RoutePrefix = [], cf_localStorageEngine = ''remoteprometheus'',
     cf_queryTimeout = 2 * 60 * 1000000000, cf_MaxConcurrentQueries = 20\<rparr>"

text \<open>\<open>ce_url_Parse\<close> gives the path of the URL, the only part of it that the code changes.\<close>

record cmd_env =
  ce_Hostname :: "string + string"
  ce_IsURL :: "string \<Rightarrow> bool"
  ce_url_Parse :: "string \<Rightarrow> string + string"
  ce_quote :: "string \<Rightarrow> string"

text \<open>The port of \<open>net.SplitHostPort\<close>.\<close>

definition split_port_of :: "string \<Rightarrow> string + string" where
  "split_port_of s = (if split_host_port_ok s
     then (case last_colon s of Some i \<Rightarrow> Inr (drop (i + 1) s) | None \<Rightarrow> Inl []) else Inl ''invalid address'')"

definition external_path :: "string \<Rightarrow> string" where
  "external_path p =
    (let ppref = trim_right is_slash p in
     if ppref \<noteq> [] \<and> \<not> has_prefix ppref ''/'' then CHR ''/'' # ppref else ppref)"

definition parsePrometheusURL :: "cmd_env \<Rightarrow> cmd_cfg \<Rightarrow> string + cmd_cfg" where
  "parsePrometheusURL env cfg =
    (case (if cf_prometheusURL cfg = [] then
             (case ce_Hostname env of
                Inl err \<Rightarrow> Inl err
              | Inr hostname \<Rightarrow>
                 (case split_port_of (cf_ListenAddress cfg) of
                    Inl err \<Rightarrow> Inl err
                  | Inr port \<Rightarrow> Inr (''http://'' @ hostname @ '':'' @ port @ ''/'')))
           else Inr (cf_prometheusURL cfg)) of
       Inl err \<Rightarrow> Inl err
     | Inr url \<Rightarrow>
        if \<not> ce_IsURL env url then Inl (''invalid Prometheus URL: '' @ url)
        else (case ce_url_Parse env url of
            Inl err \<Rightarrow> Inl err
          | Inr path \<Rightarrow> Inr (cfg\<lparr>cf_prometheusURL := url, cf_ExternalPath := external_path path\<rparr>)))"

definition route_prefix :: "string \<Rightarrow> string \<Rightarrow> string" where
  "route_prefix given path = CHR ''/'' # trim is_slash (if given = [] then path else given)"

text \<open>The outcome of \<open>fs.Parse\<close> is an error, or the arguments that are left.\<close>

definition cmd_parse :: "cmd_env \<Rightarrow> string option \<Rightarrow> string list \<Rightarrow> cmd_cfg \<Rightarrow> string + cmd_cfg" where
  "cmd_parse env flag_err rest cfg =
    (case flag_err of
       Some err \<Rightarrow> Inl err
     | None \<Rightarrow>
        (case rest of
           arg # _ \<Rightarrow> Inl (''Non-flag argument on command line: '' @ ce_quote env arg)
         | [] \<Rightarrow>
            (case parsePrometheusURL env cfg of
               Inl err \<Rightarrow> Inl err
             | Inr cfg' \<Rightarrow> Inr (cfg'\<lparr>cf_RoutePrefix := route_prefix (cf_RoutePrefix cfg') (cf_ExternalPath cfg')\<rparr>))))"

section \<open>Sets of strings\<close>

type_synonym stringset = "(string, unit) gomap"

fun stringset_add :: "stringset \<Rightarrow> string list \<Rightarrow> stringset" where
  "stringset_add ss [] = ss"
| "stringset_add ss (v # vs) =
    (let v' = TrimSpace v in stringset_add (if v' \<noteq> [] then gm_put ss v' () else ss) vs)"

definition stringset_Set :: "stringset \<Rightarrow> string \<Rightarrow> stringset" where
  "stringset_Set ss s = stringset_add ss (split_at CHR '','' s)"

definition stringset_slice :: "stringset \<Rightarrow> string list" where
  "stringset_slice ss = sort (map fst ss)"

definition stringset_String :: "stringset \<Rightarrow> string" where
  "stringset_String ss = str_join (stringset_slice ss) '',''"

section \<open>Flags that are not used\<close>

record unusedFlag =
  uf_name :: string
  uf_value :: string
  uf_help :: string

definition unusedFlag_Set :: "string \<Rightarrow> unusedFlag \<Rightarrow> string option \<times> unusedFlag" where
  "unusedFlag_Set v f = (None, f\<lparr>uf_value := v\<rparr>)"

definition unusedFlag_String :: "unusedFlag \<Rightarrow> string" where
  "unusedFlag_String f = uf_value f"

section \<open>The usage text\<close>

text \<open>Widths are non-negative numbers in the template; \<open>w\<close> is the width less the indent.\<close>

fun wrap_loop :: "nat \<Rightarrow> nat \<Rightarrow> nat \<Rightarrow> string \<Rightarrow> string list \<Rightarrow> string" where
  "wrap_loop w indent len ns [] = ns"
| "wrap_loop w indent len ns (x # xs) =
    (if len + length x > w
     then wrap_loop w indent (length x) (ns @ (CHR 0x0A # replicate indent CHR '' '') @ x) xs
     else wrap_loop w indent (len + length x) (ns @ x) xs)"

definition usage_wrap :: "nat \<Rightarrow> nat \<Rightarrow> string \<Rightarrow> string" where
  "usage_wrap width indent s = TrimSpace (wrap_loop (width - indent) indent indent [] (split_after CHR '' '' s))"

definition usage_quote :: "(string \<Rightarrow> string) \<Rightarrow> string \<Rightarrow> string" where
  "usage_quote quote s =
    (if s = [] \<or> s = ''false'' \<or> s = ''true'' \<or> (CHR ''0'' \<le> hd s \<and> hd s \<le> CHR ''9'') then s else quote s)"

text \<open>The bucket of a flag: its name up to the first dot, or the dot for a name without one.\<close>

definition flag_bucket :: "string \<Rightarrow> string" where
  "flag_bucket fname = (if CHR ''.'' \<in> set fname then takeWhile (\<lambda>c. c \<noteq> CHR ''.'') fname else ''.'')"

definition bucket_get :: "(string, string list) gomap \<Rightarrow> string \<Rightarrow> string list" where
  "bucket_get groups k = (case gm_get groups k of Some fl \<Rightarrow> fl | None \<Rightarrow> [])"

fun usage_buckets :: "(string, string list) gomap \<Rightarrow> string list \<Rightarrow> (string, string list) gomap" where
  "usage_buckets groups [] = groups"
| "usage_buckets groups (fl # fls) =
     usage_buckets (gm_put groups (flag_bucket fl) (bucket_get groups (flag_bucket fl) @ [fl])) fls"

text \<open>The second loop, over the entries \<open>todo\<close>; the bucket of the dot never changes its own entry.\<close>

fun usage_merge :: "(string, string list) gomap \<Rightarrow> (string \<times> string list) list \<Rightarrow> (string, string list) gomap" where
  "usage_merge groups [] = groups"
| "usage_merge groups ((cat, fl) # todo) =
     usage_merge
       (if length fl < 2 \<and> cat \<noteq> ''.'' then gm_del (gm_put groups ''.'' (bucket_get groups ''.'' @ fl)) cat else groups) todo"

definition usage_groups :: "string list \<Rightarrow> (string, string list) gomap" where
  "usage_groups flags = (let groups = usage_buckets [] flags in usage_merge groups groups)"

section \<open>Paths\<close>

text \<open>A route prefix begins with one slash and does not end in one, unless it is the root.\<close>

definition prefix_ok :: "string \<Rightarrow> bool" where
  "prefix_ok p \<longleftrightarrow> p = ''/'' \<or> (\<exists>c s. p = CHR ''/'' # c # s \<and> c \<noteq> CHR ''/'' \<and> last p \<noteq> CHR ''/'')"

definition path_ok :: "string \<Rightarrow> bool" where
  "path_ok p \<longleftrightarrow> p = [] \<or> hd p = CHR ''/'' \<and> last p \<noteq> CHR ''/''"

lemma dropWhile_hd: "dropWhile p s = c # cs \<Longrightarrow> \<not> p c"
  using hd_dropWhile [of p s] by simp

lemma trim_right_last: "trim_right p s = [] \<or> \<not> p (last (trim_right p s))"
  by (cases "dropWhile p (rev s)") (auto simp: trim_right_def dest: dropWhile_hd)

lemma trim_right_prefix: "\<exists>t. s = trim_right p s @ t"
proof -
  have "rev (takeWhile p (rev s) @ dropWhile p (rev s)) = s"
    by simp
  then show ?thesis
    unfolding trim_right_def rev_append by metis
qed

lemma trim_hd: "trim p s = [] \<or> \<not> p (hd (trim p s))"
proof (cases "trim p s")
  case (Cons c cs)
  obtain t where "dropWhile p s = trim p s @ t"
    using trim_right_prefix [of "dropWhile p s" p] by (auto simp: trim_def)
  then have "dropWhile p s = c # cs @ t"
    using Cons by simp
  then show ?thesis
    using Cons dropWhile_hd [of p s c] by simp
qed simp

lemma trim_last: "trim p s = [] \<or> \<not> p (last (trim p s))"
  unfolding trim_def by (rule trim_right_last)

lemma route_prefix_ok: "prefix_ok (route_prefix given path)"
  using trim_hd [of is_slash "if given = [] then path else given"] trim_last [of is_slash "if given = [] then path else given"]
  by (cases "trim is_slash (if given = [] then path else given)")
    (auto simp: route_prefix_def prefix_ok_def is_slash_def)

lemma external_path_ok: "path_ok (external_path p)"
proof (cases "trim_right is_slash p")
  case (Cons c cs)
  then have "last (c # cs) \<noteq> CHR ''/''"
    using trim_right_last [of is_slash p] by (simp add: is_slash_def)
  then show ?thesis
    using Cons by (auto simp: external_path_def path_ok_def has_prefix_def Let_def)
qed (simp add: external_path_def path_ok_def)

lemma cmd_parse_prefix: "cmd_parse env flag_err rest cfg = Inr cfg' \<Longrightarrow> prefix_ok (cf_RoutePrefix cfg')"
  using route_prefix_ok by (auto simp: cmd_parse_def split: option.splits list.splits sum.splits)

text \<open>C37. A command line that is accepted leaves a valid external URL, given or built from the host name and the port of
  the listen address, an external path without a trailing slash, and a route prefix that begins with exactly
  one slash and ends in none; without a prefix of its own it is that of the external path.\<close>

theorem cmd_parse_correct:
  assumes "cmd_parse env flag_err rest cfg = Inr cfg'"
  shows "flag_err = None \<and> rest = [] \<and> ce_IsURL env (cf_prometheusURL cfg') \<and>
    (cf_prometheusURL cfg \<noteq> [] \<longrightarrow> cf_prometheusURL cfg' = cf_prometheusURL cfg) \<and>
    path_ok (cf_ExternalPath cfg') \<and> prefix_ok (cf_RoutePrefix cfg') \<and>
    (cf_RoutePrefix cfg = [] \<longrightarrow> cf_RoutePrefix cfg' = CHR ''/'' # trim is_slash (cf_ExternalPath cfg'))"
proof -
  obtain c where c: "flag_err = None" "rest = []" "parsePrometheusURL env cfg = Inr c"
      "cfg' = c\<lparr>cf_RoutePrefix := route_prefix (cf_RoutePrefix c) (cf_ExternalPath c)\<rparr>"
    using assms by (auto simp: cmd_parse_def split: option.splits list.splits sum.splits)
  obtain url path where "ce_IsURL env url" "c = cfg\<lparr>cf_prometheusURL := url, cf_ExternalPath := external_path path\<rparr>"
      "cf_prometheusURL cfg \<noteq> [] \<longrightarrow> url = cf_prometheusURL cfg"
    using c(3) by (auto simp: parsePrometheusURL_def split: if_splits sum.splits)
  then show ?thesis
    using c route_prefix_ok external_path_ok by (auto simp: route_prefix_def [of "[]"])
qed

definition ex_cmd_env :: cmd_env where
  "ex_cmd_env = \<lparr>ce_Hostname = Inr ''h'', ce_IsURL = (\<lambda>_. True), ce_url_Parse = (\<lambda>_. Inr ''/prom/''), ce_quote = id\<rparr>"

lemma ex_cmd_parse:
  "cmd_parse ex_cmd_env None [] default_cmd_cfg = Inr (default_cmd_cfg\<lparr>cf_prometheusURL := ''http://h:9090/'',
     cf_ExternalPath := ''/prom'', cf_RoutePrefix := ''/prom''\<rparr>)"
  by (simp add: cmd_parse_def ex_cmd_env_def default_cmd_cfg_def parsePrometheusURL_def split_port_of_def split_host_port_ok_def
      last_colon_def external_path_def route_prefix_def trim_def trim_right_def is_slash_def has_prefix_def Let_def)

theorem cmd_parse_correct_witness:
  "prefix_ok (cf_RoutePrefix (default_cmd_cfg\<lparr>cf_prometheusURL := ''http://h:9090/'', cf_ExternalPath := ''/prom'', cf_RoutePrefix := ''/prom''\<rparr>))"
  using cmd_parse_correct [OF ex_cmd_parse] by blast

section \<open>Sets of strings as text\<close>

lemma split_at_ne [simp]: "split_at sep s \<noteq> []"
  by (induction s) (auto split: list.split)

lemma split_at_plain: "sep \<notin> set p \<Longrightarrow> split_at sep p = [p]"
  by (induction p) auto

lemma split_at_append: "sep \<notin> set p \<Longrightarrow> split_at sep (p @ sep # s) = p # split_at sep s"
  by (induction p) auto

lemma split_at_pieces: "p \<in> set (split_at sep s) \<Longrightarrow> sep \<notin> set p"
proof (induction s arbitrary: p)
  case (Cons c s)
  obtain q qs where "split_at sep s = q # qs"
    by (meson neq_Nil_conv split_at_ne)
  then show ?case
    using Cons by (auto split: if_splits)
qed simp

lemma split_join:
  "list_all (\<lambda>p. sep \<notin> set p) ps \<Longrightarrow> split_at sep (str_join ps [sep]) = (if ps = [] then [[]] else ps)"
proof (induction ps)
  case (Cons p ps)
  then show ?case
    by (cases ps) (simp_all add: split_at_plain split_at_append)
qed simp

lemma dropWhile_id: "s = [] \<or> \<not> p (hd s) \<Longrightarrow> dropWhile p s = s"
  by (cases s) auto

lemma trim_id: "s = [] \<or> \<not> p (hd s) \<and> \<not> p (last s) \<Longrightarrow> trim p s = s"
  by (auto simp: trim_def trim_right_def dropWhile_id hd_rev)

lemma TrimSpace_TrimSpace [simp]: "TrimSpace (TrimSpace s) = TrimSpace s"
  unfolding TrimSpace_def using trim_hd [of is_space s] trim_last [of is_space s] by (intro trim_id) blast

lemma set_trim: "set (trim p s) \<subseteq> set s"
proof -
  obtain t where "dropWhile p s = trim p s @ t"
    using trim_right_prefix [of "dropWhile p s" p] by (auto simp: trim_def)
  then have "set (trim p s) \<subseteq> set (dropWhile p s)"
    by auto
  then show ?thesis
    by (auto dest: set_dropWhileD)
qed

lemma stringset_add_dom:
  "dom (gm_get (stringset_add ss vs)) = dom (gm_get ss) \<union> ({TrimSpace v | v. v \<in> set vs} - {[]})"
  by (induction ss vs rule: stringset_add.induct) (auto simp: Let_def gm_get_put)

lemma set_stringset_slice: "set (stringset_slice ss) = dom (gm_get ss)"
  by (simp add: stringset_slice_def dom_gm_get)

text \<open>A set of strings collects the trimmed, non-empty pieces of its argument between commas, and reading its printed
  form gives the same set again.\<close>

theorem stringset_roundtrip:
  "dom (gm_get (stringset_Set [] s)) = {TrimSpace v | v. v \<in> set (split_at CHR '','' s)} - {[]} \<and>
   dom (gm_get (stringset_Set [] (stringset_String (stringset_Set [] s)))) = dom (gm_get (stringset_Set [] s))"
proof -
  let ?ss = "stringset_Set [] s"
  have d: "dom (gm_get ?ss) = {TrimSpace v | v. v \<in> set (split_at CHR '','' s)} - {[]}"
    by (simp add: stringset_Set_def stringset_add_dom)
  have "CHR '','' \<notin> set p" if p: "p \<in> dom (gm_get ?ss)" for p
  proof -
    obtain v where "v \<in> set (split_at CHR '','' s)" "p = TrimSpace v"
      using p unfolding d by blast
    then show ?thesis
      using split_at_pieces set_trim unfolding TrimSpace_def by fastforce
  qed
  then have "list_all (\<lambda>p. CHR '','' \<notin> set p) (stringset_slice ?ss)"
    by (simp add: list_all_iff set_stringset_slice)
  then have sp: "set (split_at CHR '','' (stringset_String ?ss)) \<union> {[]} = dom (gm_get ?ss) \<union> {[]}"
    using set_stringset_slice [of ?ss] by (auto simp: stringset_String_def split_join)
  have t: "TrimSpace p = p" if "p \<in> dom (gm_get ?ss)" for p
    using that unfolding d by auto
  have n: "[] \<notin> dom (gm_get ?ss)"
    unfolding d by simp
  have "{TrimSpace v | v. v \<in> set (split_at CHR '','' (stringset_String ?ss))} - {[]} = dom (gm_get ?ss)"
  proof (intro set_eqI iffI)
    fix x
    assume "x \<in> {TrimSpace v | v. v \<in> set (split_at CHR '','' (stringset_String ?ss))} - {[]}"
    then obtain v where v: "v \<in> set (split_at CHR '','' (stringset_String ?ss))" "x = TrimSpace v" "x \<noteq> []"
      by blast
    then have "v \<noteq> []"
      by (auto simp: TrimSpace_def trim_def trim_right_def)
    then have "v \<in> dom (gm_get ?ss)"
      using v(1) sp by blast
    then show "x \<in> dom (gm_get ?ss)"
      using t v(2) by simp
  next
    fix x
    assume x: "x \<in> dom (gm_get ?ss)"
    then have "x \<noteq> []" "x \<in> set (split_at CHR '','' (stringset_String ?ss))"
      using n sp by blast+
    then show "x \<in> {TrimSpace v | v. v \<in> set (split_at CHR '','' (stringset_String ?ss))} - {[]}"
      using t [OF x] by force
  qed
  then show ?thesis
    using d by (simp add: stringset_Set_def [of "[]" "stringset_String ?ss"] stringset_add_dom)
qed

section \<open>The usage text keeps words and flags\<close>

lemma concat_split_after: "concat (split_after sep s) = s"
  by (induction s) (auto split: list.split)

lemma filter_trim: "filter (\<lambda>c. \<not> p c) (trim p s) = filter (\<lambda>c. \<not> p c) s"
proof -
  have d: "filter (\<lambda>c. \<not> p c) (dropWhile p t) = filter (\<lambda>c. \<not> p c) t" for t
    by (induction t) auto
  show ?thesis
    unfolding trim_def trim_right_def rev_filter [symmetric] d rev_rev_ident ..
qed

lemma filter_wrap_loop:
  "filter (\<lambda>c. \<not> is_space c) (wrap_loop w indent len ns xs) =
     filter (\<lambda>c. \<not> is_space c) ns @ filter (\<lambda>c. \<not> is_space c) (concat xs)"
  by (induction w indent len ns xs rule: wrap_loop.induct) (auto simp: is_space_def)

lemma usage_wrap_words: "filter (\<lambda>c. \<not> is_space c) (usage_wrap width indent s) = filter (\<lambda>c. \<not> is_space c) s"
  by (simp add: usage_wrap_def TrimSpace_def filter_trim filter_wrap_loop concat_split_after)

lemma usage_buckets_get:
  "bucket_get (usage_buckets groups fls) k = bucket_get groups k @ filter (\<lambda>f. flag_bucket f = k) fls \<and>
   (gm_has (usage_buckets groups fls) k \<longleftrightarrow> gm_has groups k \<or> (\<exists>f \<in> set fls. flag_bucket f = k)) \<and>
   (gm_ok groups \<longrightarrow> gm_ok (usage_buckets groups fls))"
  by (induction groups fls rule: usage_buckets.induct) (auto simp: bucket_get_def gm_has_def gm_get_put)

lemma usage_merge_get:
  "(k \<noteq> ''.'' \<longrightarrow> gm_get (usage_merge groups todo) k =
     (if \<exists>fl. (k, fl) \<in> set todo \<and> length fl < 2 then None else gm_get groups k)) \<and>
   bucket_get (usage_merge groups todo) ''.'' =
     bucket_get groups ''.'' @ concat (map snd (filter (\<lambda>(cat, fl). length fl < 2 \<and> cat \<noteq> ''.'') todo))"
proof (induction groups todo rule: usage_merge.induct)
  case (2 groups cat fl todo)
  then show ?case
    by (cases "length fl < 2 \<and> cat \<noteq> ''.''") (auto simp: bucket_get_def gm_get_put gm_get_del)
qed simp

text \<open>The usage text loses nothing: wrapping only adds and removes white space, and every flag appears in the group of
  its prefix if that group has at least two flags, and in the group of the dot otherwise.\<close>

theorem usage_complete:
  "filter (\<lambda>c. \<not> is_space c) (usage_wrap width indent s) = filter (\<lambda>c. \<not> is_space c) s \<and>
   (k \<noteq> ''.'' \<longrightarrow> gm_get (usage_groups flags) k =
      (let fl = filter (\<lambda>f. flag_bucket f = k) flags in if length fl < 2 then None else Some fl)) \<and>
   set (bucket_get (usage_groups flags) ''.'') =
      {f \<in> set flags. flag_bucket f = ''.'' \<or> length (filter (\<lambda>g. flag_bucket g = flag_bucket f) flags) < 2}"
proof -
  let ?g = "usage_buckets [] flags"
  let ?of = "\<lambda>k. filter (\<lambda>f. flag_bucket f = k) flags"
  note b = usage_buckets_get [of "[]" flags]
  have ok: "gm_ok ?g"
    using b by simp
  have g: "gm_get ?g k = (if ?of k = [] then None else Some (?of k))" for k
    using b [of k] by (auto simp: bucket_get_def gm_has_def filter_empty_conv split: option.splits)
  have e: "(k, fl) \<in> set ?g \<longleftrightarrow> fl = ?of k \<and> fl \<noteq> []" for k fl
    unfolding gm_get_Some_iff [OF ok, symmetric] g by auto
  have 1: "gm_get (usage_groups flags) k = (if length (?of k) < 2 then None else Some (?of k))" if "k \<noteq> ''.''" for k
    using that usage_merge_get [of k ?g ?g] unfolding e g usage_groups_def Let_def by auto
  have "bucket_get ?g ''.'' = ?of ''.''"
    using b [of "''.''"] by (simp add: bucket_get_def)
  then have d: "set (bucket_get (usage_groups flags) ''.'') =
      set (?of ''.'') \<union> \<Union> (set ` snd ` {(cat, fl). (cat, fl) \<in> set ?g \<and> length fl < 2 \<and> cat \<noteq> ''.''})"
    using conjunct2 [OF usage_merge_get [of _ ?g ?g]] by (auto simp: usage_groups_def Let_def)
  have 2: "set (bucket_get (usage_groups flags) ''.'') =
      {f \<in> set flags. flag_bucket f = ''.'' \<or> length (?of (flag_bucket f)) < 2}"
  proof (intro set_eqI iffI)
    fix f
    assume "f \<in> set (bucket_get (usage_groups flags) ''.'')"
    then show "f \<in> {f \<in> set flags. flag_bucket f = ''.'' \<or> length (?of (flag_bucket f)) < 2}"
      unfolding d by (auto simp: e)
  next
    fix f
    assume f: "f \<in> {f \<in> set flags. flag_bucket f = ''.'' \<or> length (?of (flag_bucket f)) < 2}"
    show "f \<in> set (bucket_get (usage_groups flags) ''.'')"
    proof (cases "flag_bucket f = ''.''")
      case True
      then show ?thesis
        using f unfolding d by simp
    next
      case False
      have "(flag_bucket f, ?of (flag_bucket f)) \<in> set ?g" "f \<in> set (?of (flag_bucket f))"
        using f by (auto simp: e filter_empty_conv)
      then show ?thesis
        using f False unfolding d by force
    qed
  qed
  show ?thesis
    using usage_wrap_words 1 2 by (simp add: Let_def)
qed

theorem usage_complete_witness:
  "gm_get (usage_groups [''web.a'', ''web.b'', ''config.file'']) ''web'' = Some [''web.a'', ''web.b'']"
proof -
  have "flag_bucket ''web.a'' = ''web''" "flag_bucket ''web.b'' = ''web''" "flag_bucket ''config.file'' = ''config''"
    by (simp_all add: flag_bucket_def)
  then show ?thesis
    using usage_complete [of 80 6 "[]" "''web''" "[''web.a'', ''web.b'', ''config.file'']"] by simp
qed

end
