(* ===== verification/Usage.thy ===== *)
theory Usage
  imports Cmd_Config
begin

text \<open>
  The flags that the process registers when it starts, and the usage message that lists them (\<open>src/cmd/config.go\<close>).
  A flag set is the list of its flags in the order of their registration; \<open>text/template\<close> visits a map in the order of
  its keys, \<open>VisitAll\<close> the flags in the order of their names. Upper case is that of ASCII letters, and \<open>%q\<close> is a parameter.
\<close>

section \<open>Flags\<close>

record flag_info =
  fl_Name :: string
  fl_DefValue :: string
  fl_Usage :: string

text \<open>Registering a name twice panics.\<close>

definition fs_Var :: "flag_info \<Rightarrow> flag_info list \<Rightarrow> panic + flag_info list" where
  "fs_Var f fs = (if fl_Name f \<in> fl_Name ` set fs then Inl (ExplicitPanic (''flag redefined: '' @ fl_Name f))
     else Inr (fs @ [f]))"

fun fs_Vars :: "flag_info list \<Rightarrow> flag_info list \<Rightarrow> panic + flag_info list" where
  "fs_Vars [] fs = Inr fs"
| "fs_Vars (f # new) fs = (case fs_Var f fs of Inl p \<Rightarrow> Inl p | Inr fs' \<Rightarrow> fs_Vars new fs')"

text \<open>An unused flag starts with an empty value.\<close>

definition registerUnusedFlags :: "flag_info list \<Rightarrow> string \<Rightarrow> string list \<Rightarrow> panic + flag_info list" where
  "registerUnusedFlags fs help flags =
    fs_Vars (map (\<lambda>n. \<lparr>fl_Name = n, fl_DefValue = unusedFlag_String \<lparr>uf_name = n, uf_value = [], uf_help = help\<rparr>, fl_Usage = help\<rparr>) flags) fs"

definition log_flags :: "(string \<Rightarrow> string) \<Rightarrow> flag_info list" where
  "log_flags quote =
    [\<lparr>fl_Name = ''log.level'', fl_DefValue = quote ''info'',
      fl_Usage = ''Only log messages with the given severity or above. Valid levels: [debug, info, warn, error, fatal]''\<rparr>,
     \<lparr>fl_Name = ''log.format'', fl_DefValue = quote ''logger:stderr'',
      fl_Usage = ''Set the log target and format. Example: '' @ [CHR 0x22] @ ''logger:syslog?appname=bob&local=7'' @ [CHR 0x22] @
        '' or '' @ [CHR 0x22] @ ''logger:stdout?json=true'' @ [CHR 0x22]\<rparr>]"

definition cmd_flags :: "flag_info list" where
  "cmd_flags =
    [\<lparr>fl_Name = ''config.file'', fl_DefValue = ''prometheus.yml'', fl_Usage = ''Prometheus configuration file name.''\<rparr>,
     \<lparr>fl_Name = ''web.listen-address'', fl_DefValue = '':9090'',
      fl_Usage = ''Address to listen on for the web interface, API, and telemetry.''\<rparr>,
     \<lparr>fl_Name = ''web.max-connections'', fl_DefValue = ''512'', fl_Usage = ''Maximum number of simultaneous connections.''\<rparr>,
     \<lparr>fl_Name = ''web.external-url'', fl_DefValue = [],
      fl_Usage = ''The URL under which Prometheus is externally reachable (for example, if Prometheus is served via a reverse proxy). Used for generating relative and absolute links back to Prometheus itself. If the URL has a path portion, it will be used to prefix all HTTP endpoints served by Prometheus. If omitted, relevant URL components will be derived automatically.''\<rparr>,
     \<lparr>fl_Name = ''web.route-prefix'', fl_DefValue = [],
      fl_Usage = ''Prefix for the internal routes of web endpoints. Defaults to path of -web.external-url.''\<rparr>,
     \<lparr>fl_Name = ''storage.local.engine'', fl_DefValue = ''remoteprometheus'',
      fl_Usage = ''Local storage engine. Supported values are: '' @ [CHR 0x27] @ ''remoteprometheus'' @ [CHR 0x27] @
        '' (full local storage with on-disk persistence) and '' @ [CHR 0x27] @ ''none'' @ [CHR 0x27] @ '' (no local storage).''\<rparr>,
     \<lparr>fl_Name = ''query.staleness-delta'', fl_DefValue = ''5m0s'',
      fl_Usage = ''Staleness delta allowance during expression evaluations.''\<rparr>,
     \<lparr>fl_Name = ''query.timeout'', fl_DefValue = ''2m0s'', fl_Usage = ''Maximum time a query may take before being aborted.''\<rparr>,
     \<lparr>fl_Name = ''query.max-concurrency'', fl_DefValue = ''20'', fl_Usage = ''Maximum number of queries executed concurrently.''\<rparr>]"

definition init_flags :: "(string \<Rightarrow> string) \<Rightarrow> panic + flag_info list" where
  "init_flags quote = fs_Vars (cmd_flags @ log_flags quote) []"

section \<open>The message\<close>

definition upper_char :: "char \<Rightarrow> char" where
  "upper_char c = (if CHR ''a'' \<le> c \<and> c \<le> CHR ''z'' then char_of ((of_char c :: nat) - 32) else c)"

text \<open>The groups hold the flags by their names, which are unique in a flag set.\<close>

definition usage_sections :: "flag_info list \<Rightarrow> (string \<times> flag_info list) list" where
  "usage_sections fs = (let groups = usage_groups (map fl_Name (sort_key fl_Name fs)) in
     map (\<lambda>cat. (cat, concat (map (\<lambda>n. filter (\<lambda>f. fl_Name f = n) fs) (bucket_get groups cat)))) (sort (map fst groups)))"

definition usage_entry :: "(string \<Rightarrow> string) \<Rightarrow> flag_info \<Rightarrow> string" where
  "usage_entry quote f = [CHR 0x0A] @ ''   -'' @ fl_Name f @ '' '' @ usage_quote quote (fl_DefValue f) @
     [CHR 0x0A] @ ''      '' @ usage_wrap 80 6 (fl_Usage f) @ [CHR 0x0A] @ ''  ''"

definition usage_section :: "(string \<Rightarrow> string) \<Rightarrow> string \<times> flag_info list \<Rightarrow> string" where
  "usage_section quote sec = (case sec of (cat, flags) \<Rightarrow>
     (if cat \<noteq> ''.'' then '' == '' @ map upper_char cat @ '' =='' else []) @ [CHR 0x0A] @ ''  '' @
     concat (map (usage_entry quote) flags) @ [CHR 0x0A])"

definition usage :: "(string \<Rightarrow> string) \<Rightarrow> flag_info list \<Rightarrow> string" where
  "usage quote fs = ''usage: prometheus [<args>]'' @ [CHR 0x0A] @ concat (map (usage_section quote) (usage_sections fs))"

section \<open>No flag is defined twice\<close>

lemma fs_Vars_distinct:
  "distinct (map fl_Name fs) \<Longrightarrow> fs_Vars new fs = Inr fs' \<longleftrightarrow> distinct (map fl_Name (fs @ new)) \<and> fs' = fs @ new"
  by (induction new arbitrary: fs) (auto simp: fs_Var_def)

lemma init_flags_ok: "init_flags quote = Inr (cmd_flags @ log_flags quote)"
  unfolding init_flags_def by (subst fs_Vars_distinct) (simp_all add: cmd_flags_def log_flags_def)

section \<open>Every flag is shown once\<close>

definition group_names :: "(string, string list) gomap \<Rightarrow> string multiset" where
  "group_names g = mset (concat (map snd g))"

lemma group_names_put: "group_names (gm_put g k (bucket_get g k @ xs)) = group_names g + mset xs"
  by (induction g) (auto simp: group_names_def gm_put_def bucket_get_def gm_get_def)

lemma delete_absent: "k \<notin> fst ` set g \<Longrightarrow> AList.delete k g = g"
  by (induction g) auto

lemma group_names_del:
  assumes "gm_ok g" "gm_get g k = Some fl"
  shows "group_names (gm_del g k) + mset fl = group_names g"
  using assms
proof (induction g)
  case (Cons p g)
  show ?case
  proof (cases "fst p = k")
    case True
    then have "AList.delete k g = g"
      using Cons.prems(1) by (intro delete_absent) (auto simp: gm_ok_def)
    then show ?thesis
      using True Cons.prems(2) by (cases p) (simp add: group_names_def gm_del_def gm_get_def)
  next
    case False
    then show ?thesis
      using Cons by (cases p) (simp add: group_names_def gm_del_def gm_get_def gm_ok_def add.assoc)
  qed
qed simp

lemma group_names_buckets: "group_names (usage_buckets g fls) = group_names g + mset fls"
  by (induction g fls rule: usage_buckets.induct) (simp_all add: group_names_put)

lemma group_names_merge:
  assumes "gm_ok g" "distinct (map fst todo)" "\<And>cat fl. (cat, fl) \<in> set todo \<Longrightarrow> cat \<noteq> ''.'' \<Longrightarrow> gm_get g cat = Some fl"
  shows "group_names (usage_merge g todo) = group_names g \<and> gm_ok (usage_merge g todo)"
  using assms
proof (induction todo arbitrary: g)
  case (Cons p todo)
  obtain cat fl where p: "p = (cat, fl)"
    by fastforce
  let ?p = "gm_put g ''.'' (bucket_get g ''.'' @ fl)"
  have mem: "gm_get g c = Some l" if "(c, l) \<in> set todo" "c \<noteq> ''.''" for c l
    using that Cons.prems(3) by simp
  show ?case
  proof (cases "length fl < 2 \<and> cat \<noteq> ''.''")
    case True
    then have "gm_get ?p cat = Some fl"
      using Cons.prems(3) [of cat fl] p by (simp add: gm_get_put)
    then have "group_names (gm_del ?p cat) + mset fl = group_names g + mset fl"
      using group_names_del [of ?p cat fl] Cons.prems(1) by (simp add: group_names_put)
    moreover have "c \<noteq> cat" if "(c, l) \<in> set todo" for c l
      using that Cons.prems(2) p by force
    then have "gm_get (gm_del ?p cat) c = Some l" if "(c, l) \<in> set todo" "c \<noteq> ''.''" for c l
      using that mem [OF that] by (fastforce simp: gm_get_put gm_get_del)
    then have "group_names (usage_merge (gm_del ?p cat) todo) = group_names (gm_del ?p cat) \<and> gm_ok (usage_merge (gm_del ?p cat) todo)"
      using Cons.prems(1,2) by (intro Cons.IH) simp_all
    ultimately show ?thesis
      using True p by simp
  next
    case False
    have "group_names (usage_merge g todo) = group_names g \<and> gm_ok (usage_merge g todo)"
      using Cons.prems mem by (intro Cons.IH) simp_all
    then show ?thesis
      unfolding p usage_merge.simps if_not_P [OF False] .
  qed
qed simp

lemma usage_groups_names:
  "group_names (usage_groups fls) = mset fls" "gm_ok (usage_groups fls)"
proof -
  let ?g = "usage_buckets [] fls"
  have ok: "gm_ok ?g"
    using usage_buckets_get [of "[]" fls] by simp
  have "group_names (usage_merge ?g ?g) = group_names ?g \<and> gm_ok (usage_merge ?g ?g)"
    using ok by (intro group_names_merge) (simp_all add: gm_get_Some_iff gm_ok_def)
  then show "group_names (usage_groups fls) = mset fls" "gm_ok (usage_groups fls)"
    using group_names_buckets [of "[]" fls] by (simp_all add: usage_groups_def Let_def) (simp add: group_names_def)
qed

lemma filter_same_name: "distinct (map g fs) \<Longrightarrow> f \<in> set fs \<Longrightarrow> filter (\<lambda>h. g h = g f) fs = [f]"
  by (induction fs) (auto simp: filter_empty_conv image_iff)

lemma mset_concat_map: "mset xs = mset ys \<Longrightarrow> mset (concat (map F xs)) = mset (concat (map F ys))"
proof -
  have "mset (concat (map F zs)) = (\<Sum>z\<in>#mset zs. mset (F z))" for zs
    by (induction zs) simp_all
  then show "mset xs = mset ys \<Longrightarrow> ?thesis"
    by simp
qed

lemma concat_concat: "concat (concat xss) = concat (map concat xss)"
  by (induction xss) simp_all

lemma flags_of_names:
  assumes "distinct (map fl_Name fs)" "mset names = mset (map fl_Name fs)"
  shows "mset (concat (map (\<lambda>n. filter (\<lambda>f. fl_Name f = n) fs) names)) = mset fs"
proof -
  let ?F = "\<lambda>n. filter (\<lambda>f. fl_Name f = n) fs"
  have "mset (concat (map ?F names)) = mset (concat (map ?F (map fl_Name fs)))"
    using assms(2) by (rule mset_concat_map)
  also have "concat (map ?F (map fl_Name fs)) = concat (map (\<lambda>f. [f]) fs)"
    unfolding map_map by (intro arg_cong [of _ _ concat] map_cong refl) (simp add: filter_same_name [OF assms(1)])
  finally show ?thesis
    by simp
qed

lemma usage_section_entry: "\<exists>p1 p2. usage_section quote (cat, f1 @ f # f2) = p1 @ usage_entry quote f @ p2"
proof -
  have "usage_section quote (cat, f1 @ f # f2) =
      ((if cat \<noteq> ''.'' then '' == '' @ map upper_char cat @ '' =='' else []) @ [CHR 0x0A] @ ''  '' @ concat (map (usage_entry quote) f1)) @
      usage_entry quote f @ (concat (map (usage_entry quote) f2) @ [CHR 0x0A])"
    by (simp add: usage_section_def)
  then show ?thesis
    by blast
qed

text \<open>The usage message shows every flag of the flag set exactly once: the sections, in the order of their names,
  hold together exactly the flags, each section other than that of the dot has at least two, all with its prefix, and the
  entry of each flag is part of the text.\<close>

theorem usage_shows_flags:
  assumes "distinct (map fl_Name fs)"
  shows "mset (concat (map snd (usage_sections fs))) = mset fs \<and>
    sorted_wrt (<) (map fst (usage_sections fs)) \<and>
    (\<forall>(cat, flags) \<in> set (usage_sections fs). cat \<noteq> ''.'' \<longrightarrow>
      2 \<le> length flags \<and> (\<forall>f \<in> set flags. flag_bucket (fl_Name f) = cat)) \<and>
    (\<forall>f \<in> set fs. \<exists>pre post. usage quote fs = pre @ usage_entry quote f @ post)"
proof -
  let ?names = "map fl_Name (sort_key fl_Name fs)"
  let ?g = "usage_groups ?names"
  let ?F = "\<lambda>n. filter (\<lambda>f. fl_Name f = n) fs"
  have get: "bucket_get ?g cat = fl" if "(cat, fl) \<in> set ?g" for cat fl
    using that gm_get_Some_iff [of ?g cat fl] usage_groups_names(2) [of ?names] by (simp add: bucket_get_def)
  have "mset (concat (map (bucket_get ?g) (map fst ?g))) = group_names ?g"
    using get by (auto simp: group_names_def intro!: arg_cong [of _ _ "\<lambda>x. mset (concat x)"])
  moreover have "mset (concat (map (bucket_get ?g) (sort (map fst ?g)))) = mset (concat (map (bucket_get ?g) (map fst ?g)))"
    by (intro mset_concat_map) simp
  ultimately have names: "mset (concat (map (bucket_get ?g) (sort (map fst ?g)))) = mset (map fl_Name fs)"
    using usage_groups_names(1) [of ?names] by simp
  have "concat (map snd (usage_sections fs)) = concat (map ?F (concat (map (bucket_get ?g) (sort (map fst ?g)))))"
    by (simp add: usage_sections_def Let_def comp_def map_concat concat_concat)
  with flags_of_names [OF assms names] have all: "mset (concat (map snd (usage_sections fs))) = mset fs"
    by simp
  moreover have "map fst (usage_sections fs) = sort (map fst ?g)"
    by (simp add: usage_sections_def Let_def comp_def)
  then have "sorted_wrt (<) (map fst (usage_sections fs))"
    using usage_groups_names(2) [of ?names] by (simp add: strict_sorted_iff gm_ok_def)
  moreover have "\<exists>pre post. usage quote fs = pre @ usage_entry quote f @ post" if f: "f \<in> set fs" for f
  proof -
    have "f \<in> set (concat (map snd (usage_sections fs)))"
      using f all by (metis set_mset_mset)
    then obtain cat flags where "(cat, flags) \<in> set (usage_sections fs)" "f \<in> set flags"
      by auto
    then obtain s1 s2 f1 f2 where s: "usage_sections fs = s1 @ (cat, flags) # s2" and "flags = f1 @ f # f2"
      by (metis split_list)
    then obtain p1 p2 where "usage_section quote (cat, flags) = p1 @ usage_entry quote f @ p2"
      using usage_section_entry [of quote cat f1 f f2] by blast
    then have "usage quote fs = (''usage: prometheus [<args>]'' @ [CHR 0x0A] @ concat (map (usage_section quote) s1) @ p1) @
        usage_entry quote f @ (p2 @ concat (map (usage_section quote) s2))"
      unfolding usage_def s by simp
    then show ?thesis
      by blast
  qed
  moreover have "2 \<le> length flags \<and> (\<forall>f \<in> set flags. flag_bucket (fl_Name f) = cat)"
    if sec: "(cat, flags) \<in> set (usage_sections fs)" "cat \<noteq> ''.''" for cat flags
  proof -
    let ?ns = "filter (\<lambda>n. flag_bucket n = cat) ?names"
    have flags: "flags = concat (map ?F (bucket_get ?g cat))" and "cat \<in> fst ` set ?g"
      using sec(1) by (auto simp: usage_sections_def Let_def)
    then have "gm_get ?g cat \<noteq> None"
      by (metis domIff dom_gm_get)
    then have ns: "bucket_get ?g cat = ?ns" "2 \<le> length ?ns"
      using usage_complete [of 0 0 "[]" cat ?names] sec(2) by (auto simp: bucket_get_def Let_def split: if_splits)
    have one: "0 < length (?F n)" if "n \<in> set ?ns" for n
      using that by (auto simp: filter_empty_conv)
    have len: "length ns \<le> length (concat (map ?F ns))" if "set ns \<subseteq> set ?ns" for ns
      using that
    proof (induction ns)
      case (Cons n ns)
      then show ?case
        using one [of n] by (simp del: length_greater_0_conv)
    qed simp
    have "2 \<le> length flags"
      unfolding flags ns(1) by (rule order.trans [OF ns(2) len [OF subset_refl]])
    moreover have "flag_bucket (fl_Name f) = cat" if "f \<in> set flags" for f
      using that unfolding flags ns(1) by auto
    ultimately show ?thesis
      by blast
  qed
  ultimately show ?thesis
    by blast
qed

theorem usage_shows_flags_witness:
  "\<exists>fs. init_flags id = Inr fs \<and> (\<forall>f \<in> set fs. \<exists>pre post. usage id fs = pre @ usage_entry id f @ post)"
proof -
  have "distinct (map fl_Name (cmd_flags @ log_flags id))"
    using init_flags_ok [of id] fs_Vars_distinct [of "[]" "cmd_flags @ log_flags id"] by (simp add: init_flags_def)
  from usage_shows_flags [OF this, of id] show ?thesis
    using init_flags_ok [of id] by blast
qed

lemma ex_usage:
  "map fst (usage_sections (cmd_flags @ log_flags id)) = [''.'', ''log'', ''query'', ''web'']"
  by code_simp

end
