(* ===== verification/Web_Handler.thy ===== *)
theory Web_Handler
  imports Cmd_Config Api
begin

text \<open>
  The web handler (\<open>src/web/web.go\<close>) and the routes of the API (\<open>Register\<close> of \<open>src/web/api/v1/api.go\<close>): which
  method and path reaches which handler, the status that a configuration sets, and the handlers that ask for
  termination and for a reload. \<open>path.Join\<close>, \<open>net.Listen\<close> and the HTTP server are parameters.
\<close>

datatype route_handler =
    RedirectTo string | ApiOptions | ApiQuery | ApiQueryRange | ApiLabelValues | ApiSeries | ApiDropSeries
  | ApiTargets | ApiAlertmanagers | QuitHandler | ReloadHandler | ReloadNeedsPost

type_synonym route = "string \<times> string \<times> route_handler"

definition api_Register :: "string \<Rightarrow> route list" where
  "api_Register prefix =
    [(''OPTIONS'', prefix @ ''/*path'', ApiOptions),
     (''GET'', prefix @ ''/query'', ApiQuery),
     (''GET'', prefix @ ''/query_range'', ApiQueryRange),
     (''GET'', prefix @ ''/label/:name/values'', ApiLabelValues),
     (''GET'', prefix @ ''/series'', ApiSeries),
     (''DELETE'', prefix @ ''/series'', ApiDropSeries),
     (''GET'', prefix @ ''/targets'', ApiTargets),
     (''GET'', prefix @ ''/alertmanagers'', ApiAlertmanagers)]"

record web_Options =
  wo_RoutePrefix :: string
  wo_ExternalPath :: string
  wo_EnableQuit :: bool
  wo_ListenAddress :: string
  wo_ReadTimeout :: Duration
  wo_MaxConnections :: int

record Handler =
  wh_options :: web_Options
  wh_routes :: "route list"
  wh_configString :: string
  wh_externalLabels :: LabelSet
  wh_quit_closed :: bool
  wh_reload_waiting :: nat

text \<open>The routes in the order of their registration.\<close>

definition web_routes :: "(string \<Rightarrow> string \<Rightarrow> string) \<Rightarrow> web_Options \<Rightarrow> route list" where
  "web_routes path_Join o' =
    (let prefix = (if wo_RoutePrefix o' \<noteq> ''/'' then wo_RoutePrefix o' else []) in
     (if wo_RoutePrefix o' \<noteq> ''/'' then [(''GET'', ''/'', RedirectTo (wo_RoutePrefix o'))] else []) @
     [(''GET'', prefix @ ''/'', RedirectTo (path_Join (wo_ExternalPath o') ''/graph''))] @
     api_Register (prefix @ ''/api/v1'') @
     (if wo_EnableQuit o' then [(''POST'', prefix @ ''/-/quit'', QuitHandler)] else []) @
     [(''POST'', prefix @ ''/-/reload'', ReloadHandler),
      (''GET'', prefix @ ''/-/reload'', ReloadNeedsPost)])"

definition web_New :: "(string \<Rightarrow> string \<Rightarrow> string) \<Rightarrow> web_Options \<Rightarrow> Handler" where
  "web_New path_Join o' = \<lparr>wh_options = o', wh_routes = web_routes path_Join o', wh_configString = [],
     wh_externalLabels = [], wh_quit_closed = False, wh_reload_waiting = 0\<rparr>"

definition web_ApplyConfig :: "LabelSet \<Rightarrow> string \<Rightarrow> Handler \<Rightarrow> Handler" where
  "web_ApplyConfig externalLabels text h = h\<lparr>wh_externalLabels := externalLabels, wh_configString := text\<rparr>"

text \<open>The text is written before the channel is closed, a second time with a panic.\<close>

definition web_quit :: "Handler \<Rightarrow> string \<times> (panic + Handler)" where
  "web_quit h = (''Requesting termination... Goodbye!'',
     if wh_quit_closed h then Inl CloseOfClosedChannel else Inr (h\<lparr>wh_quit_closed := True\<rparr>))"

text \<open>The handler waits until another goroutine receives from \<open>reloadCh\<close>; \<open>web_reload_answer\<close> is that goroutine's
  receipt and answer.\<close>

definition web_reload :: "Handler \<Rightarrow> Handler" where
  "web_reload h = h\<lparr>wh_reload_waiting := wh_reload_waiting h + 1\<rparr>"

definition web_reload_answer :: "string option \<Rightarrow> Handler \<Rightarrow> http_response \<times> Handler" where
  "web_reload_answer err h =
    ((case err of
        None \<Rightarrow> new_response
      | Some e \<Rightarrow> new_response\<lparr>hr_code := 500, hr_body := ''failed to reload config: '' @ e\<rparr>),
     h\<lparr>wh_reload_waiting := wh_reload_waiting h - 1\<rparr>)"

definition reload_needs_post :: http_response where
  "reload_needs_post = new_response\<lparr>hr_code := 405, hr_body := ''This endpoint requires a POST request.'' @ [CHR 0x0A]\<rparr>"

text \<open>\<open>Run\<close> sends one error on \<open>listenErrCh\<close>: that of the listener, or the one with which the server ends. The server
  gets the listener with its limit of connections.\<close>

record web_server =
  ws_Addr :: string
  ws_Handler :: "route list"
  ws_ReadTimeout :: Duration

definition web_Run :: "(string \<Rightarrow> string + 'l) \<Rightarrow> (web_server \<Rightarrow> 'l \<times> int \<Rightarrow> string) \<Rightarrow> Handler \<Rightarrow> string" where
  "web_Run Listen Serve h =
    (let server = \<lparr>ws_Addr = wo_ListenAddress (wh_options h), ws_Handler = wh_routes h,
                    ws_ReadTimeout = wo_ReadTimeout (wh_options h)\<rparr> in
     (case Listen (wo_ListenAddress (wh_options h)) of
        Inl err \<Rightarrow> err
      | Inr listener \<Rightarrow> Serve server (listener, wo_MaxConnections (wh_options h))))"

section \<open>Routes\<close>

definition route_key :: "route \<Rightarrow> string \<times> string" where
  "route_key r = (fst r, fst (snd r))"

lemma slash_prefix: "prefix_ok p \<Longrightarrow> p \<noteq> ''/'' \<Longrightarrow> p \<noteq> [] \<and> hd p = CHR ''/'' \<and> p @ ''/'' \<noteq> ''/''"
  by (auto simp: prefix_ok_def)

text \<open>With the route prefix that the command line makes, every path begins with a slash and no method and path is
  registered twice, so that building the router does not panic; termination can only be requested if it is
  enabled, and everything but the redirect from the root lies below the prefix.\<close>

theorem web_routes_correct:
  assumes "cmd_parse env flag_err rest cfg = Inr cfg'" "wo_RoutePrefix o' = cf_RoutePrefix cfg'"
  shows "distinct (map route_key (web_routes path_Join o')) \<and>
    list_all (\<lambda>(m, p, h). hd p = CHR ''/'' \<and> (p = ''/'' \<or> has_prefix p (cf_RoutePrefix cfg'))) (web_routes path_Join o') \<and>
    (list_ex (\<lambda>(m, p, h). h = QuitHandler) (web_routes path_Join o') \<longleftrightarrow> wo_EnableQuit o')"
proof -
  have ok: "prefix_ok (cf_RoutePrefix cfg')"
    using assms(1) by (rule cmd_parse_prefix)
  show ?thesis
  proof (cases "cf_RoutePrefix cfg' = ''/''")
    case True
    then show ?thesis
      by (auto simp: web_routes_def assms(2) api_Register_def route_key_def Let_def has_prefix_def)
  next
    case False
    obtain c s where p: "cf_RoutePrefix cfg' = CHR ''/'' # c # s"
      using ok False by (auto simp: prefix_ok_def)
    show ?thesis
      using p by (auto simp: web_routes_def assms(2) api_Register_def route_key_def Let_def has_prefix_def)
  qed
qed

theorem web_routes_correct_witness:
  "\<not> list_ex (\<lambda>(m, p, h). h = QuitHandler)
     (web_routes (@) \<lparr>wo_RoutePrefix = ''/prom'', wo_ExternalPath = ''/prom'', wo_EnableQuit = False, wo_ListenAddress = '':9090'', wo_ReadTimeout = 0, wo_MaxConnections = 512\<rparr>)"
  using web_routes_correct [OF ex_cmd_parse, of "\<lparr>wo_RoutePrefix = ''/prom'', wo_ExternalPath = ''/prom'', wo_EnableQuit = False, wo_ListenAddress = '':9090'', wo_ReadTimeout = 0, wo_MaxConnections = 512\<rparr>" "(@)"]
  by simp

end
