(* ===== verification/Writer.thy ===== *)
theory Writer
  imports Remote_Client Queue_Manager Relabel Sample_Appender
begin

text \<open>
  The writer (\<open>src/storage/remote/write.go\<close>): a list of queue managers that a configuration sets up, with the
  construction, the start and the stop of a queue manager from \<open>src/storage/remote/queue_manager.go\<close>, and the
  writer as the appender of the process (\<open>src/storage/storage.go\<close>, \<open>src/cmd/main.go\<close>).

  The state of a running queue manager is the \<open>qmanager\<close> of theory Queue_Manager with its step relation. Its
  \<open>Stop\<close> waits for goroutines, so stopping is a relation: the shards go through any steps until all
  goroutines have returned. The lock of the writer makes an append and a change of the configuration atomic
  with respect to each other.
\<close>

section \<open>A queue manager\<close>

record 'h QueueManager =
  q_cfg :: QueueManagerConfig
  q_externalLabels :: LabelSet
  q_relabelConfigs :: "RelabelConfig list"
  q_client :: "'h Client"
  q_queueName :: string
  q_quit :: bool
  q_state :: qmanager

text \<open>\<open>q_quit\<close> says that the channel \<open>quit\<close> is closed.\<close>

definition NewQueueManager ::
  "QueueManagerConfig \<Rightarrow> LabelSet \<Rightarrow> RelabelConfig list \<Rightarrow> 'h Client \<Rightarrow> panic + 'h QueueManager" where
  "NewQueueManager cfg externalLabels relabelConfigs client = (case newShards cfg 1 of
       Inl p \<Rightarrow> Inl p
     | Inr ss \<Rightarrow> Inr \<lparr>q_cfg = cfg, q_externalLabels = externalLabels, q_relabelConfigs = relabelConfigs,
         q_client = client, q_queueName = client_Name client, q_quit = False,
         q_state = \<lparr>qm_shards = ss, qm_old = None, qm_stopping = False, qm_sent = [], qm_accepted = [], qm_dropped = []\<rparr>\<rparr>)"

definition q_Start :: "'h QueueManager \<Rightarrow> 'h QueueManager" where
  "q_Start q = q\<lparr>q_state := (q_state q)\<lparr>qm_shards := shards_start (qm_shards (q_state q))\<rparr>\<rparr>"

text \<open>\<open>Append\<close> with the books on what was accepted and what was dropped.\<close>

definition q_Append ::
  "(RelabelConfig list \<Rightarrow> LabelSet \<Rightarrow> LabelSet option) \<Rightarrow> Sample \<Rightarrow> 'h QueueManager \<Rightarrow> panic + 'h QueueManager" where
  "q_Append process s q =
    (case append_sample (process (q_relabelConfigs q)) (q_externalLabels q) s of
       None \<Rightarrow> Inr q
     | Some snew \<Rightarrow>
        (case enqueue (q_cfg q) (qm_shards (q_state q)) snew of
           Inl p \<Rightarrow> Inl p
         | Inr (ss, enqueued) \<Rightarrow> Inr (q\<lparr>q_state :=
             (if enqueued then (q_state q)\<lparr>qm_shards := ss, qm_accepted := qm_accepted (q_state q) @ [snew]\<rparr>
              else (q_state q)\<lparr>qm_shards := ss, qm_dropped := qm_dropped (q_state q) @ [snew]\<rparr>)\<rparr>)))"

text \<open>\<open>Stop\<close> closes \<open>quit\<close> (a second time is a panic), waits for the loops, closes the shards and waits for
  their goroutines.\<close>

inductive q_Stop :: "'h QueueManager \<Rightarrow> panic + 'h QueueManager \<Rightarrow> bool" where
  twice: "q_quit q \<Longrightarrow> q_Stop q (Inl CloseOfClosedChannel)"
| stops: "\<lbrakk>\<not> q_quit q; (qm_step (q_cfg q))\<^sup>*\<^sup>* (q_state q) m; qm_stopping m;
    list_all (\<lambda>s. sh_status s = Returned) (qm_shards m);
    qm_accepted m = qm_accepted (q_state q); qm_dropped m = qm_dropped (q_state q)\<rbrakk> \<Longrightarrow>
    q_Stop q (Inr (q\<lparr>q_quit := True, q_state := m\<rparr>))"

inductive_cases q_Stop_InrE: "q_Stop q (Inr q')"

section \<open>The writer\<close>

record 'h Writer =
  w_queues :: "'h QueueManager list"

record 'c RemoteWriteConfig =
  rw_URL :: url
  rw_RemoteTimeout :: Duration
  rw_HTTPClientConfig :: 'c
  rw_WriteRelabelConfigs :: "RelabelConfig list"

fun writer_queues ::
  "('c \<Rightarrow> 'e + 'h) \<Rightarrow> LabelSet \<Rightarrow> int \<Rightarrow> 'h QueueManager list \<Rightarrow> 'c RemoteWriteConfig list \<Rightarrow>
   panic + 'e + 'h QueueManager list" where
  "writer_queues newHTTP externalLabels i newQueues [] = Inr (Inr newQueues)"
| "writer_queues newHTTP externalLabels i newQueues (rw # rws) =
    (case NewClient newHTTP i \<lparr>cc_url = rw_URL rw, cc_timeout = rw_RemoteTimeout rw,
        cc_httpClientConfig = rw_HTTPClientConfig rw\<rparr> of
       Inl err \<Rightarrow> Inr (Inl err)
     | Inr c \<Rightarrow>
        (case NewQueueManager defaultQueueManagerConfig externalLabels (rw_WriteRelabelConfigs rw) c of
           Inl p \<Rightarrow> Inl p
         | Inr q \<Rightarrow> writer_queues newHTTP externalLabels (i + 1) (newQueues @ [q]) rws))"

text \<open>The queues are stopped one after the other.\<close>

inductive queues_stop :: "'h QueueManager list \<Rightarrow> panic + 'h QueueManager list \<Rightarrow> bool" where
  none: "queues_stop [] (Inr [])"
| cons: "\<lbrakk>q_Stop q (Inr q'); queues_stop qs (Inr qs')\<rbrakk> \<Longrightarrow> queues_stop (q # qs) (Inr (q' # qs'))"
| panic: "q_Stop q (Inl p) \<Longrightarrow> queues_stop (q # qs) (Inl p)"
| panic_later: "\<lbrakk>q_Stop q (Inr q'); queues_stop qs (Inl p)\<rbrakk> \<Longrightarrow> queues_stop (q # qs) (Inl p)"

inductive_cases queues_stop_NilE: "queues_stop [] r"
inductive_cases queues_stop_ConsE: "queues_stop (q # qs) r"

text \<open>The result of \<open>ApplyConfig\<close>: the new state, the error, and the old queues as they were left.\<close>

inductive writer_ApplyConfig ::
  "('c \<Rightarrow> 'e + 'h) \<Rightarrow> LabelSet \<Rightarrow> 'c RemoteWriteConfig list \<Rightarrow> 'h Writer \<Rightarrow>
   panic + 'h Writer \<times> 'e option \<times> 'h QueueManager list \<Rightarrow> bool"
  for newHTTP externalLabels confs where
  invalid: "writer_queues newHTTP externalLabels 0 [] confs = Inr (Inl err) \<Longrightarrow>
    writer_ApplyConfig newHTTP externalLabels confs w (Inr (w, Some err, []))"
| new_panic: "writer_queues newHTTP externalLabels 0 [] confs = Inl p \<Longrightarrow>
    writer_ApplyConfig newHTTP externalLabels confs w (Inl p)"
| stop_panic: "\<lbrakk>writer_queues newHTTP externalLabels 0 [] confs = Inr (Inr qs); queues_stop (w_queues w) (Inl p)\<rbrakk> \<Longrightarrow>
    writer_ApplyConfig newHTTP externalLabels confs w (Inl p)"
| applied: "\<lbrakk>writer_queues newHTTP externalLabels 0 [] confs = Inr (Inr qs); queues_stop (w_queues w) (Inr old)\<rbrakk> \<Longrightarrow>
    writer_ApplyConfig newHTTP externalLabels confs w (Inr (w\<lparr>w_queues := map q_Start qs\<rparr>, None, old))"

text \<open>\<open>Writer.Stop\<close> leaves the list of queues in place.\<close>

inductive writer_Stop :: "'h Writer \<Rightarrow> panic + 'h Writer \<Rightarrow> bool" where
  finished: "queues_stop (w_queues w) (Inr qs) \<Longrightarrow> writer_Stop w (Inr (w\<lparr>w_queues := qs\<rparr>))"
| panic: "queues_stop (w_queues w) (Inl p) \<Longrightarrow> writer_Stop w (Inl p)"

fun queues_Append ::
  "(RelabelConfig list \<Rightarrow> LabelSet \<Rightarrow> LabelSet option) \<Rightarrow> Sample \<Rightarrow> 'h QueueManager list \<Rightarrow> panic + 'h QueueManager list" where
  "queues_Append process s [] = Inr []"
| "queues_Append process s (q # qs) = (case q_Append process s q of
       Inl p \<Rightarrow> Inl p
     | Inr q' \<Rightarrow> (case queues_Append process s qs of Inl p \<Rightarrow> Inl p | Inr qs' \<Rightarrow> Inr (q' # qs')))"

text \<open>\<open>Append\<close> never returns an error.\<close>

definition writer_Append ::
  "(RelabelConfig list \<Rightarrow> LabelSet \<Rightarrow> LabelSet option) \<Rightarrow> Sample \<Rightarrow> 'h Writer \<Rightarrow> panic + 'h Writer" where
  "writer_Append process s w = (case queues_Append process s (w_queues w) of
       Inl p \<Rightarrow> Inl p | Inr qs \<Rightarrow> Inr (w\<lparr>w_queues := qs\<rparr>))"

definition writer_NeedsThrottling :: "'h Writer \<Rightarrow> bool" where
  "writer_NeedsThrottling w = False"

section \<open>The writer as an appender\<close>

text \<open>A panic of an append ends the process, so there is no append after it. \<open>cmd/main.go\<close> puts the writer, alone, behind a
  fan-out.\<close>

definition writer_appender ::
  "(RelabelConfig list \<Rightarrow> LabelSet \<Rightarrow> LabelSet option) \<Rightarrow> (panic + 'h Writer, string) SampleAppender" where
  "writer_appender process = \<lparr>sa_Append = (\<lambda>s st. (None, case st of Inl p \<Rightarrow> Inl p | Inr w \<Rightarrow> writer_Append process s w)),
     sa_NeedsThrottling = (\<lambda>st. case st of Inl p \<Rightarrow> False | Inr w \<Rightarrow> writer_NeedsThrottling w)\<rparr>"

definition main_appender ::
  "(RelabelConfig list \<Rightarrow> LabelSet \<Rightarrow> LabelSet option) \<Rightarrow> (panic + 'h Writer, string) SampleAppender" where
  "main_appender process = fanout_appender [writer_appender process]"

interpretation writer_app: tolerant_appender "writer_appender process" for process
  by unfold_locales (auto simp: writer_appender_def writer_NeedsThrottling_def split: sum.split)

interpretation main_app: tolerant_fanout "[writer_appender process]" for process
  by unfold_locales (auto simp: writer_appender_def writer_NeedsThrottling_def split: sum.split)

text \<open>What the rest of the process appends reaches the queues of the writer, with no error and no throttling.\<close>

lemma main_appender_eq:
  "sa_Append (main_appender process) s (Inr w) = (None, writer_Append process s w) \<and>
   \<not> sa_NeedsThrottling (main_appender process) st"
proof
  show "sa_Append (main_appender process) s (Inr w) = (None, writer_Append process s w)"
    by (simp add: main_appender_def fanout_appender_def fanout_Append_def writer_appender_def)
  show "\<not> sa_NeedsThrottling (main_appender process) st"
    unfolding main_appender_def by (rule main_app.fan.no_throttling)
qed

section \<open>Lemmas\<close>

text \<open>A queue manager between its start and its stop.\<close>

definition q_ok :: "'h QueueManager \<Rightarrow> bool" where
  "q_ok q \<longleftrightarrow> q_cfg q = defaultQueueManagerConfig \<and>
     (qm_step defaultQueueManagerConfig)\<^sup>*\<^sup>* qm_start (q_state q)"

lemma new_queue:
  "NewQueueManager defaultQueueManagerConfig ext relabelConfigs c = Inr
     \<lparr>q_cfg = defaultQueueManagerConfig, q_externalLabels = ext, q_relabelConfigs = relabelConfigs, q_client = c,
      q_queueName = client_Name c, q_quit = False,
      q_state = \<lparr>qm_shards = [new_shard], qm_old = None, qm_stopping = False, qm_sent = [], qm_accepted = [], qm_dropped = []\<rparr>\<rparr>"
  by (simp add: NewQueueManager_def newShards_def defaultQueueManagerConfig_def)

lemma default_cfg_pos: "0 < MaxSamplesPerSend defaultQueueManagerConfig"
  by (simp add: defaultQueueManagerConfig_def)

lemma q_ok_inv: "q_ok q \<Longrightarrow> qm_inv (q_state q)"
  unfolding q_ok_def using qm_reachable_inv default_cfg_pos by blast

text \<open>The queue that a configuration of an endpoint sets up.\<close>

definition endpoint_queue ::
  "('c \<Rightarrow> 'e + 'h) \<Rightarrow> LabelSet \<Rightarrow> nat \<Rightarrow> 'c RemoteWriteConfig \<Rightarrow> 'h QueueManager \<Rightarrow> bool" where
  "endpoint_queue newHTTP ext i rw q \<longleftrightarrow>
     (\<exists>h. newHTTP (rw_HTTPClientConfig rw) = Inr h \<and>
        q_client q = \<lparr>c_index = int i, c_url = rw_URL rw, c_client = h, c_timeout = rw_RemoteTimeout rw\<rparr>) \<and>
     q_cfg q = defaultQueueManagerConfig \<and> q_externalLabels q = ext \<and> q_relabelConfigs q = rw_WriteRelabelConfigs rw \<and>
     \<not> q_quit q"

lemma writer_queues_spec:
  "case writer_queues newHTTP ext (int i) acc rws of
     Inl p \<Rightarrow> False
   | Inr (Inl err) \<Rightarrow> \<exists>rw \<in> set rws. newHTTP (rw_HTTPClientConfig rw) = Inl err
   | Inr (Inr qs) \<Rightarrow> \<exists>new. qs = acc @ new \<and> length new = length rws \<and>
       (\<forall>j < length rws. endpoint_queue newHTTP ext (i + j) (rws ! j) (new ! j) \<and> q_state (q_Start (new ! j)) = qm_start)"
proof (induction rws arbitrary: i acc)
  case (Cons rw rws)
  show ?case
  proof (cases "newHTTP (rw_HTTPClientConfig rw)")
    case (Inl err)
    then show ?thesis
      by (simp add: NewClient_def)
  next
    case (Inr h)
    define c where "c = \<lparr>c_index = int i, c_url = rw_URL rw, c_client = h, c_timeout = rw_RemoteTimeout rw\<rparr>"
    obtain q where q: "NewQueueManager defaultQueueManagerConfig ext (rw_WriteRelabelConfigs rw) c = Inr q"
        "endpoint_queue newHTTP ext i rw q" "q_state (q_Start q) = qm_start"
      using Inr by (simp add: new_queue endpoint_queue_def q_Start_def qm_start_def c_def)
    have step: "writer_queues newHTTP ext (int i) acc (rw # rws) = writer_queues newHTTP ext (int (Suc i)) (acc @ [q]) rws"
      using q(1) Inr by (simp add: NewClient_def c_def add.commute)
    have new: "endpoint_queue newHTTP ext (i + j) ((rw # rws) ! j) ((q # new) ! j) \<and> q_state (q_Start ((q # new) ! j)) = qm_start"
      if "\<forall>j < length rws. endpoint_queue newHTTP ext (Suc i + j) (rws ! j) (new ! j) \<and> q_state (q_Start (new ! j)) = qm_start"
        "j < length (rw # rws)" for j new
      using that q by (cases j) auto
    note IH = Cons.IH [of "acc @ [q]" "Suc i"]
    consider p where "writer_queues newHTTP ext (int (Suc i)) (acc @ [q]) rws = Inl p"
      | err where "writer_queues newHTTP ext (int (Suc i)) (acc @ [q]) rws = Inr (Inl err)"
      | qs where "writer_queues newHTTP ext (int (Suc i)) (acc @ [q]) rws = Inr (Inr qs)"
      by (metis obj_sumE)
    then show ?thesis
    proof cases
      case (3 qs)
      then obtain new' where n: "qs = acc @ q # new'" "length new' = length rws"
          "\<forall>j < length rws. endpoint_queue newHTTP ext (Suc i + j) (rws ! j) (new' ! j) \<and> q_state (q_Start (new' ! j)) = qm_start"
        using IH by auto
      have "\<forall>j < length (rw # rws). endpoint_queue newHTTP ext (i + j) ((rw # rws) ! j) ((q # new') ! j) \<and>
          q_state (q_Start ((q # new') ! j)) = qm_start"
        using new [OF n(3)] by blast
      then show ?thesis
        unfolding step 3 using n(1,2) by (auto intro!: exI [of _ "q # new'"])
    qed (use IH in \<open>auto simp only: step sum.case list.set insert_iff\<close>)
  qed
qed simp

lemma writer_ApplyConfig_outcome:
  assumes "writer_ApplyConfig newHTTP ext confs w (Inr (w', err, old))"
  shows "(err \<noteq> None \<longleftrightarrow> (\<exists>rw \<in> set confs. \<exists>e. newHTTP (rw_HTTPClientConfig rw) = Inl e)) \<and>
    (err \<noteq> None \<longrightarrow> w' = w) \<and> (err = None \<longrightarrow> length (w_queues w') = length confs)"
proof -
  note spec = writer_queues_spec [where newHTTP = newHTTP and ext = ext and i = 0 and acc = "[]" and rws = confs]
  from assms show ?thesis
  proof (cases rule: writer_ApplyConfig.cases)
    case (applied qs)
    then have q: "length qs = length confs" "\<forall>j < length confs. endpoint_queue newHTTP ext j (confs ! j) (qs ! j)"
      using spec by auto
    have "\<exists>h. newHTTP (rw_HTTPClientConfig rw) = Inr h" if "rw \<in> set confs" for rw
      using that q(2) by (auto simp: in_set_conv_nth endpoint_queue_def)
    then show ?thesis
      using applied q(1) by fastforce
  qed (use spec in auto)
qed

section \<open>Runs of the writer\<close>

text \<open>The states of a writer that is not stopped, with the samples appended since its last configuration: appends,
  the work of its queues (sending and resharding), and configurations, in any order.\<close>

inductive writer_reach ::
  "(RelabelConfig list \<Rightarrow> LabelSet \<Rightarrow> LabelSet option) \<Rightarrow> ('c \<Rightarrow> 'e + 'h) \<Rightarrow> 'h Writer \<Rightarrow> Sample list \<Rightarrow> bool"
  for process newHTTP where
  start: "writer_reach process newHTTP \<lparr>w_queues = []\<rparr> []"
| append: "\<lbrakk>writer_reach process newHTTP w hist; writer_Append process s w = Inr w'\<rbrakk> \<Longrightarrow>
    writer_reach process newHTTP w' (hist @ [s])"
| work: "\<lbrakk>writer_reach process newHTTP w hist; i < length (w_queues w); q = w_queues w ! i; qm_step (q_cfg q) (q_state q) m;
    qm_accepted m = qm_accepted (q_state q); qm_dropped m = qm_dropped (q_state q);
    qm_stopping m = qm_stopping (q_state q)\<rbrakk> \<Longrightarrow>
    writer_reach process newHTTP (w\<lparr>w_queues := (w_queues w)[i := q\<lparr>q_state := m\<rparr>]\<rparr>) hist"
| config: "\<lbrakk>writer_reach process newHTTP w hist; writer_ApplyConfig newHTTP ext confs w (Inr (w', None, old))\<rbrakk> \<Longrightarrow>
    writer_reach process newHTTP w' []"
| config_error: "\<lbrakk>writer_reach process newHTTP w hist; writer_ApplyConfig newHTTP ext confs w (Inr (w', Some err, old))\<rbrakk> \<Longrightarrow>
    writer_reach process newHTTP w' hist"

text \<open>The samples a queue was offered: those that its relabelling keeps.\<close>

definition offered ::
  "(RelabelConfig list \<Rightarrow> LabelSet \<Rightarrow> LabelSet option) \<Rightarrow> 'h QueueManager \<Rightarrow> Sample list \<Rightarrow> Sample list" where
  "offered process q hist = List.map_filter (append_sample (process (q_relabelConfigs q)) (q_externalLabels q)) hist"

definition q_serves ::
  "(RelabelConfig list \<Rightarrow> LabelSet \<Rightarrow> LabelSet option) \<Rightarrow> Sample list \<Rightarrow> 'h QueueManager \<Rightarrow> bool" where
  "q_serves process hist q \<longleftrightarrow> q_ok q \<and> \<not> q_quit q \<and> \<not> qm_stopping (q_state q) \<and>
     offered process q hist \<in> shuffles (qm_accepted (q_state q)) (qm_dropped (q_state q))"

lemma shuffles_snoc_left: "xs \<in> shuffles a b \<Longrightarrow> xs @ [x] \<in> shuffles (a @ [x]) b"
proof (induction a b arbitrary: xs rule: shuffles.induct)
  case (1 ys)
  then show ?case
    by (induction ys arbitrary: xs) auto
next
  case (3 a as b bs)
  then show ?case
    by auto
qed auto

lemma shuffles_snoc_right: "xs \<in> shuffles a b \<Longrightarrow> xs @ [x] \<in> shuffles a (b @ [x])"
  using shuffles_snoc_left [of xs b a x] by (simp add: shuffles_commutes)

lemma q_Append_serves:
  assumes "q_serves process hist q" "q_Append process s q = Inr q'"
  shows "q_serves process (hist @ [s]) q'"
proof (cases "append_sample (process (q_relabelConfigs q)) (q_externalLabels q) s")
  case None
  then have "q' = q"
    using assms(2) by (simp add: q_Append_def)
  then show ?thesis
    using assms(1) None by (simp add: q_serves_def offered_def map_filter_def)
next
  case (Some x)
  obtain ss b where e: "enqueue (q_cfg q) (qm_shards (q_state q)) x = Inr (ss, b)"
    using assms(2) Some by (auto simp: q_Append_def split: sum.splits)
  have q: "q_cfg q = defaultQueueManagerConfig" "(qm_step (q_cfg q))\<^sup>*\<^sup>* qm_start (q_state q)" "\<not> qm_stopping (q_state q)"
    using assms(1) by (simp_all add: q_serves_def q_ok_def)
  have o: "offered process q (hist @ [s]) = offered process q hist @ [x]"
    using Some by (simp add: offered_def map_filter_def)
  show ?thesis
  proof (cases b)
    case True
    then have q': "q' = q\<lparr>q_state := (q_state q)\<lparr>qm_shards := ss, qm_accepted := qm_accepted (q_state q) @ [x]\<rparr>\<rparr>"
      using assms(2) Some e by (simp add: q_Append_def)
    then have "qm_step (q_cfg q) (q_state q) (q_state q')"
      using qm_step.accept [OF q(3)] e True by simp
    then show ?thesis
      using assms(1) q(1,2) q' o shuffles_snoc_left
      by (auto simp: q_serves_def q_ok_def offered_def intro: rtranclp.rtrancl_into_rtrancl)
  next
    case False
    then have q': "q' = q\<lparr>q_state := (q_state q)\<lparr>qm_shards := ss, qm_dropped := qm_dropped (q_state q) @ [x]\<rparr>\<rparr>"
      using assms(2) Some e by (simp add: q_Append_def)
    then have "qm_step (q_cfg q) (q_state q) (q_state q')"
      using qm_step.drop [OF q(3)] e False by simp
    then show ?thesis
      using assms(1) q(1,2) q' o shuffles_snoc_right
      by (auto simp: q_serves_def q_ok_def offered_def intro: rtranclp.rtrancl_into_rtrancl)
  qed
qed

lemma queues_Append_serves:
  "queues_Append process s qs = Inr qs' \<Longrightarrow> list_all (q_serves process hist) qs \<Longrightarrow> list_all (q_serves process (hist @ [s])) qs'"
proof (induction qs arbitrary: qs')
  case (Cons q qs)
  then obtain q' qs2 where "q_Append process s q = Inr q'" "queues_Append process s qs = Inr qs2" "qs' = q' # qs2"
    by (auto split: sum.splits)
  then show ?case
    using Cons q_Append_serves by auto
qed simp

text \<open>Stopping queues that were not stopped before.\<close>

lemma q_Stop_flushes:
  assumes "q_Stop q (Inr q')" "q_ok q"
  shows "of_series fp (concat (qm_sent (q_state q'))) = of_series fp (qm_accepted (q_state q)) \<and> q_quit q' \<and> q_ok q' \<and>
    list_all (\<lambda>s. sh_status s = Returned) (qm_shards (q_state q')) \<and> qm_stopping (q_state q') \<and>
    q_relabelConfigs q' = q_relabelConfigs q \<and> q_externalLabels q' = q_externalLabels q"
  using assms(1)
proof (cases rule: q_Stop.cases)
  case (stops m)
  then have ok: "q_ok q'"
    using assms(2) by (auto simp: q_ok_def intro: rtranclp_trans)
  have "of_series fp (concat (qm_sent (q_state q'))) = of_series fp (qm_accepted (q_state q'))"
    using stops by (intro qm_flushed q_ok_inv [OF ok]) simp_all
  then show ?thesis
    using stops ok by simp
qed

lemma queues_stop_flushes:
  "queues_stop qs r \<Longrightarrow> list_all q_ok qs \<Longrightarrow> list_all (\<lambda>q. \<not> q_quit q) qs \<Longrightarrow>
     \<exists>old. r = Inr old \<and> list_all2 (\<lambda>q q'. q_ok q' \<and> q_quit q' \<and>
       (\<forall>fp. of_series fp (concat (qm_sent (q_state q'))) = of_series fp (qm_accepted (q_state q)))) qs old"
proof (induction rule: queues_stop.induct)
  case (panic q p qs)
  then show ?case
    by (auto elim: q_Stop.cases)
qed (use q_Stop_flushes in \<open>fastforce+\<close>)

lemma serves_start:
  assumes "endpoint_queue newHTTP ext i rw q" "q_state (q_Start q) = qm_start"
  shows "q_serves process [] (q_Start q)"
  using assms by (simp add: q_serves_def q_ok_def endpoint_queue_def q_Start_def qm_start_def offered_def map_filter_def)

lemma writer_reach_inv: "writer_reach process newHTTP w hist \<Longrightarrow> list_all (q_serves process hist) (w_queues w)"
proof (induction rule: writer_reach.induct)
  case (append w hist s w')
  then show ?case
    using queues_Append_serves by (auto simp: writer_Append_def split: sum.splits)
next
  case (work w hist i q m)
  then have "q_serves process hist q"
    by (simp add: list_all_length)
  then have "q_serves process hist (q\<lparr>q_state := m\<rparr>)"
    using work by (auto simp: q_serves_def q_ok_def offered_def intro: rtranclp.rtrancl_into_rtrancl)
  then show ?case
    using work by (simp add: list_all_update)
next
  case (config w hist ext confs w' old)
  from config(2) show ?case
  proof (cases rule: writer_ApplyConfig.cases)
    case (applied qs)
    then obtain "length qs = length confs"
        "\<forall>j < length confs. endpoint_queue newHTTP ext j (confs ! j) (qs ! j) \<and> q_state (q_Start (qs ! j)) = qm_start"
      using writer_queues_spec [where newHTTP = newHTTP and ext = ext and i = 0 and acc = "[]" and rws = confs] by simp
    then show ?thesis
      using applied serves_start by (fastforce simp: list_all_length)
  qed
next
  case (config_error w hist ext confs w' err old)
  then show ?case
    by (auto elim: writer_ApplyConfig.cases)
qed simp



text \<open>After \<open>Writer.Stop\<close> the writer still has its stopped queues: the next append panics unless relabelling drops
  the sample, and so do a second \<open>Stop\<close> and any change of the configuration that is not refused.\<close>

theorem writer_after_stop:
  assumes "writer_reach process newHTTP w hist" "writer_Stop w (Inr w')" "w_queues w = q # qs"
  shows "(writer_Stop w' r \<longrightarrow> r = Inl CloseOfClosedChannel) \<and>
    (writer_ApplyConfig newHTTP ext confs w' r' \<longrightarrow> r' = Inl CloseOfClosedChannel \<or> (\<exists>err. r' = Inr (w', Some err, []))) \<and>
    (append_sample (process (q_relabelConfigs q)) (q_externalLabels q) s \<noteq> None \<longrightarrow>
       writer_Append process s w' \<in> {Inl SendOnClosedChannel, Inl DivideByZero})"
proof -
  note spec = writer_queues_spec [where newHTTP = newHTTP and ext = ext and i = 0 and acc = "[]" and rws = confs]
  have ok: "q_ok q" "\<not> q_quit q"
    using writer_reach_inv [OF assms(1)] assms(3) by (auto simp: list_all_iff q_serves_def)
  obtain q' qs' where w': "w' = w\<lparr>w_queues := q' # qs'\<rparr>" "q_Stop q (Inr q')"
    using assms(2,3) by (auto elim!: writer_Stop.cases queues_stop_ConsE)
  note f = q_Stop_flushes [OF w'(2) ok(1)]
  have stop: "queues_stop (q' # qs') r \<Longrightarrow> r = Inl CloseOfClosedChannel" for r
    using f by (auto elim!: queues_stop_ConsE elim: q_Stop.cases)
  have closed: "list_all sh_closed (qm_shards (q_state q'))"
    using f qm_invD(1) [OF q_ok_inv [of q']]
    by (auto simp: list_all_length shards_ok_def shard_ok_def)
  have idx: "shard_index (length (qm_shards (q_state q'))) fp < length (qm_shards (q_state q'))"
    if "qm_shards (q_state q') \<noteq> []" for fp
    using f that qm_invD(1) [OF q_ok_inv [of q']] by (intro shard_index_less) (auto simp: shards_ok_def)
  have e: "enqueue (q_cfg q') (qm_shards (q_state q')) x = Inl SendOnClosedChannel \<or>
      enqueue (q_cfg q') (qm_shards (q_state q')) x = Inl DivideByZero" for x
    using closed idx by (auto simp: enqueue_def Let_def list_all_length)
  have "writer_Append process s w' \<in> {Inl SendOnClosedChannel, Inl DivideByZero}"
    if dropped: "append_sample (process (q_relabelConfigs q)) (q_externalLabels q) s \<noteq> None"
  proof -
    obtain x where "append_sample (process (q_relabelConfigs q')) (q_externalLabels q') s = Some x"
      using dropped f by auto
    then have "q_Append process s q' = Inl SendOnClosedChannel \<or> q_Append process s q' = Inl DivideByZero"
      using e [of x] by (auto simp: q_Append_def)
    then show ?thesis
      using w'(1) by (auto simp: writer_Append_def)
  qed
  moreover have "writer_Stop w' r \<Longrightarrow> r = Inl CloseOfClosedChannel"
    using w'(1) stop by (fastforce elim: writer_Stop.cases)
  moreover have "writer_ApplyConfig newHTTP ext confs w' r' \<Longrightarrow> r' = Inl CloseOfClosedChannel \<or> (\<exists>err. r' = Inr (w', Some err, []))"
    using w'(1) stop spec by (fastforce elim!: writer_ApplyConfig.cases)
  ultimately show ?thesis
    by blast
qed

section \<open>A run\<close>

definition ex_endpoint :: "unit RemoteWriteConfig" where
  "ex_endpoint = \<lparr>rw_URL = c_url ex_client, rw_RemoteTimeout = 1000, rw_HTTPClientConfig = (), rw_WriteRelabelConfigs = []\<rparr>"

definition ex_http :: "unit \<Rightarrow> string + unit" where
  "ex_http cfg = Inr ()"

definition ex_queue :: "qmanager \<Rightarrow> bool \<Rightarrow> unit QueueManager" where
  "ex_queue m quit = \<lparr>q_cfg = defaultQueueManagerConfig, q_externalLabels = [], q_relabelConfigs = [],
     q_client = \<lparr>c_index = 0, c_url = c_url ex_client, c_client = (), c_timeout = 1000\<rparr>,
     q_queueName = client_Name \<lparr>c_index = 0, c_url = c_url ex_client, c_client = (), c_timeout = 1000\<rparr>,
     q_quit = quit, q_state = m\<rparr>"

definition ex_writer :: "qmanager \<Rightarrow> bool \<Rightarrow> unit Writer" where
  "ex_writer m quit = \<lparr>w_queues = [ex_queue m quit]\<rparr>"

lemma ex_writer_config:
  "writer_ApplyConfig ex_http [] [ex_endpoint] \<lparr>w_queues = []\<rparr> (Inr (ex_writer qm_start False, None, []))"
  using writer_ApplyConfig.applied [of ex_http "[]" "[ex_endpoint]" "[(ex_queue qm_start False)\<lparr>q_state := qm_start\<lparr>qm_shards := [new_shard]\<rparr>\<rparr>]"
      "\<lparr>w_queues = []\<rparr>" "[]"]
  by (simp add: ex_endpoint_def ex_http_def NewClient_def new_queue ex_queue_def qm_start_def q_Start_def ex_writer_def queues_stop.none)

lemma ex_writer_reach: "writer_reach (relabel_Process (\<lambda>_. [])) ex_http (ex_writer qm_start False) []"
  using writer_reach.config [OF writer_reach.start ex_writer_config] .

definition ex_appended :: qmanager where
  "ex_appended = qm_start\<lparr>qm_shards := [ex_shard [ex_sample 1] False Started], qm_accepted := [ex_sample 1]\<rparr>"

lemma ex_writer_append:
  "writer_Append (relabel_Process (\<lambda>_. [])) (ex_sample 1) (ex_writer qm_start False) = Inr (ex_writer ex_appended False)"
proof -
  have a: "append_sample (relabel_Process (\<lambda>_. []) []) [] (ex_sample 1) = Some (ex_sample 1)"
    by (simp add: append_sample_def ex_sample_def labelset_Clone_def)
  show ?thesis
    by (simp add: writer_Append_def ex_writer_def q_Append_def ex_queue_def a enqueue_def qm_start_def shards_start_def
        new_shard_def defaultQueueManagerConfig_def ex_appended_def ex_shard_def)
qed


definition ex_stopped :: qmanager where
  "ex_stopped = qm_start\<lparr>qm_shards := [ex_shard [] True Returned], qm_stopping := True\<rparr>"

lemma ex_writer_stop: "writer_Stop (ex_writer qm_start False) (Inr (ex_writer ex_stopped True))"
proof -
  let ?cfg = defaultQueueManagerConfig
  let ?m = "\<lambda>c st. qm_start\<lparr>qm_shards := [ex_shard [] c st], qm_stopping := True\<rparr>"
  have 1: "qm_step ?cfg qm_start (?m False Started)"
    using qm_step.stop_begin [of qm_start ?cfg] by (simp add: qm_start_def shards_start_def new_shard_def ex_shard_def)
  have 2: "qm_step ?cfg (?m False Started) (?m True Started)"
    using qm_step.stop_close [of "?m False Started" 0 ?cfg] by (simp add: ex_shard_def qm_start_def)
  have "shard_step ?cfg (ex_shard [] True Started) (ex_shard [] True Returned) []"
    by (rule shard_step.finish) (simp_all add: ex_shard_def shard_finish_def flush_def)
  then have 3: "qm_step ?cfg (?m True Started) ex_stopped"
    using qm_step.work [of 0 "?m True Started" ?cfg "ex_shard [] True Returned" "[]"]
    by (simp add: ex_stopped_def qm_start_def)
  have "(qm_step ?cfg)\<^sup>*\<^sup>* qm_start ex_stopped"
    using 1 2 3 by (meson converse_rtranclp_into_rtranclp rtranclp.rtrancl_refl)
  then have "q_Stop (ex_queue qm_start False) (Inr (ex_queue ex_stopped True))"
    using q_Stop.stops [of "ex_queue qm_start False" ex_stopped]
    by (simp add: ex_queue_def ex_stopped_def ex_shard_def qm_start_def)
  then show ?thesis
    using writer_Stop.finished [of "ex_writer qm_start False" "[ex_queue ex_stopped True]"]
    by (simp add: ex_writer_def queues_stop.cons queues_stop.none)
qed


theorem writer_after_stop_witness:
  "writer_Append (relabel_Process (\<lambda>_. [])) (ex_sample 1) (ex_writer ex_stopped True) \<in> {Inl SendOnClosedChannel, Inl DivideByZero}"
proof -
  have "append_sample (relabel_Process (\<lambda>_. []) (q_relabelConfigs (ex_queue qm_start False)))
      (q_externalLabels (ex_queue qm_start False)) (ex_sample 1) \<noteq> None"
    by (simp add: append_sample_def ex_queue_def)
  then show ?thesis
    using writer_after_stop [OF ex_writer_reach ex_writer_stop, of "ex_queue qm_start False" "[]"]
    by (simp add: ex_writer_def)
qed

end
