(* ===== verification/Main_Proc.thy ===== *)
theory Main_Proc
  imports Web_Handler Writer Remote_Read
begin

text \<open>
  The process (\<open>src/cmd/main.go\<close>): its components, the loading of a configuration into all of them, the start and
  the events that it reacts to. The components are those of the theories Writer, Remote_Read, Target_Manager and
  Web_Handler; reading and checking a configuration file is a parameter, and so are the creation of HTTP clients
  and which of the goroutines of a stopped target manager still receive.

  The contract of a component that can be reloaded is the locale \<open>reloadable\<close>: when it refuses a configuration it
  stays as it was.
\<close>

section \<open>Reloadable components\<close>

text \<open>The loop of \<open>reloadConfig\<close> over components that change by \<open>apply\<close>; \<open>failed\<close> is the flag of the loop.\<close>

inductive reload_loop :: "('s \<Rightarrow> 's \<Rightarrow> 'e option \<Rightarrow> bool) \<Rightarrow> bool \<Rightarrow> 's list \<Rightarrow> 's list \<Rightarrow> bool \<Rightarrow> bool" for app where
  nil: "reload_loop app failed [] [] failed"
| cons: "\<lbrakk>app c c' err; reload_loop app (failed \<or> err \<noteq> None) cs cs' failed'\<rbrakk> \<Longrightarrow>
    reload_loop app failed (c # cs) (c' # cs') failed'"

inductive_cases reload_loop_NilE: "reload_loop app failed [] cs' failed'"
inductive_cases reload_loop_ConsE: "reload_loop app failed (c # cs) cs' failed'"

locale reloadable =
  fixes app :: "'s \<Rightarrow> 's \<Rightarrow> 'e option \<Rightarrow> bool"
  assumes error_keeps: "app c c' (Some e) \<Longrightarrow> c' = c"
begin

text \<open>Every component takes the configuration or stays as it was, and the flag tells whether one refused it.\<close>

lemma loop_outcome:
  "reload_loop app failed cs cs' failed' \<Longrightarrow>
     \<exists>errs. length errs = length cs \<and> length cs' = length cs \<and>
       (\<forall>i < length cs. app (cs ! i) (cs' ! i) (errs ! i) \<and> (errs ! i \<noteq> None \<longrightarrow> cs' ! i = cs ! i)) \<and>
       (failed' \<longleftrightarrow> failed \<or> list_ex (\<lambda>e. e \<noteq> None) errs)"
proof (induction rule: reload_loop.induct)
  case (nil failed)
  show ?case
    by simp
next
  case (cons c c' err failed cs cs' failed')
  then obtain errs where e: "length errs = length cs" "length cs' = length cs"
      "\<forall>i < length cs. app (cs ! i) (cs' ! i) (errs ! i) \<and> (errs ! i \<noteq> None \<longrightarrow> cs' ! i = cs ! i)"
      "failed' \<longleftrightarrow> (failed \<or> err \<noteq> None) \<or> list_ex (\<lambda>e. e \<noteq> None) errs"
    by blast
  have "app ((c # cs) ! i) ((c' # cs') ! i) ((err # errs) ! i) \<and> ((err # errs) ! i \<noteq> None \<longrightarrow> (c' # cs') ! i = (c # cs) ! i)"
    if "i < length (c # cs)" for i
    using that e(3) cons(1) error_keeps by (cases i) auto
  then show ?case
    using e by (intro exI [of _ "err # errs"]) auto
qed

lemma loop_all_refuse:
  "reload_loop app failed cs cs' failed' \<Longrightarrow> (\<And>c c' err. c \<in> set cs \<Longrightarrow> app c c' err \<Longrightarrow> err \<noteq> None) \<Longrightarrow> cs' = cs"
proof (induction rule: reload_loop.induct)
  case (cons c c' err failed cs cs' failed')
  then show ?case
    using error_keeps by (cases err) auto
qed simp

end

section \<open>The components\<close>

record 'c Config =
  cfg_ScrapeConfigs :: "ScrapeConfig list"
  cfg_RemoteWriteConfigs :: "'c RemoteWriteConfig list"
  cfg_RemoteReadConfigs :: "'c RemoteReadConfig list"
  cfg_ExternalLabels :: LabelSet
  cfg_String :: string

record ('c, 'h, 'k) main_env =
  me_newHTTP :: "'c \<Rightarrow> string + 'h"
  me_new_client :: "ScrapeConfig \<Rightarrow> string + 'k"
  me_accepts :: "string \<Rightarrow> bool"
  me_LoadFile :: "string \<Rightarrow> string + 'c Config"
  me_process :: relabeller
  me_render :: "target_url \<Rightarrow> string"
  me_quote :: "string \<Rightarrow> string"

datatype ('h, 'k) component =
  CWriter "'h Writer" | CReader "'h Reader" | CTargets "'k TargetManager" | CWeb Handler

inductive comp_apply ::
  "('c, 'h, 'k) main_env \<Rightarrow> 'c Config \<Rightarrow> ('h, 'k) component \<Rightarrow> ('h, 'k) component \<Rightarrow> string option \<Rightarrow> bool"
  for env conf where
  writer: "writer_ApplyConfig (me_newHTTP env) (cfg_ExternalLabels conf) (cfg_RemoteWriteConfigs conf) w (Inr (w', err, old)) \<Longrightarrow>
    comp_apply env conf (CWriter w) (CWriter w') err"
| reader: "reader_ApplyConfig (me_newHTTP env) (cfg_RemoteReadConfigs conf) (cfg_ExternalLabels conf) r = (r', err) \<Longrightarrow>
    comp_apply env conf (CReader r) (CReader r') err"
| targets: "tm_ApplyConfig (me_new_client env) (me_accepts env) (cfg_ScrapeConfigs conf) tm = Some tm' \<Longrightarrow>
    comp_apply env conf (CTargets tm) (CTargets tm') None"
| web: "comp_apply env conf (CWeb h) (CWeb (web_ApplyConfig (cfg_ExternalLabels conf) (cfg_String conf) h)) None"

inductive_cases comp_apply_WriterE: "comp_apply env conf (CWriter w) c err"
inductive_cases comp_apply_ReaderE: "comp_apply env conf (CReader r) c err"
inductive_cases comp_apply_TargetsE: "comp_apply env conf (CTargets tm) c err"
inductive_cases comp_apply_WebE: "comp_apply env conf (CWeb h) c err"

interpretation rl: reloadable "comp_apply env conf" for env conf
proof
  show "c' = c" if "comp_apply env conf c c' (Some e)" for c c' e
    using that by (cases rule: comp_apply.cases)
      (auto simp: reader_ApplyConfig_def elim: writer_ApplyConfig.cases split: sum.splits)
qed

section \<open>Loading a configuration\<close>

inductive reloadConfig ::
  "('c, 'h, 'k) main_env \<Rightarrow> string \<Rightarrow> ('h, 'k) component list \<Rightarrow> ('h, 'k) component list \<Rightarrow> string option \<Rightarrow> bool"
  for env filename where
  load_error: "me_LoadFile env filename = Inl err \<Longrightarrow>
    reloadConfig env filename rls rls (Some (''couldn't load configuration (-config.file='' @ filename @ ''): '' @ err))"
| failed: "\<lbrakk>me_LoadFile env filename = Inr conf; reload_loop (comp_apply env conf) False rls rls' True\<rbrakk> \<Longrightarrow>
    reloadConfig env filename rls rls' (Some (''one or more errors occurred while applying the new configuration (-config.file='' @ filename @ '')''))"
| loaded: "\<lbrakk>me_LoadFile env filename = Inr conf; reload_loop (comp_apply env conf) False rls rls' False\<rbrakk> \<Longrightarrow>
    reloadConfig env filename rls rls' None"

section \<open>The process\<close>

record ('h, 'k) proc =
  pr_configFile :: string
  pr_comps :: "('h, 'k) component list"

text \<open>The options of the web handler; those that no flag sets keep their zero value.\<close>

definition web_options :: "cmd_cfg \<Rightarrow> web_Options" where
  "web_options cfg = \<lparr>wo_RoutePrefix = cf_RoutePrefix cfg, wo_ExternalPath = cf_ExternalPath cfg, wo_EnableQuit = False,
     wo_ListenAddress = cf_ListenAddress cfg, wo_ReadTimeout = 0, wo_MaxConnections = cf_MaxConnections cfg\<rparr>"

definition main_comps :: "(string \<Rightarrow> string \<Rightarrow> string) \<Rightarrow> cmd_cfg \<Rightarrow> ('h, 'k) component list" where
  "main_comps path_Join cfg = [CWriter \<lparr>w_queues = []\<rparr>, CReader \<lparr>rd_clients = [], rd_externalLabels = []\<rparr>,
     CTargets NewTargetManager, CWeb (web_New path_Join (web_options cfg))]"

datatype ('h, 'k) main_outcome = Exits int | Runs "('h, 'k) proc"

text \<open>The beginning of \<open>Main\<close>: exit codes 2 for the command line, 0 for \<open>-version\<close>, 1 for the configuration.\<close>

inductive main_start ::
  "('c, 'h, 'k) main_env \<Rightarrow> (string \<Rightarrow> string \<Rightarrow> string) \<Rightarrow> string + cmd_cfg \<Rightarrow> bool \<Rightarrow> ('h, 'k) main_outcome \<Rightarrow> bool"
  for env path_Join where
  usage: "main_start env path_Join (Inl err) v (Exits 2)"
| version: "main_start env path_Join (Inr cfg) True (Exits 0)"
| config: "reloadConfig env (cf_configFile cfg) (main_comps path_Join cfg) comps (Some err) \<Longrightarrow>
    main_start env path_Join (Inr cfg) False (Exits 1)"
| running: "reloadConfig env (cf_configFile cfg) (main_comps path_Join cfg) comps None \<Longrightarrow>
    main_start env path_Join (Inr cfg) False (Runs \<lparr>pr_configFile = cf_configFile cfg, pr_comps = comps\<rparr>)"

definition hup_file :: string where
  "hup_file = ''./prometheus.yml''"

text \<open>The steps of the process until it exits: a hang-up signal, the start of the target manager's goroutine, a request to
  reload, and the work of the components themselves. Nothing receives from the channel of reload requests.\<close>

inductive comp_step :: "('c, 'h, 'k) main_env \<Rightarrow> ('h, 'k) component \<Rightarrow> ('h, 'k) component \<Rightarrow> bool" for env where
  append: "writer_Append (me_process env) s w = Inr w' \<Longrightarrow> comp_step env (CWriter w) (CWriter w')"
| work: "\<lbrakk>i < length (w_queues w); q = w_queues w ! i; qm_step (q_cfg q) (q_state q) m;
    qm_accepted m = qm_accepted (q_state q); qm_dropped m = qm_dropped (q_state q); qm_stopping m = qm_stopping (q_state q)\<rbrakk> \<Longrightarrow>
    comp_step env (CWriter w) (CWriter (w\<lparr>w_queues := (w_queues w)[i := q\<lparr>q_state := m\<rparr>]\<rparr>))"
| sync: "groups_ok tgs \<Longrightarrow>
    comp_step env (CTargets tm) (CTargets (tm_Sync (me_render env) (me_quote env) (me_process env) name tgs tm))"
| request: "comp_step env (CWeb h) (CWeb (web_reload h))"
| quit: "web_quit h = (t, Inr h') \<Longrightarrow> comp_step env (CWeb h) (CWeb h')"

inductive main_step :: "('c, 'h, 'k) main_env \<Rightarrow> ('h, 'k) proc \<Rightarrow> ('h, 'k) proc \<Rightarrow> bool" for env where
  hup: "reloadConfig env hup_file (pr_comps p) comps err \<Longrightarrow> main_step env p (p\<lparr>pr_comps := comps\<rparr>)"
| run_targets: "\<lbrakk>i < length (pr_comps p); pr_comps p ! i = CTargets tm; tm_Run (me_new_client env) (me_accepts env) tm = Some tm'\<rbrakk> \<Longrightarrow>
    main_step env p (p\<lparr>pr_comps := (pr_comps p)[i := CTargets tm']\<rparr>)"
| component: "\<lbrakk>i < length (pr_comps p); comp_step env (pr_comps p ! i) c\<rbrakk> \<Longrightarrow>
    main_step env p (p\<lparr>pr_comps := (pr_comps p)[i := c]\<rparr>)"

text \<open>The end of \<open>Main\<close> after a signal, a request to quit or an error of the listener: the deferred \<open>Stop\<close> of the target
  manager, which may come before the goroutine of its \<open>Run\<close> has begun. The writer is not stopped.\<close>

fun stop_targets :: "('h, 'k) component list \<Rightarrow> panic + ('h, 'k) component list" where
  "stop_targets [] = Inr []"
| "stop_targets (CTargets tm # cs) = (case tm_Stop tm of Inl p \<Rightarrow> Inl p | Inr tm' \<Rightarrow> Inr (CTargets tm' # cs))"
| "stop_targets (c # cs) = (case stop_targets cs of Inl p \<Rightarrow> Inl p | Inr cs' \<Rightarrow> Inr (c # cs'))"

definition main_exit :: "('h, 'k) proc \<Rightarrow> panic + int \<times> ('h, 'k) component list" where
  "main_exit p = (case stop_targets (pr_comps p) of Inl pn \<Rightarrow> Inl pn | Inr cs \<Rightarrow> Inr (0, cs))"

text \<open>The server of the process never closes a connection that sends nothing: no flag sets its read timeout.\<close>

lemma main_web_server:
  "web_Run Listen Serve (web_New path_Join (web_options cfg)) = (case Listen (cf_ListenAddress cfg) of
     Inl err \<Rightarrow> err
   | Inr l \<Rightarrow> Serve \<lparr>ws_Addr = cf_ListenAddress cfg, ws_Handler = web_routes path_Join (web_options cfg), ws_ReadTimeout = 0\<rparr>
       (l, cf_MaxConnections cfg))"
  by (simp add: web_Run_def web_New_def web_options_def Let_def split: sum.split)

section \<open>Loads of a configuration\<close>

lemma reader_ApplyConfig_outcome:
  assumes "reader_ApplyConfig newHTTP rrs ext r = (r', err)"
  shows "(err \<noteq> None \<longleftrightarrow> (\<exists>rr \<in> set rrs. \<exists>e. newHTTP (rr_HTTPClientConfig rr) = Inl e)) \<and>
    (err \<noteq> None \<longrightarrow> r' = r) \<and> (err = None \<longrightarrow> length (rd_clients r') = length rrs)"
proof (cases "reader_clients newHTTP 0 [] rrs")
  case (Inl e)
  then show ?thesis
    using assms reader_clients_error [of newHTTP 0 "[]" rrs] by (auto simp: reader_ApplyConfig_def)
next
  case (Inr cs)
  then show ?thesis
    using assms reader_clients_error [of newHTTP 0 "[]" rrs] reader_clients_ok [OF Inr]
    by (auto simp: reader_ApplyConfig_def)
qed

text \<open>Some endpoint of a configuration for which no client can be made.\<close>

definition bad_endpoint :: "('c \<Rightarrow> string + 'h) \<Rightarrow> 'c Config \<Rightarrow> bool" where
  "bad_endpoint newHTTP conf \<longleftrightarrow>
     (\<exists>rw \<in> set (cfg_RemoteWriteConfigs conf). \<exists>e. newHTTP (rw_HTTPClientConfig rw) = Inl e) \<or>
     (\<exists>rr \<in> set (cfg_RemoteReadConfigs conf). \<exists>e. newHTTP (rr_HTTPClientConfig rr) = Inl e)"

lemma reload_loop_four:
  assumes "reload_loop (comp_apply env conf) False [CWriter w, CReader r, CTargets t, CWeb h] comps failed"
  obtains w' r' t' ew er old where
    "comps = [CWriter w', CReader r', CTargets t', CWeb (web_ApplyConfig (cfg_ExternalLabels conf) (cfg_String conf) h)]"
    "writer_ApplyConfig (me_newHTTP env) (cfg_ExternalLabels conf) (cfg_RemoteWriteConfigs conf) w (Inr (w', ew, old))"
    "reader_ApplyConfig (me_newHTTP env) (cfg_RemoteReadConfigs conf) (cfg_ExternalLabels conf) r = (r', er)"
    "tm_ApplyConfig (me_new_client env) (me_accepts env) (cfg_ScrapeConfigs conf) t = Some t'"
    "failed \<longleftrightarrow> ew \<noteq> None \<or> er \<noteq> None"
  using assms
  by (elim reload_loop_ConsE reload_loop_NilE comp_apply_WriterE comp_apply_ReaderE comp_apply_TargetsE comp_apply_WebE) auto


section \<open>The end of the process\<close>

text \<open>A process that ends before its target manager runs panics.\<close>

lemma main_exit_early:
  assumes "main_start env path_Join cfg v (Runs p)"
  shows "main_exit p = Inl NilDereference"
  using assms
proof (cases rule: main_start.cases)
  case (running cfg' comps)
  obtain conf where l: "reload_loop (comp_apply env conf) False (main_comps path_Join cfg') comps False"
    using running(4) by (auto elim: reloadConfig.cases)
  obtain w r t h where "comps = [CWriter w, CReader r, CTargets t, CWeb h]"
      "tm_ApplyConfig (me_new_client env) (me_accepts env) (cfg_ScrapeConfigs conf) NewTargetManager = Some t"
    using l unfolding main_comps_def by (elim reload_loop_four) blast
  then show ?thesis
    using running(3) by (auto simp: main_exit_def tm_Stop_def tm_ApplyConfig_def NewTargetManager_def)
qed

text \<open>Otherwise its exit code is 0, and the queues of the writer keep what they hold.\<close>

lemma main_exit_running:
  assumes "pr_comps p = [CWriter w, CReader r, CTargets t, CWeb h]" "tm_ctx t = Some ctx"
  shows "main_exit p = Inr (0, [CWriter w, CReader r, CTargets (t\<lparr>tm_cancelled := ctx # tm_cancelled t\<rparr>), CWeb h])"
  using assms by (simp add: main_exit_def tm_Stop_def)

section \<open>Runs of the process\<close>

text \<open>The components of a running process are reached by their own steps only.\<close>

definition proc_ok :: "('c, 'h, 'k) main_env \<Rightarrow> ('h, 'k) component list \<Rightarrow> bool" where
  "proc_ok env comps \<longleftrightarrow> (\<exists>w hist r t h. comps = [CWriter w, CReader r, CTargets t, CWeb h] \<and>
     writer_reach (me_process env) (me_newHTTP env) w hist \<and>
     tm_reachable (me_render env) (me_quote env) (me_process env) (me_new_client env) t)"

definition loads_ok :: "('c, 'h, 'k) main_env \<Rightarrow> bool" where
  "loads_ok env \<longleftrightarrow> (\<forall>f conf. me_LoadFile env f = Inr conf \<longrightarrow> cfgs_ok (cfg_ScrapeConfigs conf))"

lemma reloadConfig_ok:
  assumes "reloadConfig env filename comps comps' err" "proc_ok env comps" "loads_ok env"
  shows "proc_ok env comps'"
proof -
  obtain w hist r t h where p: "comps = [CWriter w, CReader r, CTargets t, CWeb h]"
      "writer_reach (me_process env) (me_newHTTP env) w hist"
      "tm_reachable (me_render env) (me_quote env) (me_process env) (me_new_client env) t"
    using assms(2) by (auto simp: proc_ok_def)
  have step: "proc_ok env comps'" if conf: "me_LoadFile env filename = Inr conf"
      "reload_loop (comp_apply env conf) False comps comps' failed" for conf failed
  proof -
    have c: "cfgs_ok (cfg_ScrapeConfigs conf)"
      using conf(1) assms(3) by (auto simp: loads_ok_def)
    obtain w' r' t' ew er old where
      l: "comps' = [CWriter w', CReader r', CTargets t', CWeb (web_ApplyConfig (cfg_ExternalLabels conf) (cfg_String conf) h)]"
      "writer_ApplyConfig (me_newHTTP env) (cfg_ExternalLabels conf) (cfg_RemoteWriteConfigs conf) w (Inr (w', ew, old))"
      "reader_ApplyConfig (me_newHTTP env) (cfg_RemoteReadConfigs conf) (cfg_ExternalLabels conf) r = (r', er)"
      "tm_ApplyConfig (me_new_client env) (me_accepts env) (cfg_ScrapeConfigs conf) t = Some t'"
      "failed \<longleftrightarrow> ew \<noteq> None \<or> er \<noteq> None"
      using conf(2) unfolding p(1) by (rule reload_loop_four)
    have "\<exists>hist'. writer_reach (me_process env) (me_newHTTP env) w' hist'"
      using l(2) p(2) by (cases ew) (blast intro: writer_reach.config writer_reach.config_error)+
    moreover have "tm_reachable (me_render env) (me_quote env) (me_process env) (me_new_client env) t'"
      using p(3) tm_step.apply_config [OF c l(4)] by (rule tm_reachable.step)
    ultimately show ?thesis
      using l(1) by (auto simp: proc_ok_def)
  qed
  from assms(1) show ?thesis
    by (cases rule: reloadConfig.cases) (use step assms(2) in auto)
qed

lemma comp_step_ok:
  assumes "proc_ok env comps" "i < length comps" "comp_step env (comps ! i) c"
  shows "proc_ok env (comps[i := c])"
proof -
  obtain w hist r t h where p: "comps = [CWriter w, CReader r, CTargets t, CWeb h]"
      "writer_reach (me_process env) (me_newHTTP env) w hist"
      "tm_reachable (me_render env) (me_quote env) (me_process env) (me_new_client env) t"
    using assms(1) by (auto simp: proc_ok_def)
  consider "i = 0" | "i = 1" | "i = 2" | "i = 3"
    using assms(2) p(1) by fastforce
  then show ?thesis
  proof cases
    case 1
    then have "comp_step env (CWriter w) c"
      using assms(3) p(1) by simp
    then obtain w' hist' where "c = CWriter w'" "writer_reach (me_process env) (me_newHTTP env) w' hist'"
      by cases (use p(2) in \<open>blast intro: writer_reach.append writer_reach.work\<close>)+
    then show ?thesis
      using p 1 by (auto simp: proc_ok_def)
  next
    case 2
    then show ?thesis
      using assms(3) p(1) by (auto elim: comp_step.cases)
  next
    case 3
    then have "comp_step env (CTargets t) c"
      using assms(3) p(1) by simp
    then obtain t' where "c = CTargets t'"
        "tm_reachable (me_render env) (me_quote env) (me_process env) (me_new_client env) t'"
      by cases (use p(3) in \<open>blast intro: tm_reachable.step tm_step.sync\<close>)+
    then show ?thesis
      using p 3 by (auto simp: proc_ok_def)
  next
    case 4
    then have "comp_step env (CWeb h) c"
      using assms(3) p(1) by simp
    then obtain h' where "c = CWeb h'"
      by cases auto
    then show ?thesis
      using p 4 by (auto simp: proc_ok_def)
  qed
qed

lemma main_step_ok:
  assumes "main_step env p p'" "proc_ok env (pr_comps p)" "loads_ok env"
  shows "proc_ok env (pr_comps p')"
  using assms(1)
proof (cases rule: main_step.cases)
  case (hup comps err)
  then show ?thesis
    using reloadConfig_ok assms(2,3) by auto
next
  case (run_targets i tm tm')
  obtain w hist r t h where c: "pr_comps p = [CWriter w, CReader r, CTargets t, CWeb h]"
      "writer_reach (me_process env) (me_newHTTP env) w hist"
      "tm_reachable (me_render env) (me_quote env) (me_process env) (me_new_client env) t"
    using assms(2) by (auto simp: proc_ok_def)
  then have "i = 2" "tm = t"
    using run_targets(2,3) by (auto simp: less_Suc_eq)
  moreover have "tm_reachable (me_render env) (me_quote env) (me_process env) (me_new_client env) tm'"
    using c(3) tm_step.run [OF run_targets(4)] \<open>tm = t\<close> by (blast intro: tm_reachable.step)
  ultimately show ?thesis
    using run_targets(1) c by (auto simp: proc_ok_def)
next
  case (component i c)
  then show ?thesis
    using comp_step_ok assms(2) by auto
qed

lemma main_start_ok:
  assumes "main_start env path_Join cfg v (Runs p)" "loads_ok env"
  shows "proc_ok env (pr_comps p)"
  using assms(1)
proof (cases rule: main_start.cases)
  case (running cfg' comps)
  have "proc_ok env (main_comps path_Join cfg')"
    unfolding proc_ok_def main_comps_def by (blast intro: writer_reach.start tm_reachable.init)
  then show ?thesis
    using reloadConfig_ok [OF running(4)] assms(2) running by simp
qed

lemma main_run_ok:
  assumes "main_start env path_Join cfg v (Runs p)" "(main_step env)\<^sup>*\<^sup>* p p'" "loads_ok env"
  shows "proc_ok env (pr_comps p')"
  using assms(2) by (induction rule: rtranclp_induct) (use main_start_ok [OF assms(1,3)] main_step_ok assms(3) in blast)+

text \<open>An example: a process that is started, runs its target manager, discovers a group and is asked for a reload.\<close>

definition ex_conf :: "unit Config" where
  "ex_conf = \<lparr>cfg_ScrapeConfigs = [ex_config], cfg_RemoteWriteConfigs = [ex_endpoint], cfg_RemoteReadConfigs = [],
     cfg_ExternalLabels = [], cfg_String = ''c''\<rparr>"

definition ex_env :: "(unit, unit, nat) main_env" where
  "ex_env = \<lparr>me_newHTTP = ex_http, me_new_client = ex_new_client, me_accepts = (\<lambda>_. False),
     me_LoadFile = (\<lambda>f. if f = ''prometheus.yml'' then Inr ex_conf else Inl ''no such file''),
     me_process = ex_process, me_render = tu_Host, me_quote = id\<rparr>"

definition ex_handler :: "nat \<Rightarrow> Handler" where
  "ex_handler n = (web_New (@) (web_options default_cmd_cfg))\<lparr>wh_configString := ''c'', wh_reload_waiting := n\<rparr>"

definition ex_proc :: "nat TargetManager \<Rightarrow> nat \<Rightarrow> (unit, nat) proc" where
  "ex_proc tm n = \<lparr>pr_configFile = ''prometheus.yml'',
     pr_comps = [CWriter (ex_writer qm_start False), CReader \<lparr>rd_clients = [], rd_externalLabels = []\<rparr>, CTargets tm, CWeb (ex_handler n)]\<rparr>"

definition ex_configured :: "nat TargetManager" where
  "ex_configured = NewTargetManager\<lparr>tm_scrapeConfigs := [ex_config]\<rparr>"

lemma ex_env_simps [simp]:
  "me_newHTTP ex_env = ex_http" "me_new_client ex_env = ex_new_client" "me_process ex_env = ex_process"
  "me_render ex_env = tu_Host" "me_quote ex_env = id" "me_LoadFile ex_env ''prometheus.yml'' = Inr ex_conf"
  "isl (me_LoadFile ex_env hup_file)"
  by (simp_all add: ex_env_def hup_file_def)

lemma ex_loads_ok: "loads_ok ex_env"
  by (simp add: loads_ok_def ex_env_def ex_conf_def cfgs_ok_def ex_config_def)

lemma ex_reload: "reloadConfig ex_env ''prometheus.yml'' (main_comps (@) default_cmd_cfg) (pr_comps (ex_proc ex_configured 0)) None"
proof -
  have w: "comp_apply ex_env ex_conf (CWriter \<lparr>w_queues = []\<rparr>) (CWriter (ex_writer qm_start False)) None"
    using comp_apply.writer [of ex_env ex_conf] ex_writer_config by (simp add: ex_conf_def)
  have r: "comp_apply ex_env ex_conf (CReader \<lparr>rd_clients = [], rd_externalLabels = []\<rparr>) (CReader \<lparr>rd_clients = [], rd_externalLabels = []\<rparr>) None"
    by (rule comp_apply.reader) (simp add: ex_conf_def reader_ApplyConfig_def)
  have t: "comp_apply ex_env ex_conf (CTargets NewTargetManager) (CTargets ex_configured) None"
    by (rule comp_apply.targets) (simp add: ex_conf_def tm_ApplyConfig_def NewTargetManager_def ex_configured_def)
  have h: "comp_apply ex_env ex_conf (CWeb (web_New (@) (web_options default_cmd_cfg))) (CWeb (ex_handler 0)) None"
    using comp_apply.web [of ex_env ex_conf "web_New (@) (web_options default_cmd_cfg)"]
    by (simp add: ex_conf_def web_ApplyConfig_def ex_handler_def web_New_def)
  have "reload_loop (comp_apply ex_env ex_conf) False (main_comps (@) default_cmd_cfg) (pr_comps (ex_proc ex_configured 0)) False"
    unfolding main_comps_def ex_proc_def
    by (simp, (rule reload_loop.cons, rule w, simp)?, (rule reload_loop.cons, rule r, simp)?,
        (rule reload_loop.cons, rule t, simp)?, (rule reload_loop.cons, rule h, simp)?, rule reload_loop.nil)
  then show ?thesis
    by (intro reloadConfig.loaded [of ex_env _ ex_conf]) simp_all
qed

lemma ex_main_start: "main_start ex_env (@) (Inr default_cmd_cfg) False (Runs (ex_proc ex_configured 0))"
  using main_start.running [of ex_env default_cmd_cfg "(@)" "pr_comps (ex_proc ex_configured 0)"] ex_reload
  by (simp add: ex_proc_def default_cmd_cfg_def)

lemma ex_main_run: "(main_step ex_env)\<^sup>*\<^sup>* (ex_proc ex_configured 0) (ex_proc ex_tm 1)"
proof -
  have "tm_Run ex_new_client (me_accepts ex_env) ex_configured = Some ex_running"
    by (simp add: tm_Run_def tm_reload_def ex_configured_def NewTargetManager_def UpdateProviders_def job_set_def
        ex_running_def ex_set_def ex_config_def gm_put_def gm_del_if_def gm_has_def gm_get_def)
  then have 1: "main_step ex_env (ex_proc ex_configured 0) (ex_proc ex_running 0)"
    using main_step.run_targets [of 2 "ex_proc ex_configured 0" ex_configured ex_env ex_running] by (simp add: ex_proc_def)
  have "comp_step ex_env (CTargets ex_running) (CTargets ex_tm)"
    using comp_step.sync [of "[ex_group]" ex_env ex_running "''n''"] by (simp add: ex_tm_def groups_ok_def ex_group_def gm_ok_def)
  then have 2: "main_step ex_env (ex_proc ex_running 0) (ex_proc ex_tm 0)"
    using main_step.component [of 2 "ex_proc ex_running 0" ex_env "CTargets ex_tm"] by (simp add: ex_proc_def)
  have "comp_step ex_env (CWeb (ex_handler 0)) (CWeb (ex_handler 1))"
    using comp_step.request [of ex_env "ex_handler 0"] by (simp add: ex_handler_def web_reload_def)
  then have 3: "main_step ex_env (ex_proc ex_tm 0) (ex_proc ex_tm 1)"
    using main_step.component [of 3 "ex_proc ex_tm 0" ex_env "CWeb (ex_handler 1)"] by (simp add: ex_proc_def)
  show ?thesis
    using 1 2 3 by (meson converse_rtranclp_into_rtranclp rtranclp.rtrancl_refl)
qed


lemma tm_configs_run: "tm_Run new_client accepts tm = Some tm' \<Longrightarrow> tm_scrapeConfigs tm' = tm_scrapeConfigs tm"
  by (auto simp: tm_Run_def tm_reload_def split: option.splits)

lemma tm_configs_sync: "tm_scrapeConfigs (tm_Sync render quote process name tgs tm) = tm_scrapeConfigs tm"
  by (simp add: tm_Sync_def split: option.split)

lemma comp_step_paths:
  "comp_step env c c' \<Longrightarrow> (case (c, c') of
      (CWriter w, CWriter w') \<Rightarrow> True
    | (CTargets t, CTargets t') \<Rightarrow> tm_scrapeConfigs t' = tm_scrapeConfigs t
    | (CWeb h, CWeb h') \<Rightarrow> wh_reload_waiting h \<le> wh_reload_waiting h' \<and> wh_configString h' = wh_configString h
    | _ \<Rightarrow> False)"
  by (induction rule: comp_step.induct) (auto simp: tm_configs_sync web_reload_def web_quit_def split: if_splits)

lemma main_step_paths:
  assumes "main_step env p p'" "pr_comps p = [CWriter w, CReader r, CTargets t, CWeb h]"
  shows "\<exists>w2 r2 t2 h2. pr_comps p' = [CWriter w2, CReader r2, CTargets t2, CWeb h2] \<and>
      wh_reload_waiting h \<le> wh_reload_waiting h2 \<and>
      (isl (me_LoadFile env hup_file) \<longrightarrow>
        r2 = r \<and> tm_scrapeConfigs t2 = tm_scrapeConfigs t \<and> wh_configString h2 = wh_configString h)"
  using assms(1)
proof (cases rule: main_step.cases)
  case (hup comps err)
  show ?thesis
  proof (cases "me_LoadFile env hup_file")
    case (Inl e)
    then show ?thesis
      using hup assms(2) by (auto elim: reloadConfig.cases)
  next
    case (Inr conf)
    then obtain failed where "reload_loop (comp_apply env conf) False [CWriter w, CReader r, CTargets t, CWeb h] comps failed"
      using hup(2) assms(2) by (auto elim: reloadConfig.cases)
    then show ?thesis
      by (rule reload_loop_four) (use hup(1) Inr in \<open>auto simp: web_ApplyConfig_def\<close>)
  qed
next
  case (run_targets i tm tm')
  then have "i = 2" "tm = t"
    using assms(2) by (auto simp: less_Suc_eq)
  then show ?thesis
    using run_targets(1) assms(2) tm_configs_run [OF run_targets(4)] by simp
next
  case (component i c)
  then consider "i = 0" | "i = 1" | "i = 2" | "i = 3"
    using assms(2) by fastforce
  then show ?thesis
    using component(1) comp_step_paths [OF component(3)] assms(2)
    by cases (auto split: component.splits)
qed





end
