(* ===== verification/Web_Serve.thy ===== *)
theory Web_Serve
  imports Web_Handler
begin

text \<open>
  A request to the web server, from its method and path to the response: the router (\<open>route.go\<close> of the vendored
  package \<open>common\<close> over \<open>httprouter\<close>), the handlers that \<open>src/web/web.go\<close> and \<open>Register\<close> of
  \<open>src/web/api/v1/api.go\<close> put behind it, and the wrapper around those of the API.

  The router gives a request to the route whose pattern matches. What it answers by itself when there is none (redirects to
  a path that differs by a slash or by case, 404 and 405) is \<open>NoRoute\<close>. The response is the one before compression.
\<close>

section \<open>The router\<close>

text \<open>In a pattern \<open>:name\<close> stands for a segment of the path and \<open>*name\<close> for the rest of it, with the slash before.\<close>

function route_match :: "string \<Rightarrow> string \<Rightarrow> (string \<times> string) list option" where
  "route_match [] s = (if s = [] then Some [] else None)"
| "route_match (c # p) s =
    (if c = CHR '':'' then
       map_option ((#) (takeWhile (\<lambda>d. d \<noteq> CHR ''/'') p, takeWhile (\<lambda>d. d \<noteq> CHR ''/'') s))
         (route_match (dropWhile (\<lambda>d. d \<noteq> CHR ''/'') p) (dropWhile (\<lambda>d. d \<noteq> CHR ''/'') s))
     else if c = CHR ''*'' then Some [(p, CHR ''/'' # s)]
     else (case s of [] \<Rightarrow> None | d # s' \<Rightarrow> if c = d then route_match p s' else None))"
  by pat_completeness auto

termination
  by (relation "measure (\<lambda>(p, s). length p)") (auto simp: le_imp_less_Suc length_dropWhile_le)

fun find_route :: "route list \<Rightarrow> string \<Rightarrow> string \<Rightarrow> (route_handler \<times> (string \<times> string) list) option" where
  "find_route [] m path = None"
| "find_route ((m', pattern, h) # rs) m path =
    (case (if m' = m then route_match pattern path else None) of
       Some ps \<Rightarrow> Some (h, ps)
     | None \<Rightarrow> find_route rs m path)"

section \<open>The handlers\<close>

record web_request =
  wq_Method :: string
  wq_Path :: string
  wq_RequestURI :: string
  wq_Form :: url_Values

datatype 'v api_data =
    QueryData "'v queryData" | LabelValuesData "string list" | SeriesData "LabelSet list" | DeletedData int
  | TargetsData TargetDiscovery | AlertmanagersData AlertmanagerDiscovery

text \<open>The API holds the source of the targets, the query engine and the clock.\<close>

record ('q, 'v) API =
  ap_targetRetriever :: "unit \<Rightarrow> Target list"
  ap_QueryEngine :: "('q, 'v) engine"
  ap_now :: "unit \<Rightarrow> Time"

definition NewAPI :: "('q, 'v) engine \<Rightarrow> (unit \<Rightarrow> Target list) \<Rightarrow> (unit \<Rightarrow> Time) \<Rightarrow> ('q, 'v) API" where
  "NewAPI qe tr model_Now = \<lparr>ap_targetRetriever = tr, ap_QueryEngine = qe, ap_now = model_Now\<rparr>"

text \<open>What the handlers use of the library: \<open>we_fetch\<close> is a request to another server, by method and URL.\<close>

record ('v, 'm) web_env =
  we_parse :: parse_env
  we_marshal :: "'v api_data response \<Rightarrow> string option"
  we_quote :: "string \<Rightarrow> string"
  we_selector :: "string \<Rightarrow> string + 'm"
  we_labels :: "string \<Rightarrow> labalVals option"
  we_series :: "string \<Rightarrow> seriesVals"
  we_deleted :: "string \<Rightarrow> seriesDelVals"
  we_targets :: "string \<Rightarrow> targetVals"
  we_alertmanagers :: "string \<Rightarrow> alertManagerVals"
  we_fetch :: "string \<Rightarrow> string \<Rightarrow> http_outcome"
  we_sched :: "LabelValue list \<Rightarrow> LabelValue list"
  we_redirect :: "string \<Rightarrow> http_response"

text \<open>\<open>proxyReq\<close> makes a GET request of every request it forwards.\<close>

definition web_proxy :: "('v, 'm) web_env \<Rightarrow> ('q, 'v) API \<Rightarrow> web_request \<Rightarrow> unit \<Rightarrow> panic + string list" where
  "web_proxy env api req u = proxyReq (we_fetch env ''GET'') (we_sched env) (wq_RequestURI req) (ap_targetRetriever api ())"

text \<open>What a handler of the API returns, if it does not panic; \<open>ps\<close> are the parameters of the path.\<close>

definition api_func ::
  "('v, 'm) web_env \<Rightarrow> ('q, 'v) API \<Rightarrow> (string \<times> string) list \<Rightarrow> web_request \<Rightarrow> route_handler \<Rightarrow>
   (panic + 'v api_data option \<times> apiError option) option" where
  "api_func env api ps req rh = (case rh of
       ApiOptions \<Rightarrow> Some (Inr api_options)
     | ApiQuery \<Rightarrow> Some (Inr (api_result (map_sum id QueryData (api_query (we_parse env) (ap_QueryEngine api) (wq_Form req) (ap_now api ())))))
     | ApiQueryRange \<Rightarrow> Some (Inr (api_result (map_sum id QueryData (api_queryRange (we_parse env) (ap_QueryEngine api) (wq_Form req)))))
     | ApiLabelValues \<Rightarrow> Some (map_sum id (api_result \<circ> map_sum id LabelValuesData)
         (api_labelValues (we_quote env) (we_labels env) (gm_str ps ''name'') (web_proxy env api req)))
     | ApiSeries \<Rightarrow> Some (map_sum id (api_result \<circ> map_sum id SeriesData)
         (api_series (we_parse env) (we_selector env) (we_series env) (wq_Form req) (web_proxy env api req)))
     | ApiDropSeries \<Rightarrow> Some (map_sum id (api_result \<circ> map_sum id DeletedData)
         (api_dropSeries (we_deleted env) (wq_Form req) (web_proxy env api req)))
     | ApiTargets \<Rightarrow> Some (map_sum id (\<lambda>d. (Some (TargetsData d), None)) (api_targets (we_targets env) (web_proxy env api req)))
     | ApiAlertmanagers \<Rightarrow> Some (map_sum id (\<lambda>d. (Some (AlertmanagersData d), None))
         (api_alertmanagers (we_alertmanagers env) (web_proxy env api req)))
     | _ \<Rightarrow> None)"

datatype web_outcome = NoRoute | Answered http_response | Panicked panic | Waiting

definition web_handle ::
  "('v, 'm) web_env \<Rightarrow> ('q, 'v) API \<Rightarrow> Handler \<Rightarrow> (string \<times> string) list \<Rightarrow> web_request \<Rightarrow> route_handler \<Rightarrow> web_outcome \<times> Handler" where
  "web_handle env api h ps req rh =
    (case api_func env api ps req rh of
       Some (Inl p) \<Rightarrow> (Panicked p, h)
     | Some (Inr res) \<Rightarrow> (Answered (instr (we_marshal env) res), h)
     | None \<Rightarrow> (case rh of
          RedirectTo url \<Rightarrow> (Answered (we_redirect env url), h)
        | QuitHandler \<Rightarrow> (case web_quit h of
             (text, Inl p) \<Rightarrow> (Panicked p, h)
           | (text, Inr h') \<Rightarrow> (Answered (new_response\<lparr>hr_body := text\<rparr>), h'))
        | ReloadHandler \<Rightarrow> (Waiting, web_reload h)
        | _ \<Rightarrow> (Answered reload_needs_post, h)))"

definition web_serve ::
  "('v, 'm) web_env \<Rightarrow> ('q, 'v) API \<Rightarrow> Handler \<Rightarrow> web_request \<Rightarrow> web_outcome \<times> Handler" where
  "web_serve env api h req =
    (case find_route (wh_routes h) (wq_Method req) (wq_Path req) of
       None \<Rightarrow> (NoRoute, h)
     | Some (rh, ps) \<Rightarrow> web_handle env api h ps req rh)"

section \<open>At most one route\<close>

definition plain :: "string \<Rightarrow> bool" where
  "plain p \<longleftrightarrow> CHR '':'' \<notin> set p \<and> CHR ''*'' \<notin> set p"

lemma route_match_plain: "plain p \<Longrightarrow> route_match (p @ q) s = (if take (length p) s = p then route_match q (drop (length p) s) else None)"
proof (induction p arbitrary: s)
  case (Cons c p)
  then show ?case
    by (cases s) (auto simp: plain_def)
qed simp

lemma route_match_exact: "plain p \<Longrightarrow> route_match p s = (if s = p then Some [] else None)"
  using route_match_plain [of p "[]" s] by (auto simp: append_eq_conv_conj)

lemma plain_append [simp]: "plain (p @ q) \<longleftrightarrow> plain p \<and> plain q"
  by (auto simp: plain_def)

lemma split_segment:
  "CHR ''/'' \<notin> set v \<Longrightarrow> takeWhile (\<lambda>d. d \<noteq> CHR ''/'') (v @ CHR ''/'' # q) = v \<and>
     dropWhile (\<lambda>d. d \<noteq> CHR ''/'') (v @ CHR ''/'' # q) = CHR ''/'' # q"
  by (induction v) auto

lemma match_param:
  assumes "plain p" "plain q" "CHR ''/'' \<notin> set nm" "q = CHR ''/'' # q'"
  shows "route_match (p @ CHR '':'' # nm @ q) s = Some ps \<longleftrightarrow> (\<exists>v. s = p @ v @ q \<and> CHR ''/'' \<notin> set v \<and> ps = [(nm, v)])"
proof -
  have r: "route_match (CHR '':'' # nm @ q) t = (if dropWhile (\<lambda>d. d \<noteq> CHR ''/'') t = q
      then Some [(nm, takeWhile (\<lambda>d. d \<noteq> CHR ''/'') t)] else None)" for t
    using split_segment [OF assms(3), of q'] by (simp add: route_match_exact [OF assms(2)] assms(4) [symmetric])
  have t: "route_match (CHR '':'' # nm @ q) t = Some ps \<longleftrightarrow> (\<exists>v. t = v @ q \<and> CHR ''/'' \<notin> set v \<and> ps = [(nm, v)])" for t
  proof
    assume "route_match (CHR '':'' # nm @ q) t = Some ps"
    then have "dropWhile (\<lambda>d. d \<noteq> CHR ''/'') t = q" "ps = [(nm, takeWhile (\<lambda>d. d \<noteq> CHR ''/'') t)]"
      unfolding r by (auto split: if_splits)
    moreover have "CHR ''/'' \<notin> set (takeWhile (\<lambda>d. d \<noteq> CHR ''/'') t)"
      using set_takeWhileD by fastforce
    ultimately show "\<exists>v. t = v @ q \<and> CHR ''/'' \<notin> set v \<and> ps = [(nm, v)]"
      by (metis takeWhile_dropWhile_id)
  next
    assume "\<exists>v. t = v @ q \<and> CHR ''/'' \<notin> set v \<and> ps = [(nm, v)]"
    then show "route_match (CHR '':'' # nm @ q) t = Some ps"
      unfolding r using split_segment [of _ q'] assms(4) by auto
  qed
  show ?thesis
    unfolding route_match_plain [OF assms(1)] using t [of "drop (length p) s"]
    by (auto split: if_splits) (metis append_take_drop_id)
qed

text \<open>What each kind of pattern matches.\<close>

lemma match_label:
  assumes "plain p"
  shows "route_match (p @ ''/label/:name/values'') s = Some ps \<longleftrightarrow>
    (\<exists>v. s = p @ ''/label/'' @ v @ ''/values'' \<and> CHR ''/'' \<notin> set v \<and> ps = [(''name'', v)])"
  using match_param [of "p @ ''/label/''" "''/values''" "''name''" "''values''" s ps] assms by (simp add: plain_def)

definition route_base :: "web_Options \<Rightarrow> string" where
  "route_base o' = (if wo_RoutePrefix o' \<noteq> ''/'' then wo_RoutePrefix o' else [])"

definition route_kind :: "string \<Rightarrow> string \<Rightarrow> route \<Rightarrow> bool" where
  "route_kind base v r \<longleftrightarrow> (case r of (m, p, h) \<Rightarrow>
     plain p \<and> m \<noteq> ''OPTIONS'' \<and> (m = ''GET'' \<longrightarrow> p \<noteq> (base @ ''/api/v1'') @ ''/label/'' @ v @ ''/values'') \<or>
     m = ''GET'' \<and> p = (base @ ''/api/v1'') @ ''/label/:name/values'' \<or>
     m = ''OPTIONS'' \<and> p = (base @ ''/api/v1'') @ ''/*path'')"

lemma route_kinds:
  assumes "plain (route_base o')" "r \<in> set (web_routes path_Join o')"
  shows "route_kind (route_base o') v r"
proof -
  have root: "''/'' \<noteq> (b @ ''/api/v1'') @ ''/label/'' @ v @ ''/values''" for b
    by (cases b) simp_all
  have "list_all (route_kind (route_base o') v) (web_routes path_Join o')"
    using assms(1) root by (simp add: web_routes_def api_Register_def Let_def route_kind_def plain_def route_base_def)
  then show ?thesis
    using assms(2) by (simp add: list_all_iff)
qed

lemma unique_route:
  assumes "distinct (map route_key rs)" "r1 \<in> set rs" "r2 \<in> set rs" "fst r1 = fst r2" "fst (snd r1) = fst (snd r2)"
  shows "r1 = r2"
  using assms by (auto simp: distinct_map route_key_def inj_on_def)

text \<open>The routes of the web server do not overlap: of the patterns registered for a method at most one matches a
  path, so the answer does not depend on how the router searches them. (A route prefix with a colon or an asterisk in it
  would be read as a pattern.)\<close>

theorem web_route_unique:
  assumes "cmd_parse env flag_err rest cfg = Inr cfg'" "wo_RoutePrefix o' = cf_RoutePrefix cfg'" "plain (cf_RoutePrefix cfg')"
    and "(m, p1, h1) \<in> set (web_routes path_Join o')" "(m, p2, h2) \<in> set (web_routes path_Join o')"
    and "route_match p1 path = Some ps1" "route_match p2 path = Some ps2"
  shows "p1 = p2 \<and> h1 = h2 \<and> ps1 = ps2"
proof -
  have d: "distinct (map route_key (web_routes path_Join o'))"
    using web_routes_correct [OF assms(1,2)] by blast
  have base: "plain (route_base o')"
    using assms(2,3) by (simp add: route_base_def plain_def)
  have exact: "path = p" if "plain p" "route_match p path = Some ps" for p ps
    using that route_match_exact [of p path] by (simp split: if_splits)
  have label: "\<exists>v. path = (route_base o' @ ''/api/v1'') @ ''/label/'' @ v @ ''/values''"
    if "route_match ((route_base o' @ ''/api/v1'') @ ''/label/:name/values'') path = Some ps" for ps
    using that match_label [of "route_base o' @ ''/api/v1''" path ps] base by (simp add: plain_def) blast
  let ?L = "(route_base o' @ ''/api/v1'') @ ''/label/:name/values''" and ?S = "(route_base o' @ ''/api/v1'') @ ''/*path''"
  have other: "q = p" if "\<not> plain p" "(m, p, h) \<in> set (web_routes path_Join o')" "(m, q, h') \<in> set (web_routes path_Join o')"
      "route_match p path = Some ps" "route_match q path = Some ps'" for p q h h' ps ps'
  proof -
    note k = route_kinds [OF base that(2), unfolded route_kind_def prod.case]
      and k' = route_kinds [OF base that(3), unfolded route_kind_def prod.case]
      and np = that(1) and mp = that(4) and mq = that(5)
    consider "m = ''GET''" "p = ?L" | "m = ''OPTIONS''" "p = ?S"
      using k [of "[]"] np by blast
    then show ?thesis
    proof cases
      case 1
      then obtain v where v: "path = (route_base o' @ ''/api/v1'') @ ''/label/'' @ v @ ''/values''"
        using label mp by blast
      have "m \<noteq> ''OPTIONS''"
        using 1(1) by simp
      then show ?thesis
        using k' [of v] exact [OF _ mq] 1 v by blast
    next
      case 2
      then show ?thesis
        using k' [of "[]"] by auto
    qed
  qed
  have "p1 = p2"
  proof (cases "plain p1 \<and> plain p2")
    case True
    then show ?thesis
      using exact assms(6,7) by blast
  next
    case False
    then show ?thesis
      using other [OF _ assms(4,5,6,7)] other [OF _ assms(5,4,7,6)] by blast
  qed
  then show ?thesis
    using unique_route [OF d assms(4,5)] assms(6,7) by simp
qed

lemma find_route_Some: "find_route rs m path = Some (h, ps) \<Longrightarrow> \<exists>p. (m, p, h) \<in> set rs \<and> route_match p path = Some ps"
  by (induction rs m path rule: find_route.induct) (auto split: if_splits option.splits)

lemma find_route_None: "find_route rs m path = None \<Longrightarrow> (m, p, h) \<in> set rs \<Longrightarrow> route_match p path = None"
  by (induction rs m path rule: find_route.induct) (auto split: if_splits option.splits)

lemma found_route:
  assumes "cmd_parse env flag_err rest cfg = Inr cfg'" "wo_RoutePrefix o' = cf_RoutePrefix cfg'" "plain (cf_RoutePrefix cfg')"
    and "(m, p, h) \<in> set (web_routes path_Join o')" "route_match p path = Some ps"
  shows "find_route (web_routes path_Join o') m path = Some (h, ps)"
proof (cases "find_route (web_routes path_Join o') m path")
  case None
  then show ?thesis
    using find_route_None [OF None assms(4)] assms(5) by simp
next
  case (Some r)
  obtain h' ps' where r: "r = (h', ps')"
    by fastforce
  then obtain p' where "(m, p', h') \<in> set (web_routes path_Join o')" "route_match p' path = Some ps'"
    using find_route_Some [of "web_routes path_Join o'" m path h' ps'] Some by blast
  then show ?thesis
    using web_route_unique [OF assms(1-4) _ assms(5)] Some r by blast
qed

section \<open>From the request to the response\<close>

text \<open>A success of the API: its status, its headers and the JSON of its data.\<close>

definition api_success :: "('v, 'm) web_env \<Rightarrow> http_response \<Rightarrow> 'v api_data \<Rightarrow> bool" where
  "api_success env r d \<longleftrightarrow> hr_code r = 200 \<and> gm_get (hr_Header r) ''Content-Type'' = Some ''application/json'' \<and>
     (\<forall>(k, v) \<in> set corsHeaders. gm_get (hr_Header r) k = Some v) \<and>
     hr_body r = (case we_marshal env \<lparr>rp_Status = ''success'', rp_Data = Some d, rp_ErrorType = errorNone, rp_Error = []\<rparr> of
       None \<Rightarrow> [] | Some b \<Rightarrow> b)"

lemma instr_success: "api_success env (instr (we_marshal env) (Some d, None)) d"
  by (simp add: api_success_def instr_def respond_def write_json_def setCORS_def new_response_def corsHeaders_def Let_def
      gm_get_put split: option.split)

lemma labelname_segment: "labelname_IsValid nm \<Longrightarrow> CHR ''/'' \<notin> set nm"
  by (cases nm) (auto simp: list_all_iff labelname_char_def less_eq_char_def)

lemma serve_api:
  assumes "cmd_parse cenv flag_err rest cfg = Inr cfg'" "wo_RoutePrefix o' = cf_RoutePrefix cfg'" "plain (cf_RoutePrefix cfg')"
    and "wh_routes h = web_routes path_Join o'" "(wq_Method req, p, rh) \<in> set (web_routes path_Join o')"
    and "route_match p (wq_Path req) = Some ps" "api_func env api ps req rh = Some res"
  shows "web_serve env api h req = (case res of Inl p \<Rightarrow> Panicked p | Inr r \<Rightarrow> Answered (instr (we_marshal env) r), h)"
  using found_route [OF assms(1,2,3,5,6)] assms(4,7) by (simp add: web_serve_def web_handle_def split: sum.split)

lemma api_routes:
  "(''GET'', route_base o' @ ''/api/v1/series'', ApiSeries) \<in> set (web_routes path_Join o')"
  "(''DELETE'', route_base o' @ ''/api/v1/series'', ApiDropSeries) \<in> set (web_routes path_Join o')"
  "(''GET'', (route_base o' @ ''/api/v1'') @ ''/label/:name/values'', ApiLabelValues) \<in> set (web_routes path_Join o')"
  by (simp_all add: web_routes_def api_Register_def route_base_def Let_def)

lemma serve_series:
  assumes "cmd_parse cenv flag_err rest cfg = Inr cfg'" "wo_RoutePrefix o' = cf_RoutePrefix cfg'" "plain (cf_RoutePrefix cfg')"
    and "wh_routes h = web_routes path_Join o'" "schedule (we_sched env)" "wq_Method req = ''GET''"
    and path: "wq_Path req = route_base o' @ ''/api/v1/series''" and form: "form_matches (wq_Form req) \<noteq> []"
      "check_time (we_parse env) (wq_Form req) ''start'' = None" "check_time (we_parse env) (wq_Form req) ''end'' = None"
      "parse_selectors (we_selector env) [] (form_matches (wq_Form req)) = Inr ms"
  shows "if list_all (answers (we_fetch env ''GET'') (wq_RequestURI req)) (getPromTargets (ap_targetRetriever api ()))
    then \<exists>r ss. web_serve env api h req = (Answered r, h) \<and> api_success env r (SeriesData ss) \<and>
        mset ss = (\<Sum>l \<in># mset (getPromTargets (ap_targetRetriever api ())).
          mset (sv_Data (we_series env (answer (we_fetch env ''GET'') (wq_RequestURI req) l))))
    else web_serve env api h req = (Panicked NilDereference, h)"
proof -
  let ?fetch = "we_fetch env ''GET''" and ?uri = "wq_RequestURI req" and ?ts = "ap_targetRetriever api ()"
  let ?ss = "concat (map sv_Data (map (we_series env) (map (answer ?fetch ?uri) (we_sched env (getPromTargets ?ts)))))"
  have all: "list_all (answers ?fetch ?uri) (we_sched env (getPromTargets ?ts)) \<longleftrightarrow> list_all (answers ?fetch ?uri) (getPromTargets ?ts)"
    using schedule_set [OF assms(5)] by (simp add: list_all_iff)
  have "api_func env api [] req ApiSeries = Some (if list_all (answers ?fetch ?uri) (getPromTargets ?ts)
      then Inr (Some (SeriesData ?ss), None) else Inl NilDereference)"
    using form by (simp add: api_func_def api_series_def web_proxy_def proxyReq_def proxy_bodies_eq api_result_def all)
  moreover have "route_match (route_base o' @ ''/api/v1/series'') (wq_Path req) = Some []"
    using assms(2,3) path by (subst route_match_exact) (simp_all add: plain_def route_base_def)
  ultimately have serve: "web_serve env api h req = (if list_all (answers ?fetch ?uri) (getPromTargets ?ts)
      then (Answered (instr (we_marshal env) (Some (SeriesData ?ss), None)), h) else (Panicked NilDereference, h))"
    using serve_api [OF assms(1-4), of req "route_base o' @ ''/api/v1/series''" ApiSeries "[]" env api] api_routes(1) assms(6) by simp
  have m: "mset ?ss = (\<Sum>l \<in># mset (getPromTargets ?ts). mset (sv_Data (we_series env (answer ?fetch ?uri l))))"
    using mset_answers [OF assms(5), of "\<lambda>b. sv_Data (we_series env b)" ?fetch ?uri ?ts] by (simp add: comp_def)
  show ?thesis
  proof (cases "list_all (answers ?fetch ?uri) (getPromTargets ?ts)")
    case True
    then have "web_serve env api h req = (Answered (instr (we_marshal env) (Some (SeriesData ?ss), None)), h)"
      using serve by simp
    then show ?thesis
      unfolding if_P [OF True] using m instr_success by blast
  next
    case False
    then show ?thesis
      using serve by simp
  qed
qed


text \<open>A request to drop series is forwarded as a GET request too: its response depends on nothing that a server would answer
  to a request of another method, so no server ever drops a series.\<close>

lemma forwards_get:
  assumes "we_fetch env ''GET'' = we_fetch env' ''GET''" "env' = env\<lparr>we_fetch := f\<rparr>"
  shows "web_serve env' api h req = web_serve env api h req"
proof -
  have "f ''GET'' = we_fetch env ''GET''"
    using assms by simp
  then have "web_proxy env' api req = web_proxy env api req"
    using assms(2) by (intro ext) (simp add: web_proxy_def)
  then have "api_func env' api ps req rh = api_func env api ps req rh" for ps rh
    using assms(2) by (simp add: api_func_def split: route_handler.split)
  moreover have "we_marshal env' = we_marshal env" "we_redirect env' = we_redirect env"
    using assms(2) by simp_all
  ultimately have "web_handle env' api h ps req rh = web_handle env api h ps req rh" for ps rh
    by (simp add: web_handle_def split: option.split sum.split route_handler.split)
  then show ?thesis
    by (simp add: web_serve_def split: option.split prod.split)
qed

section \<open>A request\<close>

definition ex_web_options :: web_Options where
  "ex_web_options = \<lparr>wo_RoutePrefix = ''/prom'', wo_ExternalPath = ''/prom'', wo_EnableQuit = False,
     wo_ListenAddress = '':9090'', wo_ReadTimeout = 0, wo_MaxConnections = 512\<rparr>"

definition ex_uri :: string where
  "ex_uri = ''/prom/api/v1/series?match[]=up''"

text \<open>Two servers, each with one series.\<close>

definition ex_web_env :: "(unit, string) web_env" where
  "ex_web_env = \<lparr>we_parse = ex_range_env,
     we_marshal = (\<lambda>_. Some ''json''), we_quote = id, we_selector = Inr,
     we_labels = (\<lambda>_. None), we_series = (\<lambda>b. \<lparr>sv_Data = [[(''instance'', b)]], sv_Status = ''success''\<rparr>),
     we_deleted = (\<lambda>_. \<lparr>sd_Status = [], sd_NumDeleted = 0\<rparr>), we_targets = (\<lambda>_. \<lparr>tv_Status = [], tv_ActiveTargets = []\<rparr>),
     we_alertmanagers = (\<lambda>_. \<lparr>av_Data = \<lparr>ad_ActiveAlertmanagers = []\<rparr>, av_Status = []\<rparr>),
     we_fetch = (\<lambda>m url. if url = ''http://a'' @ ex_uri then Answer ''x'' else if url = ''http://b'' @ ex_uri then Answer ''y'' else TransportError []),
     we_sched = rev, we_redirect = (\<lambda>_. new_response)\<rparr>"

definition ex_api :: "(unit, unit) API" where
  "ex_api = NewAPI \<lparr>en_NewInstantQuery = (\<lambda>_ _. Inr ()), en_NewRangeQuery = (\<lambda>_ _ _ _. Inr ()), en_Exec = (\<lambda>_ _. Inr ()), en_Type = (\<lambda>_. ''vector'')\<rparr>
     (\<lambda>_. [ex_server ''a'', ex_server ''b'']) (\<lambda>_. 0)"


end
