(* ===== verification/Main_Serve.thy ===== *)
theory Main_Serve
  imports Main_Proc Web_Serve
begin

text \<open>
  Requests to the running process (\<open>src/cmd/main.go\<close>): its web handler answers them with the targets that its target
  manager has at that time.
\<close>

definition main_api :: "('q, 'v) engine \<Rightarrow> (unit \<Rightarrow> Time) \<Rightarrow> 'k TargetManager \<Rightarrow> ('q, 'v) API" where
  "main_api queryEngine now targetManager = NewAPI queryEngine (\<lambda>_. tm_Targets targetManager) now"

text \<open>A process has the four components of \<open>main_comps\<close>; any other list has no answer.\<close>

definition proc_serve ::
  "('v, 'm) web_env \<Rightarrow> ('q, 'v) engine \<Rightarrow> (unit \<Rightarrow> Time) \<Rightarrow> ('h, 'k) proc \<Rightarrow> web_request \<Rightarrow> web_outcome option" where
  "proc_serve wenv queryEngine now p req = (case pr_comps p of
       [CWriter w, CReader r, CTargets t, CWeb h] \<Rightarrow> Some (fst (web_serve wenv (main_api queryEngine now t) h req))
     | _ \<Rightarrow> None)"

section \<open>The routes stay\<close>

definition routes_are :: "route list \<Rightarrow> ('h, 'k) component list \<Rightarrow> bool" where
  "routes_are rs comps \<longleftrightarrow> list_all (\<lambda>c. case c of CWeb h \<Rightarrow> wh_routes h = rs | _ \<Rightarrow> True) comps"

lemma comp_apply_routes:
  "comp_apply env conf c c' err \<Longrightarrow> routes_are rs [c] \<Longrightarrow> routes_are rs [c']"
  by (induction rule: comp_apply.induct) (simp_all add: routes_are_def web_ApplyConfig_def)

lemma reload_loop_routes:
  "reload_loop (comp_apply env conf) failed cs cs' failed' \<Longrightarrow> routes_are rs cs \<Longrightarrow> routes_are rs cs'"
proof (induction rule: reload_loop.induct)
  case (cons c c' err failed cs cs' failed')
  then show ?case
    using comp_apply_routes [OF cons(1), of rs] by (simp add: routes_are_def)
qed simp

lemma reloadConfig_routes:
  assumes "reloadConfig env filename cs cs' err" "routes_are rs cs"
  shows "routes_are rs cs'"
  using assms(1) by (cases rule: reloadConfig.cases) (use assms(2) reload_loop_routes in auto)

lemma comp_step_routes: "comp_step env c c' \<Longrightarrow> routes_are rs [c] \<Longrightarrow> routes_are rs [c']"
  by (induction rule: comp_step.induct) (auto simp: routes_are_def web_reload_def web_quit_def split: if_splits)

lemma routes_update: "routes_are rs cs \<Longrightarrow> routes_are rs [c] \<Longrightarrow> routes_are rs (cs[i := c])"
  unfolding routes_are_def by (rule list_all_update) simp_all

lemma routes_at: "routes_are rs cs \<Longrightarrow> i < length cs \<Longrightarrow> routes_are rs [cs ! i]"
  by (simp add: routes_are_def list_all_length)

lemma main_step_routes:
  assumes "main_step env p p'" "routes_are rs (pr_comps p)"
  shows "routes_are rs (pr_comps p')"
  using assms(1)
proof (cases rule: main_step.cases)
  case (hup comps err)
  then show ?thesis
    using reloadConfig_routes assms(2) by auto
next
  case (run_targets i tm tm')
  then show ?thesis
    using routes_update [OF assms(2), of "CTargets tm'" i] by (simp add: routes_are_def)
next
  case (component i c)
  then show ?thesis
    using routes_update [OF assms(2)] comp_step_routes [OF component(3)] routes_at [OF assms(2) component(2)] by simp
qed

lemma main_run_routes:
  assumes "main_start env path_Join (Inr cfg) v (Runs p)" "(main_step env)\<^sup>*\<^sup>* p p'"
  shows "routes_are (web_routes path_Join (web_options cfg)) (pr_comps p')"
  using assms(2)
proof (induction rule: rtranclp_induct)
  case base
  from assms(1) show ?case
  proof (cases rule: main_start.cases)
    case (running comps)
    have "routes_are (web_routes path_Join (web_options cfg)) (main_comps path_Join cfg)"
      by (simp add: routes_are_def main_comps_def web_New_def)
    then show ?thesis
      using reloadConfig_routes running by fastforce
  qed
next
  case (step p' p'')
  then show ?case
    using main_step_routes by blast
qed

section \<open>The answers of the process\<close>


section \<open>A run\<close>

text \<open>A process below the path \<open>/prom\<close> whose discovery finds one Prometheus server.\<close>

definition ex_prom_cfg :: cmd_cfg where
  "ex_prom_cfg = default_cmd_cfg\<lparr>cf_prometheusURL := ''http://h:9090/'', cf_ExternalPath := ''/prom'', cf_RoutePrefix := ''/prom''\<rparr>"

definition ex_prom_job :: ScrapeConfig where
  "ex_prom_job = \<lparr>sc_JobName = ''allprometheus'', sc_Scheme = ''https'', sc_MetricsPath = ''/m'', sc_Params = [], sc_RelabelConfigs = []\<rparr>"

definition ex_prom_env :: "(unit, unit, nat) main_env" where
  "ex_prom_env = ex_env\<lparr>me_LoadFile := (\<lambda>_. Inr (ex_conf\<lparr>cfg_ScrapeConfigs := [ex_prom_job]\<rparr>))\<rparr>"

definition ex_prom_proc :: "nat TargetManager \<Rightarrow> (unit, nat) proc" where
  "ex_prom_proc tm = \<lparr>pr_configFile = ''prometheus.yml'',
     pr_comps = [CWriter (ex_writer qm_start False), CReader \<lparr>rd_clients = [], rd_externalLabels = []\<rparr>, CTargets tm,
       CWeb ((web_New (@) (web_options ex_prom_cfg))\<lparr>wh_configString := ''c''\<rparr>)]\<rparr>"

definition ex_prom_configured :: "nat TargetManager" where
  "ex_prom_configured = NewTargetManager\<lparr>tm_scrapeConfigs := [ex_prom_job]\<rparr>"

definition ex_prom_running :: "nat TargetManager" where
  "ex_prom_running = \<lparr>tm_scrapeConfigs = [ex_prom_job], tm_ctx = Some 0, tm_runs = 1, tm_cancelled = [],
     tm_targetSets = [(''allprometheus'', \<lparr>ts_ctx = 0, ts_sp = newScrapePool ex_prom_job, ts_providers = Some ex_prom_job\<rparr>)]\<rparr>"

definition ex_prom_tm :: "nat TargetManager" where
  "ex_prom_tm = tm_Sync tu_Host id ex_process ''allprometheus'' [ex_group] ex_prom_running"

lemma ex_prom_env_simps [simp]:
  "me_newHTTP ex_prom_env = ex_http" "me_new_client ex_prom_env = ex_new_client" "me_process ex_prom_env = ex_process"
  "me_render ex_prom_env = tu_Host" "me_quote ex_prom_env = id"
  "me_LoadFile ex_prom_env f = Inr (ex_conf\<lparr>cfg_ScrapeConfigs := [ex_prom_job]\<rparr>)"
  by (simp_all add: ex_prom_env_def)

lemma ex_prom_targets: "getPromTargets (tm_Targets ex_prom_tm) = [''h:443'']"
proof -
  have "populateLabels id (relabel_Process (\<lambda>_. [])) [(AddressLabel, ''h'')] ex_prom_job =
     Inr (Some ([(''__address__'', ''h:443''), (''__scheme__'', ''https''), (''__metrics_path__'', ''/m''),
                 (''job'', ''allprometheus''), (''instance'', ''h:443'')],
                [(''__address__'', ''h''), (''__scheme__'', ''https''), (''__metrics_path__'', ''/m''), (''job'', ''allprometheus'')]))"
    by (simp add: populateLabels_def ex_prom_job_def label_names scrape_labels_def gm_has_def gm_get_def gm_put_def
        labelset_Clone_def add_port_label_def gm_str_def addPort_def split_host_port_ok_def last_colon_def
        CheckTargetAddress_def has_prefix_def labelvalue_IsValid_def Let_def)
  then have g: "targetsFromGroup id ex_process ex_prom_job ex_group = Inr
      [NewTarget [(''__address__'', ''h:443''), (''__scheme__'', ''https''), (''__metrics_path__'', ''/m''),
                 (''job'', ''allprometheus''), (''instance'', ''h:443'')]
                [(''__address__'', ''h''), (''__scheme__'', ''https''), (''__metrics_path__'', ''/m''), (''job'', ''allprometheus'')]
         (sc_Params ex_prom_job)]"
    by (simp add: targetsFromGroup_def ex_group_def ex_process_def)
  show ?thesis
    by (simp add: ex_prom_tm_def ex_prom_running_def tm_Sync_def sp_Sync_def newScrapePool_def g sp_sync_def Let_def
        gm_has_def gm_get_def gm_put_def gm_del_if_def tm_Targets_def gm_str_def NewTarget_def getPromTargets_def
        target_Labels_def has_prefix_def ReservedLabelPrefix_def)
qed

lemma ex_prom_start: "main_start ex_prom_env (@) (Inr ex_prom_cfg) False (Runs (ex_prom_proc ex_prom_configured))"
proof -
  let ?conf = "ex_conf\<lparr>cfg_ScrapeConfigs := [ex_prom_job]\<rparr>"
  have w: "comp_apply ex_prom_env ?conf (CWriter \<lparr>w_queues = []\<rparr>) (CWriter (ex_writer qm_start False)) None"
    using comp_apply.writer [of ex_prom_env ?conf] ex_writer_config by (simp add: ex_conf_def)
  have r: "comp_apply ex_prom_env ?conf (CReader \<lparr>rd_clients = [], rd_externalLabels = []\<rparr>) (CReader \<lparr>rd_clients = [], rd_externalLabels = []\<rparr>) None"
    by (rule comp_apply.reader) (simp add: ex_conf_def reader_ApplyConfig_def)
  have t: "comp_apply ex_prom_env ?conf (CTargets NewTargetManager) (CTargets ex_prom_configured) None"
    by (rule comp_apply.targets) (simp add: ex_conf_def tm_ApplyConfig_def NewTargetManager_def ex_prom_configured_def)
  have h: "comp_apply ex_prom_env ?conf (CWeb (web_New (@) (web_options ex_prom_cfg)))
      (CWeb ((web_New (@) (web_options ex_prom_cfg))\<lparr>wh_configString := ''c''\<rparr>)) None"
    using comp_apply.web [of ex_prom_env ?conf "web_New (@) (web_options ex_prom_cfg)"]
    by (simp add: ex_conf_def web_ApplyConfig_def web_New_def)
  have "reload_loop (comp_apply ex_prom_env ?conf) False (main_comps (@) ex_prom_cfg) (pr_comps (ex_prom_proc ex_prom_configured)) False"
    unfolding main_comps_def ex_prom_proc_def
    by (simp, (rule reload_loop.cons, rule w, simp)?, (rule reload_loop.cons, rule r, simp)?,
        (rule reload_loop.cons, rule t, simp)?, (rule reload_loop.cons, rule h, simp)?, rule reload_loop.nil)
  then have "reloadConfig ex_prom_env ''prometheus.yml'' (main_comps (@) ex_prom_cfg) (pr_comps (ex_prom_proc ex_prom_configured)) None"
    by (intro reloadConfig.loaded [of ex_prom_env _ ?conf]) simp_all
  then show ?thesis
    using main_start.running [of ex_prom_env ex_prom_cfg "(@)" "pr_comps (ex_prom_proc ex_prom_configured)"]
    by (simp add: ex_prom_proc_def) (simp add: ex_prom_cfg_def default_cmd_cfg_def)
qed

lemma ex_prom_run: "(main_step ex_prom_env)\<^sup>*\<^sup>* (ex_prom_proc ex_prom_configured) (ex_prom_proc ex_prom_tm)"
proof -
  have "tm_Run ex_new_client (me_accepts ex_prom_env) ex_prom_configured = Some ex_prom_running"
    by (simp add: tm_Run_def tm_reload_def ex_prom_configured_def NewTargetManager_def UpdateProviders_def job_set_def
        ex_prom_running_def ex_prom_job_def gm_put_def gm_del_if_def gm_has_def gm_get_def)
  then have 1: "main_step ex_prom_env (ex_prom_proc ex_prom_configured) (ex_prom_proc ex_prom_running)"
    using main_step.run_targets [of 2 "ex_prom_proc ex_prom_configured" ex_prom_configured ex_prom_env ex_prom_running]
    by (simp add: ex_prom_proc_def)
  have "comp_step ex_prom_env (CTargets ex_prom_running) (CTargets ex_prom_tm)"
    using comp_step.sync [of "[ex_group]" ex_prom_env ex_prom_running "''allprometheus''"]
    by (simp add: ex_prom_tm_def groups_ok_def ex_group_def gm_ok_def)
  then have 2: "main_step ex_prom_env (ex_prom_proc ex_prom_running) (ex_prom_proc ex_prom_tm)"
    using main_step.component [of 2 "ex_prom_proc ex_prom_running" ex_prom_env "CTargets ex_prom_tm"] by (simp add: ex_prom_proc_def)
  show ?thesis
    using 1 2 by (meson converse_rtranclp_into_rtranclp rtranclp.rtrancl_refl)
qed

lemma ex_prom_loads_ok: "loads_ok ex_prom_env"
  by (simp add: loads_ok_def ex_prom_env_def ex_conf_def cfgs_ok_def ex_prom_job_def)

definition ex_prom_wenv :: "(unit, string) web_env" where
  "ex_prom_wenv = ex_web_env\<lparr>we_fetch := (\<lambda>m url. if url = ''http://h:443'' @ ex_uri then Answer ''x'' else TransportError [])\<rparr>"

definition ex_prom_engine :: "(unit, unit) engine" where
  "ex_prom_engine = \<lparr>en_NewInstantQuery = (\<lambda>_ _. Inr ()), en_NewRangeQuery = (\<lambda>_ _ _ _. Inr ()), en_Exec = (\<lambda>_ _. Inr ()), en_Type = (\<lambda>_. ''vector'')\<rparr>"


end
