(* ===== verification/Spec2Isabelle.thy ===== *)
theory Spec2Isabelle
  imports Fanin_Race Query_Path Read_Race Cow_Metric Write_Path Ewma_Race Target_Manager_Spec Proxy_Race Http_Util Usage Main_Serve
begin

text \<open>
  promeproxy is a proxy in front of several Prometheus servers. It evaluates PromQL queries itself, on samples that it
  reads from remote storage, forwards the requests for metadata to the Prometheus servers among its targets, and can
  write samples to remote storage through sharded queues. This library models the program in HOL and proves what
  makes its parts correct, and where they are not.

  \<^bold>\<open>Parts and interaction.\<close> \<open>cmd/main.go\<close> creates four components that take every configuration: the remote writer, the
  remote reader, the target manager and the web handler (theory Main_Proc). The web handler routes requests to the API,
  whose query handlers run the query engine over \<open>storage/fanin\<close>; that merges the local storage (which is
  empty) with the remote queriers of the reader, each of them a client of \<open>storage/remote/client.go\<close>. The other
  handlers of the API ask the target manager for its targets and forward the request to some of them. The writer hands
  every sample to one queue manager per endpoint, whose shards send batches through the same kind of client.

  \<^bold>\<open>Theories\<close>, from the bottom.

  \<^item> Go_Prelude: panics, \<open>int64\<close> arithmetic with wrap-around (Go's truncated division and remainder), maps as association
    lists with the locale of their laws, strings. A map is visited in the order of its list; the theorems either
    hold for every list or say that two lists are equal as maps.
  \<^item> Float64: the float64 arithmetic of the code, exact on the rationals with rounding to 53 bits.
  \<^item> Model_Types: times, samples, label sets and fingerprints of the vendored package \<open>model\<close>.
  \<^item> Series_Iterator: \<open>storage/remote/iterator.go\<close>, the iterator over the samples of one series, and the locale of a
    series iterator that the merging iterator relies on.
  \<^item> Fanin, Fanin_Query, Fanin_Race: \<open>storage/fanin/fanin.go\<close>. Fanin has \<open>mergeSamples\<close> and the merging iterator;
    Fanin_Query has \<open>query\<close>, with the schedule of its goroutines as a parameter; Fanin_Race takes the unsynchronised
    accesses to the shared map apart into reads and writes. Query_Path composes them with the reader and its clients
    to the querier that \<open>cmd/main.go\<close> gives the query engine, and proves what a query returns end to end.
  \<^item> Label_Matcher: \<open>storage/metric/matcher.go\<close> with the selectivity score in float64. Cow_Metric:
    \<open>storage/metric/metric.go\<close> over an explicit heap of maps.
  \<^item> Url_Query: the encoding and decoding of URL queries of Go's library. Remote_Client: \<open>storage/remote/client.go\<close>.
    Remote_Read: \<open>storage/remote/read.go\<close>. Read_Race: concurrent reads through one client, with the accesses to its URL
    as steps.
  \<^item> Queue_Send, Queue_Manager, Shard_Count, Shard_Loop: \<open>storage/remote/queue_manager.go\<close> and \<open>ewma.go\<close>: the retries of
    a batch, the shards with their queues as a step relation, the number of shards, and all of it together with the
    two loops, the panics and \<open>Stop\<close>. Ewma_Race: the accesses of a tick interleaved with counted events, and that it may be
    taken as atomic. Metrics: the Prometheus metrics of that file and their registration. Write_Path: the queue manager with
    its metrics and the client that it sends through. Sample_Appender: \<open>storage/storage.go\<close>, the interface of appenders,
    its contract as locales, and the fan-out. Writer: \<open>storage/remote/write.go\<close>, a queue manager from its creation to its
    stop, and the appender of the process.
  \<^item> Relabel: the vendored package \<open>relabel\<close>. Target: \<open>retrieval/target.go\<close>. Scrape_Pool: \<open>retrieval/scrape.go\<close>.
    Target_Manager: \<open>retrieval/targetmanager.go\<close>, with a relation of its steps in any order. Target_Manager_Spec: what it
    promises as a function of its events, and the refinement.
  \<^item> Api_Types: \<open>web/api/v1/types.go\<close>. Api_Parse, Api: \<open>web/api/v1/api.go\<close>, times and durations, and the handlers.
    Proxy_Race: the appends of the goroutines of \<open>proxyReq\<close> taken apart into their accesses to slice and array.
    Http_Util: \<open>utils/httputil.go\<close>. Cmd_Config, Usage: \<open>cmd/config.go\<close>, the configuration, and the flags with the usage
    message. Web_Handler: \<open>web/web.go\<close>. Web_Serve: a request on its way through router, handler and API. Main_Proc:
    \<open>cmd/main.go\<close>, the process with its components and events. Main_Serve: requests to the running process.

  \<^bold>\<open>How code and model correspond.\<close> A struct is a record, with the names of its fields after a short prefix; a function
  or method keeps its name, with a prefix where several types have one (\<open>mit_RangeValues\<close>, \<open>tm_ApplyConfig\<close>, \<open>api_series\<close>),
  and a loop of its own is a recursive function \<open>..._loop\<close>. An error is the left summand of \<open>'e + 'a\<close>, a
  panic that of \<open>panic + 'a\<close>, a nil result is \<open>None\<close>. A pointer receiver is a state that the function returns. Goroutines
  are step relations or schedules; a method that waits for goroutines (\<open>Stop\<close>) is an inductive relation over them. A
  send that may block for ever is \<open>None\<close> (theory Target_Manager).

  \<^bold>\<open>What the lemmas show.\<close>
  \<^item> Queries: merged samples are sorted and complete, the merging iterator cuts remote samples at the first local one,
    every series of every querier gets one iterator under every schedule, the schedule does not matter when
    remotes agree, and queries return; with the races of the code an iterator can be lost. End to end, a query returns
    one iterator per series of the endpoints, with exactly their samples.
  \<^item> Remote storage: the requests that are sent and how answers and errors are read; external labels narrow the
    selector; a configuration is taken whole or not at all. Concurrent reads of one endpoint send a request of one of
    them, but not always their own.
  \<^item> Writing: each series is sent in the order of its acceptance whatever the interleaving, sizes are bounded, closed
    shards drain, retries are bounded; at the level of the writer the accepted and the dropped samples are a merge of
    exactly those offered; after a stop the writer panics. With its two loops the queue manager refines this queue, the
    number of shards has an upper bound, it panics in three ways only, and \<open>Stop\<close> can always finish. The metrics are its
    books: what they show in every state, and that after a stop every accepted sample is counted as delivered or given up,
    the delivered ones having been answered with success (the length gauge can be negative for a moment).
  \<^item> Targets: the labels of a target are well formed, a pool holds one target per hash, the manager holds the jobs of its
    configuration after any steps, a new configuration keeps the targets of jobs that stay, and blocks after a stop;
    its targets are a function of the events it has seen.
  \<^item> API, command line, process: limits of range queries, the union of the answers of all servers, which answers a
    race can lose, duplicates removed in place, errors and their codes; paths and prefixes are normalised and no route is
    registered twice; a request that the router takes is answered with the headers and the data of all servers, and in a
    running process these are the servers among the targets of that time; the usage message shows every flag once; the
    guarantees of the writer and the target manager hold for the running process; which reloads are never served, and
    how the process ends.

  \<^bold>\<open>Interfaces as locales.\<close> The laws of maps (Go_Prelude), of a hash of label sets (Model_Types, for both
  fingerprints), the contract of a series iterator (Series_Iterator, for the sample stream, the merging iterator and
  the iterators behind the interface), of an appender that drops samples instead of blocking its caller
  (Sample_Appender: the writer, the buffer of a scrape, and the fan-out over such appenders, by a sublocale), and of a
  component that can be reloaded (Main_Proc: refusing a configuration
  changes nothing) are locales, interpreted on the definitions of the code.

  \<^bold>\<open>Bounds and fuel.\<close> No function has fuel. Loops are structural or recurse on a measure (the samples left to
  merge, the interval of a binary search); the retries of a batch count down from their bound. Only the loop of a shard
  that sends full batches may run for ever, for a batch size of 0: it is a partial function, and the theorems
  about shards assume a positive size, which the default configuration has. Integers are \<open>int\<close> with \<open>wrap64\<close> where the
  code computes with \<open>int64\<close>, and words where it hashes.

  \<^bold>\<open>Parameters\<close> of the model stand for code outside the repository and for the library's input and output: HTTP clients
  and exchanges, the worlds that the attempts of a queue meet, protobuf, snappy and JSON, regular expressions, \<open>md5\<close>, the query engine, service discovery (any groups
  in any order), the configuration file, the host name and URL parser, the rendering of a URL, and \<open>%q\<close>.

  \<^bold>\<open>Not modelled.\<close> Logging and tracing; the buckets of the histogram of send durations; the locks, whose effect is that the operations between them are atomic;
  the network and the HTTP server below \<open>net.Listen\<close>, \<open>net.DialTimeout\<close> and \<open>Serve\<close>; what the
  router answers itself when no route matches; the types that \<open>cmd/main.go\<close> declares again and never uses;
  the generated \<open>remote.pb.go\<close> beyond its message types; code that is commented out. A word of memory is read and
  written as a whole: the undefined behaviour that Go gives to a race beyond lost and stale values, such as the runtime
  aborting on concurrent writes to a map, is not a step of the models.
\<close>

end
